(* ===== verification/Prelude.thy ===== *)
theory Prelude
  imports "HOL-Library.List_Lexorder" "HOL-Library.Char_ord" "HOL-Library.Word"
begin

text \<open>
  What every component shares.

  \<^item> Byte strings: a \<open>std::string\<close> is a \<open>string\<close> (a list of 8-bit \<open>char\<close>s); \<open>byte\<close> and
    \<open>of_byte\<close> go between a character and its unsigned value.
  \<^item> Integers: an \<open>int32_t\<close> or \<open>int64_t\<close> is an \<open>int\<close>; \<open>i32\<close> and \<open>i64\<close> write out the
    two's-complement narrowing, \<open>fits64\<close> says when a 64-bit result does not overflow.
  \<^item> Programs with effects: a \<open>prog\<close> maps a state to an \<open>outcome\<close>, either a value and the
    new state, or a fault (undefined behaviour or an uncaught exception) together with the
    state reached when it happened, because what was already written to the database or
    sent to a chain before a fault matters.
  \<^item> \<open>keeps I m\<close>: the invariant \<open>I\<close> holds after \<open>m\<close>, also at a fault; its rules are
    collected in \<open>keeps_intros\<close>.
  \<^item> \<open>std::map\<close>: an association list sorted by key, with the operations the code uses.
\<close>

named_theorems keeps_intros \<open>rules that build an invariant proof along a program\<close>
named_theorems prog_simps \<open>equations that run a program\<close>

section \<open>Bytes and integers\<close>

definition byte :: "char \<Rightarrow> nat" where
  "byte c = of_char c"

definition of_byte :: "nat \<Rightarrow> char" where
  "of_byte n = char_of n"

lemma byte_less [simp]: "byte c < 256"
  by (simp add: byte_def)

lemma byte_of_byte [simp]: "n < 256 \<Longrightarrow> byte (of_byte n) = n"
  by (simp add: byte_def of_byte_def)

lemma of_byte_byte [simp]: "of_byte (byte c) = c"
  by (simp add: byte_def of_byte_def)

lemma byte_eq_iff: "byte c = byte d \<longleftrightarrow> c = d"
  by (simp add: byte_def)

lemma byte_less_iff: "byte c < byte d \<longleftrightarrow> c < d"
  by (simp add: byte_def less_char_def)

definition i32 :: "int \<Rightarrow> int" where
  "i32 x = (x + 2 ^ 31) mod 2 ^ 32 - 2 ^ 31"

definition i64 :: "int \<Rightarrow> int" where
  "i64 x = (x + 2 ^ 63) mod 2 ^ 64 - 2 ^ 63"

definition fits32 :: "int \<Rightarrow> bool" where
  "fits32 x \<longleftrightarrow> - (2 ^ 31) \<le> x \<and> x < 2 ^ 31"

definition fits64 :: "int \<Rightarrow> bool" where
  "fits64 x \<longleftrightarrow> - (2 ^ 63) \<le> x \<and> x < 2 ^ 63"

lemma i32_fits [simp]: "fits32 x \<Longrightarrow> i32 x = x"
  by (simp add: fits32_def i32_def)

lemma i64_fits [simp]: "fits64 x \<Longrightarrow> i64 x = x"
  by (simp add: fits64_def i64_def)

lemma fits32_i32 [simp]: "fits32 (i32 x)"
proof -
  have "0 \<le> (x + 2 ^ 31) mod 2 ^ 32" "(x + 2 ^ 31) mod 2 ^ 32 < 2 ^ 32" by simp_all
  then show ?thesis by (simp add: fits32_def i32_def)
qed

lemma fits64_i64 [simp]: "fits64 (i64 x)"
proof -
  have "0 \<le> (x + 2 ^ 63) mod 2 ^ 64" "(x + 2 ^ 63) mod 2 ^ 64 < 2 ^ 64" by simp_all
  then show ?thesis by (simp add: fits64_def i64_def)
qed

section \<open>C strings\<close>

text \<open>\<open>s.c_str()\<close> read by a C function ends at the first NUL.\<close>

definition nul_free :: "string \<Rightarrow> bool" where
  "nul_free s \<longleftrightarrow> (\<forall>c \<in> set s. c \<noteq> CHR 0x00)"

definition c_str :: "string \<Rightarrow> string" where
  "c_str s = takeWhile (\<lambda>c. c \<noteq> CHR 0x00) s"

lemma c_str_nul_free [simp]: "nul_free s \<Longrightarrow> c_str s = s"
  by (simp add: c_str_def nul_free_def)

lemma nul_free_c_str [simp]: "nul_free (c_str s)"
  by (auto simp: c_str_def nul_free_def dest: set_takeWhileD)

lemma nul_free_append [simp]: "nul_free (s @ t) \<longleftrightarrow> nul_free s \<and> nul_free t"
  by (auto simp: nul_free_def)

definition has_prefix :: "string \<Rightarrow> string \<Rightarrow> bool" where
  "has_prefix p s \<longleftrightarrow> take (length p) s = p"

lemma has_prefix_append [simp]: "has_prefix p (p @ s)"
  by (simp add: has_prefix_def)

lemma has_prefix_iff: "has_prefix p s \<longleftrightarrow> (\<exists>t. s = p @ t)"
  by (metis append_take_drop_id has_prefix_append has_prefix_def)

end
