(* ===== verification/Strings.thy ===== *)
theory Strings
  imports Prelude
begin

text \<open>
  \<open>utils/strings.h\<close>: the number conversions, the searches and splits, trimming, case and
  hexadecimal text. Characters are compared by their unsigned code; where the code compares a
  (signed) \<open>char\<close> with an ASCII range the two agree.
\<close>

section \<open>Searching, as \<open>std::string::find\<close>\<close>

fun find_aux :: "string \<Rightarrow> string \<Rightarrow> nat \<Rightarrow> nat option" where
  "find_aux sub [] i = (if sub = [] then Some i else None)"
| "find_aux sub (c # s) i = (if has_prefix sub (c # s) then Some i else find_aux sub s (Suc i))"

definition str_find :: "string \<Rightarrow> string \<Rightarrow> nat \<Rightarrow> nat option" where
  "str_find s sub pos = (if pos \<le> length s then find_aux sub (drop pos s) pos else None)"

fun rfind_char :: "char \<Rightarrow> string \<Rightarrow> nat option" where
  "rfind_char d [] = None"
| "rfind_char d (c # s) =
     (case rfind_char d s of
        Some i \<Rightarrow> Some (Suc i)
      | None \<Rightarrow> (if c = d then Some 0 else None))"

definition substr :: "string \<Rightarrow> nat \<Rightarrow> nat \<Rightarrow> string" where
  "substr s pos n = take n (drop pos s)"

lemma find_aux_Some:
  "find_aux sub s i = Some j \<Longrightarrow>
   i \<le> j \<and> j \<le> i + length s \<and> has_prefix sub (drop (j - i) s) \<and>
   (\<forall>k. i \<le> k \<and> k < j \<longrightarrow> \<not> has_prefix sub (drop (k - i) s))"
proof (induction sub s i rule: find_aux.induct)
  case (2 sub c s i)
  show ?case
  proof (cases "has_prefix sub (c # s)")
    case True
    with 2(2) have "j = i" by simp
    with True show ?thesis by simp
  next
    case False
    with 2 have ih: "Suc i \<le> j" "j \<le> Suc i + length s" "has_prefix sub (drop (j - Suc i) s)"
      "\<forall>k. Suc i \<le> k \<and> k < j \<longrightarrow> \<not> has_prefix sub (drop (k - Suc i) s)"
      by simp_all
    have shift: "drop (k - i) (c # s) = drop (k - Suc i) s" if "Suc i \<le> k" for k
      using that by (metis Suc_diff_le diff_Suc_Suc drop_Suc_Cons)
    from ih False show ?thesis
      by (metis Suc_leI add_Suc_right add_Suc_shift diff_self_eq_0 drop0 le_antisym le_eq_less_or_eq
          length_Cons Suc_leD shift not_less_eq_eq)
  qed
qed (auto split: if_splits simp: has_prefix_def)

lemma rfind_char_None: "rfind_char d s = None \<longleftrightarrow> d \<notin> set s"
  by (induction s) (auto split: option.splits)

lemma rfind_char_Some:
  "rfind_char d s = Some i \<Longrightarrow> i < length s \<and> s ! i = d \<and> d \<notin> set (drop (Suc i) s)"
  by (induction s arbitrary: i) (auto split: option.splits if_splits simp: rfind_char_None)

section \<open>Character classes\<close>

definition in_range :: "char \<Rightarrow> nat \<Rightarrow> nat \<Rightarrow> bool" where
  "in_range c a b \<longleftrightarrow> a \<le> byte c \<and> byte c \<le> b"

definition IS_BLANK :: "char \<Rightarrow> bool" where
  "IS_BLANK c \<longleftrightarrow> byte c = 32 \<or> byte c = 9"

definition IS_DIGIT :: "char \<Rightarrow> bool" where
  "IS_DIGIT c \<longleftrightarrow> in_range c 48 57"

definition IS_HEX_DIGIT :: "char \<Rightarrow> bool" where
  "IS_HEX_DIGIT c \<longleftrightarrow> in_range c 65 70 \<or> in_range c 97 102"

definition IsSpace :: "char \<Rightarrow> bool" where
  "IsSpace c \<longleftrightarrow> in_range c 9 13 \<or> byte c = 32"

definition CharIsLetter :: "char \<Rightarrow> bool" where
  "CharIsLetter c \<longleftrightarrow> in_range c 65 90 \<or> in_range c 97 122"

definition CanDisplay :: "string \<Rightarrow> bool" where
  "CanDisplay s \<longleftrightarrow> list_all (\<lambda>c. in_range c 32 127) s"

definition IsContainUppercase :: "string \<Rightarrow> bool" where
  "IsContainUppercase s \<longleftrightarrow> list_ex (\<lambda>c. in_range c 65 90) s"

definition IsContainLowercase :: "string \<Rightarrow> bool" where
  "IsContainLowercase s \<longleftrightarrow> list_ex (\<lambda>c. in_range c 97 122) s"

definition IsInteger :: "string \<Rightarrow> bool" where
  "IsInteger s \<longleftrightarrow> list_all IS_DIGIT s"

definition to_lower :: "char \<Rightarrow> char" where
  "to_lower c = (if in_range c 65 90 then of_byte (byte c + 32) else c)"

definition to_upper :: "char \<Rightarrow> char" where
  "to_upper c = (if in_range c 97 122 then of_byte (byte c - 32) else c)"

definition ToLower :: "string \<Rightarrow> string" where
  "ToLower s = map to_lower s"

definition ToUpper :: "string \<Rightarrow> string" where
  "ToUpper s = map to_upper s"

text \<open>The loop of \<open>EqualsIgnoreCase\<close>: equal characters pass, a non-letter on either side
  fails, letters must be \<open>0x20\<close> apart.\<close>

fun equals_loop :: "string \<Rightarrow> string \<Rightarrow> bool" where
  "equals_loop (c # s) (d # t) =
     (if c = d then equals_loop s t
      else if \<not> CharIsLetter c \<or> \<not> CharIsLetter d then False
      else if \<bar>int (byte c) - int (byte d)\<bar> \<noteq> 32 then False
      else equals_loop s t)"
| "equals_loop s t = True"

definition EqualsIgnoreCase :: "string \<Rightarrow> string \<Rightarrow> bool" where
  "EqualsIgnoreCase s1 s2 = (if length s1 \<noteq> length s2 then False else equals_loop s1 s2)"

text \<open>The upper-cased copies are made and then not used: the search is on the arguments.\<close>

definition IsContainStringIgnoreCase :: "string \<Rightarrow> string \<Rightarrow> bool" where
  "IsContainStringIgnoreCase str1 str2 =
     (let s1 = ToUpper str1; s2 = ToUpper str2 in str_find str1 str2 0 \<noteq> None)"

lemma to_lower_eq_iff:
  "to_lower c = to_lower d \<longleftrightarrow>
   c = d \<or> (CharIsLetter c \<and> CharIsLetter d \<and> \<bar>int (byte c) - int (byte d)\<bar> = 32)"
proof -
  have code: "byte (to_lower x) = (if 65 \<le> byte x \<and> byte x \<le> 90 then byte x + 32 else byte x)" for x
    by (simp add: to_lower_def in_range_def)
  show ?thesis
    unfolding byte_eq_iff [of "to_lower c", symmetric] byte_eq_iff [of c, symmetric] code
    by (auto simp: CharIsLetter_def in_range_def)
qed

lemma equals_loop_iff:
  "length s = length t \<Longrightarrow> equals_loop s t \<longleftrightarrow> ToLower s = ToLower t"
  by (induction s t rule: equals_loop.induct) (auto simp: ToLower_def to_lower_eq_iff)

lemma EqualsIgnoreCase_iff: "EqualsIgnoreCase s t \<longleftrightarrow> ToLower s = ToLower t"
  by (auto simp: EqualsIgnoreCase_def equals_loop_iff dest: arg_cong [where f = length])
     (simp add: ToLower_def, metis length_map)

section \<open>Numbers and decimal text\<close>

definition digit_char :: "nat \<Rightarrow> char" where
  "digit_char d = of_byte (48 + d)"

fun dec_nat :: "nat \<Rightarrow> string" where
  "dec_nat n = (if n < 10 then [digit_char n] else dec_nat (n div 10) @ [digit_char (n mod 10)])"

declare dec_nat.simps [simp del]

text \<open>\<open>ToString\<close> on the integer types: \<open>snprintf\<close> with \<open>%d\<close>, \<open>%u\<close> or their 64-bit forms.\<close>

definition ToString :: "int \<Rightarrow> string" where
  "ToString n = (if n < 0 then CHR ''-'' # dec_nat (nat (- n)) else dec_nat (nat n))"

fun read_digits :: "nat \<Rightarrow> string \<Rightarrow> nat" where
  "read_digits acc [] = acc"
| "read_digits acc (c # s) = (if IS_DIGIT c then read_digits (acc * 10 + (byte c - 48)) s else acc)"

text \<open>\<open>strtol\<close> in base 10: leading white space, a sign, digits; the value saturates.\<close>

definition saturate64 :: "int \<Rightarrow> int" where
  "saturate64 x = max (- (2 ^ 63)) (min (2 ^ 63 - 1) x)"

definition strtol10 :: "string \<Rightarrow> int" where
  "strtol10 str =
     (let s = dropWhile IsSpace (c_str str) in
      case s of
        [] \<Rightarrow> 0
      | c # t \<Rightarrow>
          if c = CHR ''-'' then saturate64 (- int (read_digits 0 t))
          else if c = CHR ''+'' then saturate64 (int (read_digits 0 t))
          else saturate64 (int (read_digits 0 s)))"

definition Stol :: "string \<Rightarrow> int" where
  "Stol str = (if length str = 0 then 0 else strtol10 str)"

definition Stoi64 :: "string \<Rightarrow> int" where
  "Stoi64 str = (if length str = 0 then 0 else strtol10 str)"

definition Stoi :: "string \<Rightarrow> int" where
  "Stoi str = (if length str = 0 then 0 else i32 (strtol10 str))"

text \<open>\<open>Stoui\<close> and \<open>Stoui64\<close> are loops of their own: leading spaces are skipped, the value
  wraps at the width \<open>w\<close>, the first other character ends the number.\<close>

fun stoui_loop :: "nat \<Rightarrow> nat \<Rightarrow> nat \<Rightarrow> string \<Rightarrow> nat" where
  "stoui_loop w used value [] = value"
| "stoui_loop w used value (c # s) =
     (if IS_DIGIT c then stoui_loop w (Suc used) ((value * 10 + (byte c - 48)) mod 2 ^ w) s
      else if \<not> IsSpace c \<or> used > 0 then value
      else stoui_loop w used value s)"

definition Stoui :: "string \<Rightarrow> nat" where
  "Stoui str = (if length str = 0 then 0 else stoui_loop 32 0 0 str)"

definition Stoui64 :: "string \<Rightarrow> nat" where
  "Stoui64 str = (if length str = 0 then 0 else stoui_loop 64 0 0 str)"

definition Stob :: "string \<Rightarrow> bool" where
  "Stob str = (if length str = 0 \<or> str = ''0'' \<or> str = ''false'' \<or> str = ''FALSE'' then False else True)"

definition SafeStoi :: "string \<Rightarrow> int option" where
  "SafeStoi str =
     (if length str > 11 then None
      else let temNum = Stoi str; temStr = ToString temNum in
        if str = temStr then Some temNum else None)"

definition SafeStoui :: "string \<Rightarrow> nat option" where
  "SafeStoui str =
     (if length str > 10 then None
      else let temNum = Stoui str; temStr = ToString (int temNum) in
        if str = temStr then Some temNum else None)"

definition SafeStoi64 :: "string \<Rightarrow> int option" where
  "SafeStoi64 str =
     (if length str > 20 then None
      else let temNum = Stoi64 str; temStr = ToString temNum in
        if str = temStr then Some temNum else None)"

definition SafeStoui64 :: "string \<Rightarrow> nat option" where
  "SafeStoui64 str =
     (if length str > 20 then None
      else let temNum = Stoui64 str; temStr = ToString (int temNum) in
        if str = temStr then Some temNum else None)"

lemma digit_char_props:
  assumes "d < 10"
  shows "IS_DIGIT (digit_char d)" "byte (digit_char d) = 48 + d" "\<not> IsSpace (digit_char d)"
    "digit_char d \<noteq> CHR ''-''" "digit_char d \<noteq> CHR ''+''" "digit_char d \<noteq> CHR 0x00"
proof -
  show code: "byte (digit_char d) = 48 + d" using assms by (simp add: digit_char_def)
  with assms show "IS_DIGIT (digit_char d)" "\<not> IsSpace (digit_char d)"
    by (simp_all add: IS_DIGIT_def IsSpace_def in_range_def)
  from assms code show "digit_char d \<noteq> CHR ''-''" "digit_char d \<noteq> CHR ''+''" "digit_char d \<noteq> CHR 0x00"
    by (auto simp: byte_def)
qed

lemma dec_nat_digits: "\<forall>c \<in> set (dec_nat n). IS_DIGIT c"
  by (induction n rule: dec_nat.induct) (subst dec_nat.simps, auto simp: digit_char_props)

lemma dec_nat_not_Nil: "dec_nat n \<noteq> []"
  by (subst dec_nat.simps) simp

lemma read_digits_snoc:
  "\<forall>c \<in> set s. IS_DIGIT c \<Longrightarrow> IS_DIGIT d \<Longrightarrow>
   read_digits acc (s @ [d]) = read_digits acc s * 10 + (byte d - 48)"
  by (induction s arbitrary: acc) auto

lemma read_dec_nat: "read_digits 0 (dec_nat n) = n"
proof (induction n rule: dec_nat.induct)
  case (1 n)
  show ?case
  proof (cases "n < 10")
    case True
    then show ?thesis by (subst dec_nat.simps) (simp add: digit_char_props)
  next
    case False
    with 1 have "read_digits 0 (dec_nat (n div 10)) = n div 10" by simp
    with False show ?thesis
      by (subst dec_nat.simps) (simp add: read_digits_snoc dec_nat_digits digit_char_props)
  qed
qed

lemma digit_not_special:
  "IS_DIGIT c \<Longrightarrow> \<not> IsSpace c \<and> c \<noteq> CHR ''-'' \<and> c \<noteq> CHR ''+'' \<and> c \<noteq> CHR 0x00"
  by (auto simp: IS_DIGIT_def IsSpace_def in_range_def byte_def)

lemma digits_nul_free: "\<forall>c \<in> set s. IS_DIGIT c \<Longrightarrow> nul_free s"
  by (auto simp: nul_free_def dest: digit_not_special)

lemma strtol10_dec_nat: "strtol10 (dec_nat n) = saturate64 (int n)"
proof -
  obtain c s where cs: "dec_nat n = c # s" by (cases "dec_nat n") (auto simp: dec_nat_not_Nil)
  then have "IS_DIGIT c" using dec_nat_digits [of n] by simp
  then show ?thesis
    using digits_nul_free [OF dec_nat_digits [of n]] read_dec_nat [of n]
    by (simp add: strtol10_def cs digit_not_special)
qed

lemma strtol10_minus_dec_nat: "strtol10 (CHR ''-'' # dec_nat n) = saturate64 (- int n)"
proof -
  have "nul_free (CHR ''-'' # dec_nat n)" and "\<not> IsSpace (CHR ''-'')"
    using digits_nul_free [OF dec_nat_digits [of n]]
    by (auto simp: nul_free_def IsSpace_def in_range_def byte_def)
  then show ?thesis by (simp add: strtol10_def read_dec_nat)
qed

lemma strtol10_ToString: "strtol10 (ToString n) = saturate64 n"
  by (simp add: ToString_def strtol10_dec_nat strtol10_minus_dec_nat)

lemma ToString_not_Nil: "ToString n \<noteq> []"
  by (simp add: ToString_def dec_nat_not_Nil)

lemma saturate64_fits: "fits64 n \<Longrightarrow> saturate64 n = n"
  by (simp add: fits64_def saturate64_def)

lemma fits64_saturate64 [simp]: "fits64 (saturate64 n)"
  by (simp add: fits64_def saturate64_def)

lemma fits32_fits64: "fits32 n \<Longrightarrow> fits64 n"
  by (simp add: fits32_def fits64_def)

lemma Stol_ToString: "fits64 n \<Longrightarrow> Stol (ToString n) = n"
  by (simp add: Stol_def ToString_not_Nil strtol10_ToString saturate64_fits)

lemma Stoi_ToString: "fits32 n \<Longrightarrow> Stoi (ToString n) = n"
  by (simp add: Stoi_def ToString_not_Nil strtol10_ToString saturate64_fits fits32_fits64)

lemma fits64_Stol: "fits64 (Stol s)"
proof -
  have "fits64 0" by (simp add: fits64_def)
  then show ?thesis by (auto simp: Stol_def strtol10_def Let_def split: list.splits)
qed

lemma fits32_Stoi: "fits32 (Stoi s)"
proof -
  have "fits32 0" by (simp add: fits32_def)
  then show ?thesis by (simp add: Stoi_def)
qed

lemma dec_nat_length: "n < 10 ^ k \<Longrightarrow> 0 < k \<Longrightarrow> length (dec_nat n) \<le> k"
proof (induction k arbitrary: n)
  case (Suc k)
  show ?case
  proof (cases "n < 10")
    case True
    then show ?thesis by (subst dec_nat.simps) simp
  next
    case False
    with Suc.prems have "0 < k" by (cases k) auto
    moreover from Suc.prems have "n div 10 < 10 ^ k"
      by (metis less_mult_imp_div_less mult.commute power_Suc)
    ultimately have "length (dec_nat (n div 10)) \<le> k" by (rule Suc.IH [rotated])
    with False show ?thesis by (subst dec_nat.simps) simp
  qed
qed simp

lemma ToString_length64: "fits64 n \<Longrightarrow> length (ToString n) \<le> 20"
  using dec_nat_length [of "nat n" 20] dec_nat_length [of "nat (- n)" 19]
  by (cases "n < 0") (simp_all add: ToString_def fits64_def nat_less_iff)

lemma ToString_length32: "fits32 n \<Longrightarrow> length (ToString n) \<le> 11"
  using dec_nat_length [of "nat n" 11] dec_nat_length [of "nat (- n)" 10]
  by (cases "n < 0") (simp_all add: ToString_def fits32_def nat_less_iff)

lemma fits64_Stoi64: "fits64 (Stoi64 s)"
  using fits64_Stol [of s] by (simp add: Stol_def Stoi64_def)

text \<open>The safe conversions accept exactly the canonical decimal text of a number of their
  width: no leading zero, no plus sign, no blank, nothing after the digits.\<close>

lemma SafeStoi64_iff_aux: "SafeStoi64 s = Some n \<longleftrightarrow> fits64 n \<and> s = ToString n"
proof
  assume "SafeStoi64 s = Some n"
  then show "fits64 n \<and> s = ToString n"
    using fits64_Stoi64 [of s] by (auto simp: SafeStoi64_def Let_def split: if_splits)
next
  assume "fits64 n \<and> s = ToString n"
  then show "SafeStoi64 s = Some n"
    using ToString_length64 [of n]
    by (simp add: SafeStoi64_def Stoi64_def ToString_not_Nil strtol10_ToString saturate64_fits)
qed

lemma SafeStoi_iff_aux: "SafeStoi s = Some n \<longleftrightarrow> fits32 n \<and> s = ToString n"
proof
  assume "SafeStoi s = Some n"
  then show "fits32 n \<and> s = ToString n"
    using fits32_Stoi [of s] by (auto simp: SafeStoi_def Let_def split: if_splits)
next
  assume "fits32 n \<and> s = ToString n"
  then show "SafeStoi s = Some n"
    using ToString_length32 [of n] by (simp add: SafeStoi_def Stoi_ToString)
qed

section \<open>Trimming\<close>

function left_pos :: "string \<Rightarrow> nat \<Rightarrow> nat" where
  "left_pos s i = (if i < length s \<and> IsSpace (s ! i) then left_pos s (Suc i) else i)"
  by pat_completeness auto
termination by (relation "measure (\<lambda>(s, i). length s - i)") auto

declare left_pos.simps [simp del]

primrec right_pos :: "string \<Rightarrow> nat \<Rightarrow> nat \<Rightarrow> nat" where
  "right_pos s l 0 = 0"
| "right_pos s l (Suc r) = (if l \<le> Suc r \<and> IsSpace (s ! Suc r) then right_pos s l r else Suc r)"

definition TrimLeft :: "string \<Rightarrow> string" where
  "TrimLeft s =
     (if length s = 0 then s
      else let nLeftPos = left_pos s 0; nRightPos = length s - 1 in
        if nLeftPos > nRightPos then [] else substr s nLeftPos (nRightPos - nLeftPos + 1))"

definition TrimRight :: "string \<Rightarrow> string" where
  "TrimRight s =
     (if length s = 0 then s
      else let nLeftPos = 0; nRightPos = right_pos s 0 (length s - 1) in
        if nLeftPos > nRightPos then [] else substr s nLeftPos (nRightPos - nLeftPos + 1))"

definition Trim :: "string \<Rightarrow> string" where
  "Trim s =
     (if length s = 0 then s
      else let nLeftPos = left_pos s 0; nRightPos = right_pos s nLeftPos (length s - 1) in
        if nLeftPos > nRightPos then [] else substr s nLeftPos (nRightPos - nLeftPos + 1))"

lemma left_pos_dropWhile:
  "i \<le> length s \<Longrightarrow> left_pos s i = i + length (takeWhile IsSpace (drop i s))"
proof (induction s i rule: left_pos.induct)
  case (1 s i)
  show ?case
  proof (cases "i < length s \<and> IsSpace (s ! i)")
    case True
    then have "drop i s = s ! i # drop (Suc i) s" by (simp add: Cons_nth_drop_Suc)
    with 1 True show ?thesis by (subst left_pos.simps) simp
  next
    case False
    with 1(2) have "takeWhile IsSpace (drop i s) = []"
      by (cases "i < length s") (auto simp: Cons_nth_drop_Suc [symmetric])
    with False show ?thesis by (subst left_pos.simps) auto
  qed
qed

lemma substr_rest: "substr s l (length s - 1 - l + 1) = (if l > length s - 1 then take 1 (drop l s) else drop l s)"
  by (auto simp: substr_def intro!: take_all)

lemma TrimLeft_dropWhile: "TrimLeft s = dropWhile IsSpace s"
proof (cases "s = []")
  case False
  have "left_pos s 0 \<le> length s"
    using left_pos_dropWhile [of 0 s] length_takeWhile_le [of IsSpace s] by simp
  moreover have "drop (left_pos s 0) s = dropWhile IsSpace s"
    using left_pos_dropWhile [of 0 s] by (simp add: dropWhile_eq_drop)
  moreover have "left_pos s 0 > length s - 1 \<Longrightarrow> drop (left_pos s 0) s = []"
    using False by (intro drop_all) linarith
  ultimately show ?thesis using False
    unfolding TrimLeft_def Let_def substr_rest by (simp del: dropWhile_eq_Nil_conv)
qed (simp add: TrimLeft_def)

text \<open>\<open>right_pos\<close> stops at the last character of \<open>s\<close> that is not a space, at 0 when there is
  none, or just below the left position.\<close>

lemma right_pos_props:
  "r < length s \<Longrightarrow>
   right_pos s l r \<le> r \<and> (\<forall>k. right_pos s l r < k \<and> k \<le> r \<longrightarrow> IsSpace (s ! k)) \<and>
   (right_pos s l r = 0 \<or> right_pos s l r < l \<or> \<not> IsSpace (s ! right_pos s l r))"
proof (induction r)
  case (Suc r)
  then show ?case by (auto simp: le_Suc_eq)
qed simp

lemma dropWhile_rev_take:
  assumes "r < length s" and "\<not> P (s ! r)" and "\<forall>k. r < k \<and> k < length s \<longrightarrow> P (s ! k)"
  shows "rev (dropWhile P (rev s)) = take (Suc r) s"
proof -
  have "s = take (Suc r) s @ drop (Suc r) s" by simp
  moreover have "\<forall>x \<in> set (rev (drop (Suc r) s)). P x"
    using assms by (auto simp: in_set_conv_nth)
  moreover have "rev (take (Suc r) s) = s ! r # rev (take r s)"
    using assms(1) by (simp add: take_Suc_conv_app_nth)
  ultimately have "dropWhile P (rev s) = rev (take (Suc r) s)"
    using assms(2) by (metis dropWhile.simps(2) dropWhile_append2 rev_append)
  then show ?thesis by simp
qed

lemma dropWhile_rev_drop:
  assumes "r < length s" "l \<le> r" "\<not> P (s ! r)" "\<forall>k. r < k \<and> k < length s \<longrightarrow> P (s ! k)"
  shows "rev (dropWhile P (rev (drop l s))) = take (Suc r - l) (drop l s)"
proof -
  have "\<forall>k. r - l < k \<and> k < length (drop l s) \<longrightarrow> P (drop l s ! k)"
    using assms(1,2,4) by (auto intro!: assms(4) [rule_format])
  then show ?thesis
    using dropWhile_rev_take [of "r - l" "drop l s" P] assms(1-3) by (simp add: Suc_diff_le)
qed

lemma all_space_iff: "dropWhile IsSpace s = [] \<longleftrightarrow> (\<forall>i < length s. IsSpace (s ! i))"
  by (metis all_nth_imp_all_set dropWhile_eq_Nil_conv nth_mem)

lemma Trim_spec: "Trim s = rev (dropWhile IsSpace (rev (dropWhile IsSpace s)))"
proof (cases "s = []")
  case False
  define l where "l = left_pos s 0"
  define r where "r = right_pos s l (length s - 1)"
  have l_take: "l = length (takeWhile IsSpace s)"
    by (simp add: l_def left_pos_dropWhile)
  then have l_drop: "drop l s = dropWhile IsSpace s" by (simp add: dropWhile_eq_drop)
  have r_props: "r \<le> length s - 1" "\<forall>k. r < k \<and> k \<le> length s - 1 \<longrightarrow> IsSpace (s ! k)"
    "r = 0 \<or> r < l \<or> \<not> IsSpace (s ! r)"
    using right_pos_props [of "length s - 1" s l] False by (simp_all add: r_def)
  show ?thesis
  proof (cases "dropWhile IsSpace s = []")
    case True
    then have "l = length s" using l_take by (metis length_append takeWhile_dropWhile_id append_Nil2)
    with False r_props(1) have "l > r" by (cases s) auto
    with True False show ?thesis
      unfolding Trim_def Let_def l_def [symmetric] r_def [symmetric] by (simp del: dropWhile_eq_Nil_conv)
  next
    case nonempty: False
    then have lt: "l < length s" unfolding l_drop [symmetric] by (metis drop_all not_less)
    then have "hd (drop l s) = s ! l" by (rule hd_drop_conv_nth)
    with hd_dropWhile [OF nonempty] have sl: "\<not> IsSpace (s ! l)" unfolding l_drop by metis
    have le: "l \<le> r"
    proof (rule ccontr)
      assume "\<not> l \<le> r"
      then have "IsSpace (s ! l)" using r_props(2) lt by auto
      with sl show False by simp
    qed
    have nsp: "\<not> IsSpace (s ! r)" using r_props(3) sl le by auto
    moreover have "\<forall>k. r < k \<and> k < length s \<longrightarrow> IsSpace (s ! k)" using r_props(2) by auto
    moreover have "r < length s" using r_props(1) lt by linarith
    ultimately have "rev (dropWhile IsSpace (rev (dropWhile IsSpace s))) = substr s l (r - l + 1)"
      using dropWhile_rev_drop [of r s l IsSpace] nsp l_drop le by (simp add: substr_def Suc_diff_le)
    with False le show ?thesis
      unfolding Trim_def Let_def l_def [symmetric] r_def [symmetric] by simp
  qed
qed (simp add: Trim_def)

lemma TrimRight_spec:
  "TrimRight s = (if s \<noteq> [] \<and> (\<forall>c \<in> set s. IsSpace c) then take 1 s else rev (dropWhile IsSpace (rev s)))"
proof (cases "s = []")
  case False
  define r where "r = right_pos s 0 (length s - 1)"
  have r_props: "r \<le> length s - 1" "\<forall>k. r < k \<and> k \<le> length s - 1 \<longrightarrow> IsSpace (s ! k)"
    "r = 0 \<or> \<not> IsSpace (s ! r)"
    using right_pos_props [of "length s - 1" s 0] False by (simp_all add: r_def)
  have result: "TrimRight s = take (Suc r) s"
    using False by (simp add: TrimRight_def substr_def Let_def r_def)
  have below: "r < length s" using r_props(1) False by (cases s) auto
  show ?thesis
  proof (cases "\<forall>c \<in> set s. IsSpace c")
    case True
    with below r_props(3) have "r = 0" by (auto dest: nth_mem)
    with True False result show ?thesis by simp
  next
    case some: False
    have "\<not> IsSpace (s ! r)"
    proof
      assume "IsSpace (s ! r)"
      with r_props have "\<forall>k < length s. IsSpace (s ! k)"
        by (metis Suc_pred' below le_simps(2) less_trans_Suc neq0_conv not_less_zero less_Suc_eq_le)
      with some show False by (auto simp: in_set_conv_nth)
    qed
    moreover have "\<forall>k. r < k \<and> k < length s \<longrightarrow> IsSpace (s ! k)" using r_props(2) by auto
    ultimately show ?thesis using result dropWhile_rev_take [OF below] some False by auto
  qed
qed (simp add: TrimRight_def)

section \<open>Formatting\<close>

text \<open>\<open>Format\<close> prints into a buffer that doubles from 1 MB up to 128 MB: a longer text gives the
  empty string. A \<open>%s\<close> argument is a C string.\<close>

definition kMaxStringLen :: int where
  "kMaxStringLen = 1024 * 1024"

definition Format :: "string \<Rightarrow> string" where
  "Format printed = (if int (length printed) < kMaxStringLen * 128 then printed else [])"

definition AppendFormat :: "string \<Rightarrow> string \<Rightarrow> string" where
  "AppendFormat org printed = org @ Format printed"

lemma Format_short [simp]: "length s < 134217728 \<Longrightarrow> Format s = s"
  by (simp add: Format_def kMaxStringLen_def)

end
