(* ===== verification/Programs.thy ===== *)
theory Programs
  imports Prelude
begin

text \<open>
  The effect type of the handlers. \<open>Done a s\<close>: the code returned \<open>a\<close> in state \<open>s\<close>.
  \<open>Fault f s\<close>: it ran into undefined behaviour or an exception nobody catches, in state
  \<open>s\<close>; nothing is claimed of what follows.
\<close>

datatype fault =
    IteratorInvalid   \<comment> \<open>an iterator of a \<open>std::map\<close> used after its element was erased\<close>
  | OutOfRange        \<comment> \<open>an index past the end of a vector or of a repeated field\<close>
  | Thrown            \<comment> \<open>a C++ exception that leaves the function\<close>
  | SignedOverflow    \<comment> \<open>a 64-bit signed result out of range\<close>
  | NullPointer      \<comment> \<open>a call through a pointer that is \<open>NULL\<close>\<close>
  | UseAfterFree     \<comment> \<open>an object read or deleted after it was deleted\<close>
  | Uninitialised    \<comment> \<open>a member read before anything set it\<close>
  | OutOfFuel         \<comment> \<open>the step bound of the model is used up (shown unreachable)\<close>

datatype ('a, 's) outcome = Done 'a 's | Fault fault 's

type_synonym ('a, 's) prog = "'s \<Rightarrow> ('a, 's) outcome"

definition ret :: "'a \<Rightarrow> ('a, 's) prog" where
  "ret a = (\<lambda>s. Done a s)"

definition fault :: "fault \<Rightarrow> ('a, 's) prog" where
  "fault f = (\<lambda>s. Fault f s)"

definition andThen :: "('a, 's) prog \<Rightarrow> ('a \<Rightarrow> ('b, 's) prog) \<Rightarrow> ('b, 's) prog" where
  "andThen m k = (\<lambda>s. case m s of Done a s' \<Rightarrow> k a s' | Fault f s' \<Rightarrow> Fault f s')"

definition read_state :: "('s \<Rightarrow> 'a) \<Rightarrow> ('a, 's) prog" where
  "read_state f = (\<lambda>s. Done (f s) s)"

definition change :: "('s \<Rightarrow> 's) \<Rightarrow> (unit, 's) prog" where
  "change f = (\<lambda>s. Done () (f s))"

definition orFault :: "fault \<Rightarrow> 'a option \<Rightarrow> ('a, 's) prog" where
  "orFault f x = (case x of Some a \<Rightarrow> ret a | None \<Rightarrow> fault f)"

text \<open>A signed 64-bit sum.\<close>

definition add64 :: "int \<Rightarrow> int \<Rightarrow> (int, 's) prog" where
  "add64 a b = (if fits64 (a + b) then ret (a + b) else fault SignedOverflow)"

fun state_of :: "('a, 's) outcome \<Rightarrow> 's" where
  "state_of (Done a s) = s"
| "state_of (Fault f s) = s"

fun faulted :: "('a, 's) outcome \<Rightarrow> bool" where
  "faulted (Done a s) \<longleftrightarrow> False"
| "faulted (Fault f s) \<longleftrightarrow> True"

fun value_of :: "('a, 's) outcome \<Rightarrow> 'a option" where
  "value_of (Done a s) = Some a"
| "value_of (Fault f s) = None"

lemma ret_app [prog_simps]: "ret a s = Done a s"
  by (simp add: ret_def)

lemma fault_app [prog_simps]: "fault f s = Fault f s"
  by (simp add: fault_def)

lemma andThen_app [prog_simps]:
  "andThen m k s = (case m s of Done a s' \<Rightarrow> k a s' | Fault f s' \<Rightarrow> Fault f s')"
  by (simp add: andThen_def)

lemma read_state_app [prog_simps]: "read_state f s = Done (f s) s"
  by (simp add: read_state_def)

lemma change_app [prog_simps]: "change f s = Done () (f s)"
  by (simp add: change_def)

lemma orFault_Some [prog_simps]: "orFault f (Some a) s = Done a s"
  by (simp add: orFault_def ret_def)

lemma orFault_None [prog_simps]: "orFault f None s = Fault f s"
  by (simp add: orFault_def fault_def)

lemma ret_andThen [simp]: "andThen (ret a) k = k a"
  by (simp add: andThen_def ret_def)

lemma andThen_assoc: "andThen (andThen m k) h = andThen m (\<lambda>a. andThen (k a) h)"
  by (rule ext) (simp add: andThen_def split: outcome.splits)

section \<open>Invariants along a program\<close>

definition keeps :: "('s \<Rightarrow> bool) \<Rightarrow> ('a, 's) prog \<Rightarrow> bool" where
  "keeps I m \<longleftrightarrow> (\<forall>s. I s \<longrightarrow> I (state_of (m s)))"

text \<open>\<open>yields I m Q\<close>: \<open>m\<close> keeps \<open>I\<close> and what it returns satisfies \<open>Q\<close>.\<close>

definition yields :: "('s \<Rightarrow> bool) \<Rightarrow> ('a, 's) prog \<Rightarrow> ('a \<Rightarrow> bool) \<Rightarrow> bool" where
  "yields I m Q \<longleftrightarrow> (\<forall>s. I s \<longrightarrow> I (state_of (m s)) \<and> (\<forall>a. value_of (m s) = Some a \<longrightarrow> Q a))"

lemma keepsD: "keeps I m \<Longrightarrow> I s \<Longrightarrow> I (state_of (m s))"
  by (simp add: keeps_def)

lemma keeps_Done: "keeps I m \<Longrightarrow> I s \<Longrightarrow> m s = Done a s' \<Longrightarrow> I s'"
  by (metis keepsD state_of.simps(1))

lemma keeps_Fault: "keeps I m \<Longrightarrow> I s \<Longrightarrow> m s = Fault f s' \<Longrightarrow> I s'"
  by (metis keepsD state_of.simps(2))

lemma keeps_ret [keeps_intros]: "keeps I (ret a)"
  by (simp add: keeps_def ret_def)

lemma keeps_fault [keeps_intros]: "keeps I (fault f)"
  by (simp add: keeps_def fault_def)

lemma keeps_read [keeps_intros]: "keeps I (read_state f)"
  by (simp add: keeps_def read_state_def)

lemma keeps_read_andThen: "(\<And>s. I s \<Longrightarrow> keeps I (k (f s))) \<Longrightarrow> keeps I (andThen (read_state f) k)"
  by (simp add: keeps_def andThen_def read_state_def)

lemma keeps_change: "(\<And>s. I s \<Longrightarrow> I (f s)) \<Longrightarrow> keeps I (change f)"
  by (simp add: keeps_def change_def)

lemma keeps_orFault [keeps_intros]: "keeps I (orFault f x)"
  by (cases x) (simp_all add: orFault_def keeps_ret keeps_fault)

lemma keeps_add64 [keeps_intros]: "keeps I (add64 a b)"
  by (simp add: add64_def keeps_ret keeps_fault)

lemma keeps_andThen [keeps_intros]:
  assumes "keeps I m" and "\<And>a. keeps I (k a)"
  shows "keeps I (andThen m k)"
  using assms by (fastforce simp: keeps_def andThen_def split: outcome.splits)

lemma keeps_if [keeps_intros]: "keeps I m \<Longrightarrow> keeps I n \<Longrightarrow> keeps I (if b then m else n)"
  by simp

lemma keeps_option [keeps_intros]:
  "keeps I m \<Longrightarrow> (\<And>a. keeps I (k a)) \<Longrightarrow> keeps I (case x of None \<Rightarrow> m | Some a \<Rightarrow> k a)"
  by (cases x) simp_all

lemma keeps_prod [keeps_intros]:
  "(\<And>a b. keeps I (k a b)) \<Longrightarrow> keeps I (case p of (a, b) \<Rightarrow> k a b)"
  by (cases p) simp

lemma keeps_let [keeps_intros]: "(\<And>a. keeps I (k a)) \<Longrightarrow> keeps I (let a = x in k a)"
  by (simp add: Let_def)

lemma yields_keeps: "yields I m Q \<Longrightarrow> keeps I m"
  by (simp add: yields_def keeps_def)

lemma keeps_andThen_yields:
  assumes "yields I m Q" and "\<And>a. Q a \<Longrightarrow> keeps I (k a)"
  shows "keeps I (andThen m k)"
  using assms
  by (fastforce simp: yields_def keeps_def andThen_def split: outcome.splits)

lemma yields_andThen:
  assumes "yields I m R" and "\<And>a. R a \<Longrightarrow> yields I (k a) Q"
  shows "yields I (andThen m k) Q"
  using assms
  by (fastforce simp: yields_def andThen_def split: outcome.splits)

lemma yields_ret: "Q a \<Longrightarrow> yields I (ret a) Q"
  by (simp add: yields_def ret_def)

lemma yields_fault: "yields I (fault f) Q"
  by (simp add: yields_def fault_def)

lemma yields_top: "keeps I m \<Longrightarrow> yields I m (\<lambda>_. True)"
  by (simp add: yields_def keeps_def)

lemma yields_if: "(b \<Longrightarrow> yields I m Q) \<Longrightarrow> (\<not> b \<Longrightarrow> yields I n Q) \<Longrightarrow> yields I (if b then m else n) Q"
  by simp

lemma yields_orFault: "(\<And>a. x = Some a \<Longrightarrow> Q a) \<Longrightarrow> yields I (orFault f x) Q"
  by (cases x) (simp_all add: orFault_def yields_ret yields_fault)

section \<open>Taking a run apart\<close>

lemma andThen_Done:
  "andThen m k w = Done b w'' \<longleftrightarrow> (\<exists>a w'. m w = Done a w' \<and> k a w' = Done b w'')"
  by (auto simp: andThen_def split: outcome.splits)

lemma andThen_Fault:
  "andThen m k w = Fault f w'' \<longleftrightarrow>
   m w = Fault f w'' \<or> (\<exists>a w'. m w = Done a w' \<and> k a w' = Fault f w'')"
  by (auto simp: andThen_def split: outcome.splits)

lemma ret_Done: "ret a w = Done b w' \<longleftrightarrow> b = a \<and> w' = w"
  by (auto simp: ret_def)

lemma ret_Fault: "ret a w \<noteq> Fault f w'"
  by (simp add: ret_def)

lemmas run_simps = andThen_Done andThen_Fault ret_Done ret_Fault

section \<open>Parts of a state\<close>

text \<open>A program runs on a part of the state: \<open>get\<close> reads the part, \<open>put\<close> writes it back, also when a fault ends it.\<close>

definition in_part :: "('s \<Rightarrow> 't) \<Rightarrow> ('t \<Rightarrow> 's \<Rightarrow> 's) \<Rightarrow> ('a, 't) prog \<Rightarrow> ('a, 's) prog" where
  "in_part get put m = (\<lambda>s. case m (get s) of Done a t \<Rightarrow> Done a (put t s) | Fault f t \<Rightarrow> Fault f (put t s))"

lemma in_part_Done:
  "in_part get put m s = Done a s' \<longleftrightarrow> (\<exists>t. m (get s) = Done a t \<and> s' = put t s)"
  by (auto simp: in_part_def split: outcome.splits)

lemma keeps_in_part:
  "keeps I m \<Longrightarrow> (\<And>s t. J s \<Longrightarrow> I (get s)) \<Longrightarrow> (\<And>s t. J s \<Longrightarrow> I t \<Longrightarrow> J (put t s)) \<Longrightarrow> keeps J (in_part get put m)"
  by (fastforce simp: keeps_def in_part_def split: outcome.splits)

section \<open>Hoare triples\<close>

text \<open>\<open>hoare F P m Q\<close>: from a state with \<open>P\<close>, \<open>m\<close> returns with \<open>Q\<close> or ends in one of the faults \<open>F\<close>.\<close>

definition hoare :: "fault set \<Rightarrow> ('s \<Rightarrow> bool) \<Rightarrow> ('a, 's) prog \<Rightarrow> ('a \<Rightarrow> 's \<Rightarrow> bool) \<Rightarrow> bool" where
  "hoare F P m Q \<longleftrightarrow> (\<forall>s. P s \<longrightarrow> (case m s of Done a s' \<Rightarrow> Q a s' | Fault f s' \<Rightarrow> f \<in> F))"

lemma hoare_ret: "(\<And>s. P s \<Longrightarrow> Q a s) \<Longrightarrow> hoare F P (ret a) Q"
  by (simp add: hoare_def ret_def)

lemma hoare_read: "(\<And>s. P s \<Longrightarrow> Q (f s) s) \<Longrightarrow> hoare F P (read_state f) Q"
  by (simp add: hoare_def read_state_def)

lemma hoare_change: "(\<And>s. P s \<Longrightarrow> Q () (f s)) \<Longrightarrow> hoare F P (change f) Q"
  by (simp add: hoare_def change_def)

lemma hoare_andThen: "hoare F P m R \<Longrightarrow> (\<And>a. hoare F (R a) (k a) Q) \<Longrightarrow> hoare F P (andThen m k) Q"
  by (fastforce simp: hoare_def andThen_def split: outcome.splits)

lemma hoare_read_andThen: "(\<And>x. hoare F (\<lambda>s. P s \<and> x = f s) (k x) Q) \<Longrightarrow> hoare F P (andThen (read_state f) k) Q"
  by (fastforce simp: hoare_def andThen_def read_state_def)

lemma hoare_pre: "hoare F P m Q \<Longrightarrow> (\<And>s. P' s \<Longrightarrow> P s) \<Longrightarrow> hoare F P' m Q"
  by (simp add: hoare_def)

lemma hoare_post: "hoare F P m Q \<Longrightarrow> (\<And>a s. Q a s \<Longrightarrow> Q' a s) \<Longrightarrow> hoare F P m Q'"
  by (fastforce simp: hoare_def split: outcome.splits)

lemma hoare_add64: "SignedOverflow \<in> F \<Longrightarrow> (\<And>s. P s \<Longrightarrow> Q (x + y) s) \<Longrightarrow> hoare F P (add64 x y) Q"
  by (auto simp: hoare_def add64_def ret_def fault_def)

lemma hoare_option:
  "(x = None \<Longrightarrow> hoare F P m Q) \<Longrightarrow> (\<And>a. x = Some a \<Longrightarrow> hoare F P (k a) Q) \<Longrightarrow>
   hoare F P (case x of None \<Rightarrow> m | Some a \<Rightarrow> k a) Q"
  by (cases x) simp_all

lemma hoare_if: "(b \<Longrightarrow> hoare F P m Q) \<Longrightarrow> (\<not> b \<Longrightarrow> hoare F P n Q) \<Longrightarrow> hoare F P (if b then m else n) Q"
  by simp

lemma hoare_Done: "hoare F P m Q \<Longrightarrow> P s \<Longrightarrow> m s = Done a s' \<Longrightarrow> Q a s'"
  by (force simp: hoare_def)

lemma hoare_Fault: "hoare F P m Q \<Longrightarrow> P s \<Longrightarrow> m s = Fault f s' \<Longrightarrow> f \<in> F"
  by (force simp: hoare_def)

lemma yields_hoare: "yields I m Q \<Longrightarrow> hoare UNIV I m (\<lambda>a w. I w \<and> Q a)"
  by (fastforce simp: yields_def hoare_def split: outcome.splits)

lemma keeps_hoare: "keeps I m \<Longrightarrow> hoare UNIV I m (\<lambda>_. I)"
  by (fastforce simp: keeps_def hoare_def split: outcome.splits)

lemma yields_add64: "yields I (add64 a b) (\<lambda>r. r = a + b)"
  by (simp add: yields_def add64_def ret_def fault_def)

lemma hoare_False: "(\<And>w. \<not> P w) \<Longrightarrow> hoare F P m Q"
  by (simp add: hoare_def)

lemma hoare_assume: "(b \<Longrightarrow> hoare F P m Q) \<Longrightarrow> hoare F (\<lambda>w. P w \<and> b) m Q"
  by (auto simp: hoare_def)

end
