(* ===== verification/Std_Map.thy ===== *)
theory Std_Map
  imports Programs
begin

text \<open>
  \<open>std::map\<close> and \<open>std::set\<close> as the code uses them: an association list sorted by key.
  \<open>m_emplace\<close> keeps an entry that is already there (\<open>std::map::emplace\<close> and \<open>insert\<close>),
  \<open>m_put\<close> replaces it (\<open>operator[]\<close> assignment), \<open>m_erase\<close> removes it, \<open>m_next\<close> is the
  element a valid iterator moves to. The locale \<open>finite_map\<close> states what a client of such a
  table relies on.
\<close>

type_synonym ('k, 'v) smap = "('k \<times> 'v) list"

fun m_emplace :: "('k::linorder) \<Rightarrow> 'v \<Rightarrow> ('k, 'v) smap \<Rightarrow> ('k, 'v) smap" where
  "m_emplace k v [] = [(k, v)]"
| "m_emplace k v ((k', v') # m) =
     (if k < k' then (k, v) # (k', v') # m
      else if k = k' then (k', v') # m
      else (k', v') # m_emplace k v m)"

fun m_put :: "('k::linorder) \<Rightarrow> 'v \<Rightarrow> ('k, 'v) smap \<Rightarrow> ('k, 'v) smap" where
  "m_put k v [] = [(k, v)]"
| "m_put k v ((k', v') # m) =
     (if k < k' then (k, v) # (k', v') # m
      else if k = k' then (k, v) # m
      else (k', v') # m_put k v m)"

fun m_erase :: "'k \<Rightarrow> ('k, 'v) smap \<Rightarrow> ('k, 'v) smap" where
  "m_erase k [] = []"
| "m_erase k ((k', v') # m) = (if k = k' then m else (k', v') # m_erase k m)"

fun m_next :: "('k::linorder) \<Rightarrow> ('k, 'v) smap \<Rightarrow> 'k option" where
  "m_next k [] = None"
| "m_next k ((k', v') # m) = (if k < k' then Some k' else m_next k m)"

fun m_first :: "('k, 'v) smap \<Rightarrow> 'k option" where
  "m_first [] = None"
| "m_first ((k, v) # m) = Some k"

definition keys :: "('k, 'v) smap \<Rightarrow> 'k list" where
  "keys m = map fst m"

definition sorted_map :: "(('k::linorder), 'v) smap \<Rightarrow> bool" where
  "sorted_map m \<longleftrightarrow> sorted_wrt (<) (keys m)"

lemma keys_simps [simp]: "keys [] = []" "keys ((k, v) # m) = k # keys m"
  by (simp_all add: keys_def)

lemma sorted_map_simps [simp]:
  "sorted_map []"
  "sorted_map ((k, v) # m) \<longleftrightarrow> (\<forall>k' \<in> set (keys m). k < k') \<and> sorted_map m"
  by (simp_all add: sorted_map_def)

lemma map_of_None_keys: "map_of m k = None \<longleftrightarrow> k \<notin> set (keys m)"
  by (simp add: keys_def map_of_eq_None_iff)

lemma map_of_Some_keys: "map_of m k = Some v \<Longrightarrow> k \<in> set (keys m)"
  by (metis map_of_None_keys option.distinct(1))

lemma keys_map_of: "k \<in> set (keys m) \<longleftrightarrow> (\<exists>v. map_of m k = Some v)"
  by (metis map_of_None_keys not_None_eq)

lemma set_keys_dom: "set (keys m) = dom (map_of m)"
  by (auto simp: keys_map_of dom_def)

lemma set_keys_emplace [simp]: "set (keys (m_emplace k v m)) = insert k (set (keys m))"
  by (induction k v m rule: m_emplace.induct) auto

lemma set_keys_put [simp]: "set (keys (m_put k v m)) = insert k (set (keys m))"
  by (induction k v m rule: m_put.induct) auto

lemma sorted_emplace [simp]: "sorted_map m \<Longrightarrow> sorted_map (m_emplace k v m)"
  by (induction k v m rule: m_emplace.induct) auto

lemma sorted_put [simp]: "sorted_map m \<Longrightarrow> sorted_map (m_put k v m)"
  by (induction k v m rule: m_put.induct) auto

lemma set_keys_erase [simp]:
  "sorted_map m \<Longrightarrow> set (keys (m_erase k m)) = set (keys m) - {k}"
  by (induction k m rule: m_erase.induct) auto

lemma sorted_erase [simp]: "sorted_map m \<Longrightarrow> sorted_map (m_erase k m)"
  by (induction k m rule: m_erase.induct) auto

lemma map_of_emplace:
  "sorted_map m \<Longrightarrow>
   map_of (m_emplace k v m) = (if k \<in> set (keys m) then map_of m else (map_of m)(k \<mapsto> v))"
proof (induction k v m rule: m_emplace.induct)
  case (2 k v k' v' m)
  then show ?case
    by (cases k k' rule: linorder_cases) (auto simp: fun_eq_iff)
qed simp

lemma map_of_put: "sorted_map m \<Longrightarrow> map_of (m_put k v m) = (map_of m)(k \<mapsto> v)"
proof (induction k v m rule: m_put.induct)
  case (2 k v k' v' m)
  then show ?case
    by (cases k k' rule: linorder_cases) (auto simp: fun_eq_iff)
qed simp

lemma map_of_erase: "sorted_map m \<Longrightarrow> map_of (m_erase k m) = (map_of m)(k := None)"
proof (induction k m rule: m_erase.induct)
  case (2 k k' v' m)
  then have "k = k' \<Longrightarrow> map_of m k = None" by (auto simp: map_of_None_keys)
  with 2 show ?case by (auto simp: fun_eq_iff)
qed simp

lemma emplace_present: "sorted_map m \<Longrightarrow> k \<in> set (keys m) \<Longrightarrow> m_emplace k v m = m"
  by (induction k v m rule: m_emplace.induct) auto

lemma put_keys_present: "sorted_map m \<Longrightarrow> k \<in> set (keys m) \<Longrightarrow> keys (m_put k v m) = keys m"
  by (induction k v m rule: m_put.induct) auto

lemma erase_absent: "k \<notin> set (keys m) \<Longrightarrow> m_erase k m = m"
  by (induction k m rule: m_erase.induct) auto

lemma m_next_Some:
  "sorted_map m \<Longrightarrow> m_next k m = Some k' \<Longrightarrow>
   k' \<in> set (keys m) \<and> k < k' \<and> (\<forall>q \<in> set (keys m). k < q \<longrightarrow> k' \<le> q)"
  by (induction k m rule: m_next.induct) (auto split: if_splits)

lemma m_next_None: "m_next k m = None \<longleftrightarrow> (\<forall>q \<in> set (keys m). \<not> k < q)"
  by (induction k m rule: m_next.induct) auto

lemma m_next_keys: "keys m = keys m' \<Longrightarrow> m_next k m = m_next k m'"
proof (induction k m arbitrary: m' rule: m_next.induct)
  case (1 k)
  then show ?case by (cases m') auto
next
  case (2 k k' v' m)
  then show ?case by (cases m') auto
qed

lemma m_next_append:
  assumes "sorted_map (m1 @ (k, v) # m2)"
  shows "m_next k (m1 @ (k, v) # m2) = m_first m2"
proof -
  from assms have "sorted_wrt (<) (keys m1 @ k # keys m2)"
    by (simp add: sorted_map_def keys_def)
  then have "\<forall>q \<in> set (keys m1). q < k" and "\<forall>q \<in> set (keys m2). k < q"
    by (auto simp: sorted_wrt_append)
  moreover have "m_next k (m1 @ m) = m_next k m" if "\<forall>q \<in> set (keys m1). q < k" for m :: "('a, 'b) smap"
    using that by (induction m1) (auto simp: keys_def)
  ultimately show ?thesis by (cases m2 rule: m_first.cases) auto
qed

lemma sorted_map_distinct: "sorted_map m \<Longrightarrow> distinct (keys m)"
  by (simp add: sorted_map_def strict_sorted_iff)

section \<open>The interface\<close>

text \<open>What a client of a table relies on. \<open>emplace\<close> does not replace: an entry that is there stays,
  and replacing it takes an \<open>erase\<close> first (or \<open>assign\<close>).\<close>

locale finite_map =
  fixes ok :: "'m \<Rightarrow> bool"
    and look :: "'m \<Rightarrow> 'k \<Rightarrow> 'v option"
    and emplace :: "'k \<Rightarrow> 'v \<Rightarrow> 'm \<Rightarrow> 'm"
    and assign :: "'k \<Rightarrow> 'v \<Rightarrow> 'm \<Rightarrow> 'm"
    and erase :: "'k \<Rightarrow> 'm \<Rightarrow> 'm"
  assumes ok_emplace: "ok m \<Longrightarrow> ok (emplace k v m)"
    and ok_assign: "ok m \<Longrightarrow> ok (assign k v m)"
    and ok_erase: "ok m \<Longrightarrow> ok (erase k m)"
    and look_emplace: "ok m \<Longrightarrow> look (emplace k v m) = (if look m k = None then (look m)(k \<mapsto> v) else look m)"
    and look_assign: "ok m \<Longrightarrow> look (assign k v m) = (look m)(k \<mapsto> v)"
    and look_erase: "ok m \<Longrightarrow> look (erase k m) = (look m)(k := None)"
begin

lemma emplace_keeps_entry: "ok m \<Longrightarrow> look m k = Some v \<Longrightarrow> look (emplace k u m) = look m"
  by (simp add: look_emplace)

lemma erase_then_emplace: "ok m \<Longrightarrow> look (emplace k v (erase k m)) = look (assign k v m)"
  by (simp add: look_emplace look_erase look_assign ok_erase)

lemma entries_emplace:
  assumes "ok m" and "\<And>i e. look m i = Some e \<Longrightarrow> Q i e" and "Q k v" and "look (emplace k v m) i = Some e"
  shows "Q i e"
  using assms by (auto simp: look_emplace split: if_splits)

lemma entries_assign:
  assumes "ok m" and "\<And>i e. look m i = Some e \<Longrightarrow> Q i e" and "Q k v" and "look (assign k v m) i = Some e"
  shows "Q i e"
  using assms by (auto simp: look_assign split: if_splits)

lemma entries_erase:
  assumes "ok m" and "\<And>i e. look m i = Some e \<Longrightarrow> Q i e" and "look (erase k m) i = Some e"
  shows "Q i e"
  using assms by (auto simp: look_erase split: if_splits)

end

interpretation smap: finite_map sorted_map map_of m_emplace m_put m_erase
  by unfold_locales (simp_all add: map_of_emplace map_of_put map_of_erase map_of_None_keys)

end
