(* ===== verification/General.thy ===== *)
theory General
  imports Strings Std_Map
begin

text \<open>
  \<open>common/general.h\<close> and \<open>common/general.cpp\<close>: the address prefix, results, the timer
  wrapper, and the two forms of a pending cross-chain transaction. \<open>CrossTxInfo\<close> is the
  message of \<open>proto/agent.proto\<close>, \<open>CrossTx\<close> the in-memory entry made from it.
\<close>

section \<open>Address prefix\<close>

record AddressPrefix =
  chain_code :: string
  address_prefix :: string

definition AddressPrefix_Initialize :: AddressPrefix where
  "AddressPrefix_Initialize = \<lparr>chain_code = [], address_prefix = ''did:bid:''\<rparr>"

definition UpdatePrefix :: "string \<Rightarrow> AddressPrefix \<Rightarrow> AddressPrefix" where
  "UpdatePrefix p a = a\<lparr>address_prefix := p\<rparr>"

definition UpdateChainCode :: "string \<Rightarrow> AddressPrefix \<Rightarrow> AddressPrefix" where
  "UpdateChainCode c a = a\<lparr>chain_code := c\<rparr>"

definition AddressPrefix_Encode :: "AddressPrefix \<Rightarrow> string \<Rightarrow> string" where
  "AddressPrefix_Encode a address =
     (let temp_addr = address_prefix a in
      if chain_code a = [] then temp_addr @ address
      else AppendFormat temp_addr (c_str (chain_code a) @ '':'' @ c_str address))"

definition AddressPrefix_Decode :: "string \<Rightarrow> string" where
  "AddressPrefix_Decode address =
     (case rfind_char (CHR '':'') address of
        Some pos \<Rightarrow> drop (pos + 1) address
      | None \<Rightarrow> address)"

definition CheckPrefix :: "AddressPrefix \<Rightarrow> string \<Rightarrow> bool" where
  "CheckPrefix a address =
     (case rfind_char (CHR '':'') address of
        None \<Rightarrow> False
      | Some pos \<Rightarrow>
          (let prefix = substr address 0 (pos + 1);
               local_prefix = address_prefix a;
               local_prefix = (if chain_code a \<noteq> [] then local_prefix @ chain_code a @ '':'' else local_prefix)
           in prefix = local_prefix))"

text \<open>What both halves rely on: the last colon of \<open>p @ a\<close> is the last character of \<open>p\<close>.\<close>

lemma rfind_char_append:
  "d \<notin> set a \<Longrightarrow> rfind_char d (p @ d # a) = Some (length p)"
  by (induction p) (auto simp: rfind_char_None split: option.splits)

lemma last_colon:
  assumes "CHR '':'' \<notin> set a" and "p \<noteq> []" and "last p = CHR '':''"
  shows "rfind_char (CHR '':'') (p @ a) = Some (length p - 1)"
proof -
  have "p @ a = butlast p @ CHR '':'' # a"
    using assms(2,3) by (metis append_Cons append_Nil append_assoc append_butlast_last_id)
  then show ?thesis using rfind_char_append [OF assms(1)] by (metis length_butlast)
qed

lemma Encode_shape:
  assumes "nul_free (chain_code a)" and "nul_free address"
    and "length (chain_code a) + length address < 1000000"
  shows "AddressPrefix_Encode a address =
    address_prefix a @ (if chain_code a = [] then [] else chain_code a @ '':'') @ address"
  using assms by (simp add: AddressPrefix_Encode_def AppendFormat_def)

section \<open>Results\<close>

record Result =
  result_code :: int
  result_desc :: string

definition ERRCODE_SUCCESS :: int where "ERRCODE_SUCCESS = 0"

definition new_Result :: Result where
  "new_Result = \<lparr>result_code = ERRCODE_SUCCESS, result_desc = []\<rparr>"

definition Result_Reset :: "Result \<Rightarrow> Result" where
  "Result_Reset r = r\<lparr>result_code := 0, result_desc := []\<rparr>"

definition set_code :: "int \<Rightarrow> Result \<Rightarrow> Result" where
  "set_code c r = r\<lparr>result_code := c\<rparr>"

definition set_desc :: "string \<Rightarrow> Result \<Rightarrow> Result" where
  "set_desc d r = r\<lparr>result_desc := d\<rparr>"

definition Result_assign :: "Result \<Rightarrow> Result \<Rightarrow> bool \<times> Result" where
  "Result_assign r self = (True, self\<lparr>result_code := result_code r, result_desc := result_desc r\<rparr>)"

section \<open>Cross-chain transactions\<close>

record CrossTxInfo =
  crosstxid :: string
  srcbid :: string
  destbid :: string
  amount :: int
  status :: int
  refunded :: int
  createtimestamp :: int
  executetimestamp :: int
  timeout :: int
  errordesc :: string
  confirmseq :: int
  sendtxhash :: string
  sendacktol1hash :: string
  sendacktol2hash :: string

definition new_CrossTxInfo :: CrossTxInfo where
  "new_CrossTxInfo = \<lparr>crosstxid = [], srcbid = [], destbid = [], amount = 0, status = 0,
     refunded = 0, createtimestamp = 0, executetimestamp = 0, timeout = 0, errordesc = [],
     confirmseq = 0, sendtxhash = [], sendacktol1hash = [], sendacktol2hash = []\<rparr>"

definition CROSS_RESULT_INIT :: int where "CROSS_RESULT_INIT = 0"
definition CROSS_RESULT_SUCCESS :: int where "CROSS_RESULT_SUCCESS = 1"
definition CROSS_RESULT_FAILED :: int where "CROSS_RESULT_FAILED = 2"
definition CROSS_RESULT_TIMEOUT :: int where "CROSS_RESULT_TIMEOUT = 3"

lemmas cross_results = CROSS_RESULT_INIT_def CROSS_RESULT_SUCCESS_def CROSS_RESULT_FAILED_def
  CROSS_RESULT_TIMEOUT_def

text \<open>\<open>send_ack_timeout_\<close> is not set by the constructor; an entry whose timeout was never set
  carries \<open>None\<close> there, and no code reads it in that state.\<close>

record CrossTx =
  cross_tx_id :: string
  tx_status :: int
  confirm_seq :: int
  send_tx_timeout :: int
  send_ack_timeout :: "int option"
  send_tx_hash :: string
  send_ack_to_l1_hash :: string
  send_ack_to_l2_hash :: string
  cross_tx_info :: string

definition make_CrossTx :: "(CrossTxInfo \<Rightarrow> string) \<Rightarrow> CrossTxInfo \<Rightarrow> CrossTx" where
  "make_CrossTx serialize m =
     \<lparr>cross_tx_id = crosstxid m, tx_status = status m, confirm_seq = confirmseq m,
      send_tx_timeout = timeout m, send_ack_timeout = None, send_tx_hash = sendtxhash m,
      send_ack_to_l1_hash = sendacktol1hash m, send_ack_to_l2_hash = sendacktol2hash m,
      cross_tx_info = serialize m\<rparr>"

section \<open>Timers\<close>

record TimerNotify =
  last_check_time :: int
  last_slow_check_time :: int
  check_interval :: int
  last_execute_complete_time :: int
  last_slow_execute_complete_time :: int
  timer_name :: string

definition new_TimerNotify :: "string \<Rightarrow> int \<Rightarrow> TimerNotify" where
  "new_TimerNotify name interval =
     \<lparr>last_check_time = 0, last_slow_check_time = 0, check_interval = interval,
      last_execute_complete_time = 0, last_slow_execute_complete_time = 0, timer_name = name\<rparr>"

text \<open>\<open>on_timer\<close> is the module's handler and \<open>now\<close> reads the clock when it has finished.\<close>

definition TimerWrapper ::
  "(int \<Rightarrow> (unit, 's) prog) \<Rightarrow> (int, 's) prog \<Rightarrow> int \<Rightarrow> TimerNotify \<Rightarrow> (TimerNotify, 's) prog" where
  "TimerWrapper on_timer now current_time t =
     (let t = t\<lparr>last_execute_complete_time := 0\<rparr> in
      if current_time > last_check_time t + check_interval t then
        (let t = t\<lparr>last_check_time := current_time\<rparr> in
         andThen (on_timer current_time) (\<lambda>_.
         andThen now (\<lambda>done_at. ret (t\<lparr>last_execute_complete_time := done_at\<rparr>))))
      else ret t)"

definition SlowTimerWrapper ::
  "(int \<Rightarrow> (unit, 's) prog) \<Rightarrow> (int, 's) prog \<Rightarrow> int \<Rightarrow> TimerNotify \<Rightarrow> (TimerNotify, 's) prog" where
  "SlowTimerWrapper on_slow_timer now current_time t =
     (let t = t\<lparr>last_slow_execute_complete_time := 0\<rparr> in
      if current_time > last_slow_check_time t + check_interval t then
        (let t = t\<lparr>last_slow_check_time := current_time\<rparr> in
         andThen (on_slow_timer current_time) (\<lambda>_.
         andThen now (\<lambda>done_at. ret (t\<lparr>last_slow_execute_complete_time := done_at\<rparr>))))
      else ret t)"

definition IsExpire :: "TimerNotify \<Rightarrow> int \<Rightarrow> bool" where
  "IsExpire t time_out \<longleftrightarrow> last_execute_complete_time t - last_check_time t > time_out"

definition IsSlowExpire :: "TimerNotify \<Rightarrow> int \<Rightarrow> bool" where
  "IsSlowExpire t time_out \<longleftrightarrow> last_slow_execute_complete_time t - last_slow_check_time t > time_out"

definition GetLastExecuteTime :: "TimerNotify \<Rightarrow> int" where
  "GetLastExecuteTime t = last_execute_complete_time t - last_check_time t"

definition GetSlowLastExecuteTime :: "TimerNotify \<Rightarrow> int" where
  "GetSlowLastExecuteTime t = last_slow_execute_complete_time t - last_slow_check_time t"

end
