(* ===== verification/Hex_Codec.thy ===== *)
theory Hex_Codec
  imports Strings
begin

unbundle bit_operations_syntax

text \<open>
  Binary-to-text coding: the hexadecimal functions of \<open>utils/strings.h\<close> and the base 16, 32
  and 64 coder of \<open>utils/basen.h\<close>. A byte is its unsigned value; where the code shifts a signed
  \<open>char\<close> to the right it masks the result, so the sign bits never show. The template
  parameter \<open>ConversionTraits\<close> is the type \<open>traits\<close>.
\<close>

section \<open>Hexadecimal text (\<open>strings.h\<close>)\<close>

definition hex_char :: "nat \<Rightarrow> char" where
  "hex_char d = (if d \<le> 9 then of_byte (d + 48) else of_byte (d - 10 + 97))"

fun BinToHexString :: "string \<Rightarrow> string" where
  "BinToHexString [] = []"
| "BinToHexString (c # s) =
     hex_char (byte c div 16) # hex_char (byte c mod 16) # BinToHexString s"

definition hex_val :: "bool \<Rightarrow> char \<Rightarrow> nat option" where
  "hex_val force_little c =
     (if in_range c 48 57 then Some (byte c - 48)
      else if in_range c 97 102 then Some (byte c - 97 + 10)
      else if in_range c 65 70 \<and> \<not> force_little then Some (byte c - 65 + 10)
      else None)"

fun hex_pairs :: "bool \<Rightarrow> string \<Rightarrow> string option" where
  "hex_pairs force_little (h # l # s) =
     (case hex_val force_little h of
        None \<Rightarrow> None
      | Some high \<Rightarrow>
          (case hex_val force_little l of
             None \<Rightarrow> None
           | Some low \<Rightarrow> map_option (\<lambda>t. of_byte (high * 16 + low) # t) (hex_pairs force_little s)))"
| "hex_pairs force_little s = Some []"

definition HexStringToBin :: "string \<Rightarrow> bool \<Rightarrow> string" where
  "HexStringToBin hex_string force_little =
     (if length hex_string mod 2 \<noteq> 0 \<or> hex_string = [] then []
      else case hex_pairs force_little hex_string of None \<Rightarrow> [] | Some result \<Rightarrow> result)"

definition IsHexString :: "string \<Rightarrow> bool" where
  "IsHexString hex_string =
     (if length hex_string mod 2 \<noteq> 0 then False
      else list_all (\<lambda>c. in_range c 48 57 \<or> in_range c 97 102 \<or> in_range c 65 70) hex_string)"

definition HexStringToBin_checked :: "string \<Rightarrow> string option" where
  "HexStringToBin_checked hex_string =
     (if \<not> IsHexString hex_string then None else Some (HexStringToBin hex_string False))"

lemma byte_hex_char: "d < 16 \<Longrightarrow> byte (hex_char d) = (if d \<le> 9 then d + 48 else d - 10 + 97)"
  by (simp add: hex_char_def)

lemma hex_val_hex_char [simp]: "d < 16 \<Longrightarrow> hex_val f (hex_char d) = Some d"
  by (simp add: hex_val_def in_range_def byte_hex_char)

lemma hex_val_less: "hex_val f c = Some d \<Longrightarrow> d < 16"
  by (auto simp: hex_val_def in_range_def split: if_splits)

lemma length_BinToHexString [simp]: "length (BinToHexString s) = 2 * length s"
  by (induction s) simp_all

lemma BinToHexString_append: "BinToHexString (s @ t) = BinToHexString s @ BinToHexString t"
  by (induction s) simp_all

lemma hex_pairs_BinToHexString: "hex_pairs f (BinToHexString s) = Some s"
proof (induction s)
  case (Cons c s)
  have "byte c div 16 < 16" using byte_less [of c] by (simp add: less_mult_imp_div_less)
  with Cons show ?case by simp
qed simp

lemma BinToHexString_Nil_iff: "BinToHexString s = [] \<longleftrightarrow> s = []"
  by (cases s) simp_all

lemma HexStringToBin_BinToHexString: "HexStringToBin (BinToHexString s) f = s"
  by (simp add: HexStringToBin_def hex_pairs_BinToHexString BinToHexString_Nil_iff)

lemma hex_val_defined:
  "in_range c 48 57 \<or> in_range c 97 102 \<or> in_range c 65 70 \<Longrightarrow> \<exists>d. hex_val False c = Some d"
  by (auto simp: hex_val_def)

lemma hex_pairs_total:
  "list_all (\<lambda>c. in_range c 48 57 \<or> in_range c 97 102 \<or> in_range c 65 70) s \<Longrightarrow>
   \<exists>t. hex_pairs False s = Some t \<and> length t = length s div 2"
proof (induction "False" s rule: hex_pairs.induct)
  case (1 h l s)
  then obtain hi lo where hl: "hex_val False h = Some hi" "hex_val False l = Some lo"
    using hex_val_defined [of h] hex_val_defined [of l] by fastforce
  from 1(2) have "list_all (\<lambda>c. in_range c 48 57 \<or> in_range c 97 102 \<or> in_range c 65 70) s"
    by simp
  from 1(1) [OF hl this] hl show ?case by auto
qed simp_all

lemma BinToHexString_hex_pairs:
  "even (length s) \<Longrightarrow> hex_pairs False s = Some t \<Longrightarrow> BinToHexString t = ToLower s"
proof (induction "False" s arbitrary: t rule: hex_pairs.induct)
  case (1 h l s)
  from "1.prems"(2) obtain hi lo u where parts: "hex_val False h = Some hi" "hex_val False l = Some lo"
    "hex_pairs False s = Some u" "t = of_byte (hi * 16 + lo) # u"
    by (auto split: option.splits)
  from parts have less: "hi < 16" "lo < 16" using hex_val_less by blast+
  have "hex_char d = to_lower c" if "hex_val False c = Some d" for c d
    using that hex_val_less [OF that]
    by (auto simp: byte_eq_iff [symmetric] byte_hex_char hex_val_def to_lower_def in_range_def
        split: if_splits)
  with "1.hyps" "1.prems"(1) parts less show ?case by (simp add: ToLower_def)
qed (auto simp: ToLower_def)

section \<open>The base-N coder (\<open>basen.h\<close>)\<close>

datatype traits = B16 | B32 | B64

fun group_length :: "traits \<Rightarrow> nat" where
  "group_length B16 = 4"
| "group_length B32 = 5"
| "group_length B64 = 6"

lemma group_length_pos: "0 < group_length t"
  by (cases t) simp_all

fun dictionary :: "traits \<Rightarrow> string" where
  "dictionary B16 = ''0123456789abcdef''"
| "dictionary B32 = ''ABCDEFGHIJKLMNOPQRSTUVWXYZ234567''"
| "dictionary B64 = ''ABCDEFGHIJKLMNOPQRSTUVWXYZabcdefghijklmnopqrstuvwxyz0123456789+/''"

definition traits_encode :: "traits \<Rightarrow> nat \<Rightarrow> char" where
  "traits_encode t index = dictionary t ! index"

fun traits_decode :: "traits \<Rightarrow> char \<Rightarrow> nat option" where
  "traits_decode B16 c =
     (if in_range c 48 57 then Some (byte c - 48)
      else if in_range c 65 70 then Some (byte c - 65 + 10)
      else if in_range c 97 102 then Some (byte c - 97 + 10)
      else None)"
| "traits_decode B32 c =
     (if in_range c 65 90 then Some (byte c - 65)
      else if in_range c 50 55 then Some (byte c - 50 + 26)
      else None)"
| "traits_decode B64 c =
     (if in_range c 65 90 then Some (byte c - 65)
      else if in_range c 97 122 then Some (byte c - 97 + 26)
      else if in_range c 48 57 then Some (byte c - 48 + 52)
      else if c = CHR ''+'' then Some 62
      else if c = CHR ''/'' then Some 63
      else None)"

definition extract_partial_bits :: "nat \<Rightarrow> nat \<Rightarrow> nat \<Rightarrow> nat" where
  "extract_partial_bits value start_bit bits_count =
     (let t1 = value div 2 ^ (8 - bits_count - start_bit) in t1 mod 2 ^ bits_count)"

definition extract_overlapping_bits :: "nat \<Rightarrow> nat \<Rightarrow> nat \<Rightarrow> nat \<Rightarrow> nat" where
  "extract_overlapping_bits previous next_byte start_bit bits_count =
     (let bits_count_in_previous = 8 - start_bit;
          bits_count_in_next = bits_count - bits_count_in_previous;
          t1 = (previous * 2 ^ bits_count_in_next) mod 256;
          t2 = next_byte div 2 ^ (8 - bits_count_in_next) mod 2 ^ bits_count_in_next
      in (t1 OR t2) mod 2 ^ bits_count)"

text \<open>The main loop of \<open>encode\<close>; the state is the unread input, the start bit and the backlog.\<close>

function encode_loop :: "traits \<Rightarrow> string \<Rightarrow> nat \<Rightarrow> char option \<Rightarrow> string \<times> nat" where
  "encode_loop t s start_bit (Some backlog) =
     (let v = extract_overlapping_bits (byte backlog) (case s of [] \<Rightarrow> 0 | c # _ \<Rightarrow> byte c)
                start_bit (group_length t);
          (out, sb) = encode_loop t s ((start_bit + group_length t) mod 8) None
      in (traits_encode t v # out, sb))"
| "encode_loop t [] start_bit None = ([], start_bit)"
| "encode_loop t (c # s) start_bit None =
     (if start_bit + group_length t < 8
      then (let v = extract_partial_bits (byte c) start_bit (group_length t);
                (out, sb) = encode_loop t (c # s) (start_bit + group_length t) None
            in (traits_encode t v # out, sb))
      else encode_loop t s start_bit (Some c))"
  by pat_completeness auto
termination
  by (relation "measures [\<lambda>(t, s, sb, b). length s, \<lambda>(t, s, sb, b). if b = None then 0 else 1,
                          \<lambda>(t, s, sb, b). 8 - sb]")
     (auto intro!: diff_less_mono2 simp: group_length_pos)

text \<open>The padding loop; there are eight start bits, so eight turns bring it back to 0 or never.\<close>

fun pad_loop :: "traits \<Rightarrow> nat \<Rightarrow> nat \<Rightarrow> string" where
  "pad_loop t 0 start_bit = []"
| "pad_loop t (Suc n) start_bit =
     (if start_bit \<noteq> 0 then CHR ''='' # pad_loop t n ((start_bit + group_length t) mod 8) else [])"

definition basen_encode :: "traits \<Rightarrow> string \<Rightarrow> string" where
  "basen_encode t s = (let (out, start_bit) = encode_loop t s 0 None in out @ pad_loop t 8 start_bit)"

primrec decode_loop :: "traits \<Rightarrow> string \<Rightarrow> nat \<Rightarrow> nat \<Rightarrow> nat \<Rightarrow> string" where
  "decode_loop t [] output_current_bit buffer trailing_equal =
     (if output_current_bit \<noteq> 0 then
        (let trailing_bits = trailing_equal * group_length t + output_current_bit in
         if trailing_bits mod 8 \<noteq> 0 then [of_byte buffer] else [])
      else [])"
| "decode_loop t (c # s) output_current_bit buffer trailing_equal =
     (if c = CHR ''='' then decode_loop t s output_current_bit buffer (Suc trailing_equal)
      else if IsSpace c then decode_loop t s output_current_bit buffer trailing_equal
      else case traits_decode t c of
        None \<Rightarrow> decode_loop t s output_current_bit buffer trailing_equal
      | Some v \<Rightarrow>
         (let g = group_length t;
              bits_in_current_byte = min (output_current_bit + g) 8 - output_current_bit
          in if bits_in_current_byte = g then
               (let buffer' = buffer OR ((v * 2 ^ (8 - output_current_bit - g)) mod 256);
                    ocb = output_current_bit + g
                in if ocb = 8 then of_byte buffer' # decode_loop t s 0 0 trailing_equal
                   else decode_loop t s ocb buffer' trailing_equal)
             else
               (let bits_in_next_byte = g - bits_in_current_byte;
                    buffer' = buffer OR (v div 2 ^ bits_in_next_byte)
                in of_byte buffer' #
                   decode_loop t s bits_in_next_byte ((v * 2 ^ (8 - bits_in_next_byte)) mod 256)
                     trailing_equal)))"

definition basen_decode :: "traits \<Rightarrow> string \<Rightarrow> string" where
  "basen_decode t s = decode_loop t s 0 0 0"

definition encode_b16 :: "string \<Rightarrow> string" where "encode_b16 s = basen_encode B16 s"
definition encode_b32 :: "string \<Rightarrow> string" where "encode_b32 s = basen_encode B32 s"
definition encode_b64 :: "string \<Rightarrow> string" where "encode_b64 s = basen_encode B64 s"
definition decode_b16 :: "string \<Rightarrow> string" where "decode_b16 s = basen_decode B16 s"
definition decode_b32 :: "string \<Rightarrow> string" where "decode_b32 s = basen_decode B32 s"
definition decode_b64 :: "string \<Rightarrow> string" where "decode_b64 s = basen_decode B64 s"

lemma dictionary_B16: "d < 16 \<Longrightarrow> dictionary B16 ! d = hex_char d"
proof -
  have "list_all (\<lambda>d. dictionary B16 ! d = hex_char d) [0..<16]" by code_simp
  then show "d < 16 \<Longrightarrow> dictionary B16 ! d = hex_char d" by (simp only: list_all_iff set_upt) simp
qed

lemma encode_loop_b16: "encode_loop B16 s 0 None = (BinToHexString s, 0)"
proof (induction s)
  case (Cons c s)
  have "byte c div 16 < 16" using byte_less [of c] by (simp add: less_mult_imp_div_less)
  with Cons show ?case
    by (simp del: dictionary.simps add: dictionary_B16 Let_def extract_partial_bits_def extract_overlapping_bits_def traits_encode_def)
qed simp
lemma traits_decode_hex_char: "d < 16 \<Longrightarrow> traits_decode B16 (hex_char d) = Some d \<and> \<not> IsSpace (hex_char d) \<and> hex_char d \<noteq> CHR ''=''"
  by (auto simp: in_range_def byte_hex_char IsSpace_def byte_eq_iff [symmetric]) (auto simp: byte_def)

lemma or_byte: "hi < 16 \<Longrightarrow> lo < 16 \<Longrightarrow> ((hi * 16) mod 256) OR lo = hi * 16 + (lo::nat)"
proof -
  assume hi: "hi < 16" and lo: "lo < 16"
  have "push_bit 4 hi + take_bit 4 lo = push_bit 4 hi OR take_bit 4 lo"
    by (rule disjunctive_add_eq_or) (simp add: bit_eq_iff bit_simps)
  with hi lo show ?thesis by (simp add: push_bit_eq_mult take_bit_eq_mod)
qed

lemma decode_loop_b16: "decode_loop B16 (BinToHexString s) 0 0 0 = s"
proof (induction s)
  case (Cons c s)
  have "byte c div 16 < 16" using byte_less [of c] by (simp add: less_mult_imp_div_less)
  moreover have "byte c div 16 * 16 + byte c mod 16 = byte c" by simp
  moreover have "byte c mod 16 mod 256 = byte c mod 16" by simp
  ultimately show ?case using Cons or_byte [of "byte c div 16" "byte c mod 16"]
    by (simp del: traits_decode.simps add: traits_decode_hex_char Let_def)
qed simp

lemma encode_b16_hex: "encode_b16 s = BinToHexString s"
  by (simp add: encode_b16_def basen_encode_def encode_loop_b16 eval_nat_numeral)

lemma decode_b16_hex: "decode_b16 (BinToHexString s) = s"
  by (simp add: decode_b16_def basen_decode_def decode_loop_b16)

end
