(* ===== verification/Environment.thy ===== *)
theory Environment
  imports General Hex_Codec
begin

text \<open>
  What the agent talks to and does not contain: the RocksDB store, the two chains behind HTTP,
  the clock, jsoncpp, the generated protobuf code and the signature library. Each is a function
  the model takes as an argument, gathered in the record \<open>env\<close>; nothing about them is fixed.
  The functions of the outside world get the list of everything the agent has done so far
  (\<open>trace\<close>), so the same request may be answered differently at different times.

  The facts about them that a theorem uses are the named hypotheses at the end, each a piece of
  the documentation: \<open>rocks_ok\<close> (an ordered key-value store), \<open>protobuf_ok\<close> (parsing undoes
  serialising), \<open>plain_env\<close> (ids delivered by the chains are plain ASCII text).
\<close>

section \<open>Interfaces\<close>

text \<open>JSON values built by the code, before they are printed.\<close>

datatype json_tree = JStr string | JInt int | JArr "json_tree list" | JObj "(string \<times> json_tree) list"

text \<open>jsoncpp on parsed values \<open>'j\<close>; \<open>None\<close> is a thrown \<open>Json::LogicError\<close>.\<close>

record 'j json_lib =
  js_fromString :: "string \<Rightarrow> 'j option"
  js_get :: "'j \<Rightarrow> string \<Rightarrow> 'j option"
  js_at :: "'j \<Rightarrow> nat \<Rightarrow> 'j option"
  js_isMember :: "'j \<Rightarrow> string \<Rightarrow> bool option"
  js_isArray :: "'j \<Rightarrow> bool"
  js_isNull :: "'j \<Rightarrow> bool"
  js_elems :: "'j \<Rightarrow> 'j list"
  js_asInt :: "'j \<Rightarrow> int option"
  js_asInt64 :: "'j \<Rightarrow> int option"
  js_asUInt :: "'j \<Rightarrow> nat option"
  js_asString :: "'j \<Rightarrow> string option"
  js_toStyledString :: "json_tree \<Rightarrow> string"

text \<open>RocksDB on a database \<open>'d\<close>: \<open>rk_entries\<close> is what an iterator yields from \<open>Seek(p)\<close> on;
  \<open>rk_get\<close> is \<open>None\<close> for a status that is neither ok nor not-found.\<close>

datatype batch_op = BPut string string | BDelete string

record 'd rocks =
  rk_put :: "'d \<Rightarrow> string \<Rightarrow> string \<Rightarrow> bool \<times> 'd"
  rk_delete :: "'d \<Rightarrow> string \<Rightarrow> bool \<times> 'd"
  rk_get :: "'d \<Rightarrow> string \<Rightarrow> string option option"
  rk_write :: "'d \<Rightarrow> batch_op list \<Rightarrow> bool \<times> 'd"
  rk_iter_ok :: "'d \<Rightarrow> bool"
  rk_seek :: "'d \<Rightarrow> string \<Rightarrow> (string \<times> string) list"

text \<open>The transaction message of \<open>proto/transaction.proto\<close>, as far as the agent fills it.\<close>

record pay_coin =
  dest_address :: string
  pay_input :: string
  pay_amount :: int

record Transaction =
  source_address :: string
  fee_limit :: int
  gas_price :: int
  chain_id :: int
  nonce :: int
  max_ledger_seq :: int
  operations :: "pay_coin list"

text \<open>Everything the agent does that the outside can see.\<close>

datatype io =
    HttpGet string string          \<comment> \<open>endpoint, request\<close>
  | HttpPost string string string  \<comment> \<open>endpoint, request, body\<close>
  | ClockRead
  | SystemClockRead

record LayerConfigure =
  http_endpoint :: string
  ws_endpoint :: string
  cross_contract :: string
  private_key :: string
  agent_address :: string
  start_tx_topic :: string
  send_tx_topic :: string
  ack_tx_topic :: string
  cfg_fee_limit :: int
  cfg_gas_price :: int

record Layer1Configure = LayerConfigure +
  manager_contract :: string
  topics :: "string list"

record Layer2Configure = LayerConfigure +
  layer2_id :: int

record ('d, 'j) env =
  layer1 :: Layer1Configure
  layer2 :: Layer2Configure
  rocks :: "'d rocks"
  json :: "'j json_lib"
  http_get :: "io list \<Rightarrow> string \<Rightarrow> string \<Rightarrow> string option"
  http_post :: "io list \<Rightarrow> string \<Rightarrow> string \<Rightarrow> string \<Rightarrow> string option"
  high_resolution :: "io list \<Rightarrow> int"
  system_millis :: "io list \<Rightarrow> int"
  pb_serialize :: "CrossTxInfo \<Rightarrow> string"
  pb_parse :: "string \<Rightarrow> bool \<times> CrossTxInfo"
  pb_transaction :: "Transaction \<Rightarrow> string"
  enc_public_key :: "string \<Rightarrow> string"
  sign :: "string \<Rightarrow> string \<Rightarrow> string"

section \<open>The state of the agent\<close>

text \<open>Each handle has its tables of pending transactions; together they are seven
  \<open>std::map\<close> members, named here by the constructors of \<open>table\<close>.\<close>

datatype table =
    L1_send_tx_info_map | L1_send_ack_info_map | L1_reply_ack_info_map
  | L2_start_tx_info_map | L2_send_tx_info_map | L2_send_ack_info_map | L2_reply_ack_info_map

record 'd world =
  trace :: "io list"
  db :: 'd
  tables :: "table \<Rightarrow> (string, CrossTx) smap"

type_synonym ('a, 'd) agent = "('a, 'd world) prog"

definition log_io :: "io \<Rightarrow> 'd world \<Rightarrow> 'd world" where
  "log_io e w = w\<lparr>trace := trace w @ [e]\<rparr>"

definition HighResolution :: "('d, 'j) env \<Rightarrow> (int, 'd) agent" where
  "HighResolution E = (\<lambda>w. Done (high_resolution E (trace w)) (log_io ClockRead w))"

definition makeGetRequest :: "('d, 'j) env \<Rightarrow> string \<Rightarrow> string \<Rightarrow> (string option, 'd) agent" where
  "makeGetRequest E url request =
     (\<lambda>w. Done (http_get E (trace w) url request) (log_io (HttpGet url request) w))"

definition makePostRequest ::
  "('d, 'j) env \<Rightarrow> string \<Rightarrow> string \<Rightarrow> string \<Rightarrow> (string option, 'd) agent" where
  "makePostRequest E url request body =
     (\<lambda>w. Done (http_post E (trace w) url request body) (log_io (HttpPost url request body) w))"

lemma log_io_simps [simp]:
  "trace (log_io e w) = trace w @ [e]" "db (log_io e w) = db w" "tables (log_io e w) = tables w"
  by (simp_all add: log_io_def)

section \<open>Named hypotheses\<close>

definition plain :: "string \<Rightarrow> bool" where
  "plain s \<longleftrightarrow> (\<forall>c \<in> set s. 0 < byte c \<and> byte c < 128) \<and> int (length s) < 1000000"

lemma plain_nul_free: "plain s \<Longrightarrow> nul_free s"
  by (auto simp: plain_def nul_free_def byte_def)

lemma plain_c_str [simp]: "plain s \<Longrightarrow> c_str s = s"
  by (simp add: plain_nul_free)

text \<open>RocksDB: an ordered store. A write that reports success is visible, one that does not
  leaves the contents alone; an iterator placed by \<open>Seek(p)\<close> yields the entries from \<open>p\<close> on, in
  the order of the keys.\<close>

definition rk_map :: "'d rocks \<Rightarrow> 'd \<Rightarrow> string \<Rightarrow> string option" where
  "rk_map R d k = map_of (rk_seek R d []) k"

fun apply_batch :: "batch_op list \<Rightarrow> (string \<Rightarrow> string option) \<Rightarrow> string \<Rightarrow> string option" where
  "apply_batch [] m = m"
| "apply_batch (BPut k v # b) m = apply_batch b (m(k \<mapsto> v))"
| "apply_batch (BDelete k # b) m = apply_batch b (m(k := None))"

definition rocks_ok :: "'d rocks \<Rightarrow> bool" where
  "rocks_ok R \<longleftrightarrow>
     (\<forall>d. sorted_map (rk_seek R d [])) \<and>
     (\<forall>d p. rk_seek R d p = dropWhile (\<lambda>(k, _). k < p) (rk_seek R d [])) \<and>
     (\<forall>d k v ok d'. rk_put R d k v = (ok, d') \<longrightarrow>
        rk_map R d' = (if ok then (rk_map R d)(k \<mapsto> v) else rk_map R d)) \<and>
     (\<forall>d k ok d'. rk_delete R d k = (ok, d') \<longrightarrow>
        rk_map R d' = (if ok then (rk_map R d)(k := None) else rk_map R d)) \<and>
     (\<forall>d b ok d'. rk_write R d b = (ok, d') \<longrightarrow>
        rk_map R d' = (if ok then apply_batch b (rk_map R d) else rk_map R d)) \<and>
     (\<forall>d k r. rk_get R d k = Some r \<longrightarrow> r = rk_map R d k)"

lemma rocks_okD:
  assumes "rocks_ok R"
  shows rocks_sorted: "sorted_map (rk_seek R d [])"
    and rocks_seek: "rk_seek R d p = dropWhile (\<lambda>(k, _). k < p) (rk_seek R d [])"
    and rocks_put: "rk_put R d k v = (ok, d') \<Longrightarrow>
          rk_map R d' = (if ok then (rk_map R d)(k \<mapsto> v) else rk_map R d)"
    and rocks_delete: "rk_delete R d k = (ok, d') \<Longrightarrow>
          rk_map R d' = (if ok then (rk_map R d)(k := None) else rk_map R d)"
    and rocks_write: "rk_write R d b = (ok, d') \<Longrightarrow>
          rk_map R d' = (if ok then apply_batch b (rk_map R d) else rk_map R d)"
    and rocks_get: "rk_get R d k = Some r \<Longrightarrow> r = rk_map R d k"
  using assms unfolding rocks_ok_def by blast+

text \<open>No write fails.\<close>

definition rocks_reliable :: "'d rocks \<Rightarrow> bool" where
  "rocks_reliable R \<longleftrightarrow> (\<forall>d k v. fst (rk_put R d k v)) \<and> (\<forall>d k. fst (rk_delete R d k)) \<and>
     (\<forall>d. rk_iter_ok R d)"

text \<open>protobuf: parsing what was serialised gives the message back. Its strings have to be valid
  UTF-8, which plain ones are, and its numbers have to fit their fields.\<close>

definition plain_info :: "CrossTxInfo \<Rightarrow> bool" where
  "plain_info m \<longleftrightarrow>
     plain (crosstxid m) \<and> plain (srcbid m) \<and> plain (destbid m) \<and> plain (errordesc m) \<and>
     plain (sendtxhash m) \<and> plain (sendacktol1hash m) \<and> plain (sendacktol2hash m) \<and>
     fits32 (status m) \<and> fits32 (refunded m) \<and> fits64 (amount m) \<and> fits64 (createtimestamp m) \<and>
     fits64 (executetimestamp m) \<and> fits64 (timeout m) \<and> fits64 (confirmseq m)"

definition protobuf_ok :: "('d, 'j) env \<Rightarrow> bool" where
  "protobuf_ok E \<longleftrightarrow> (\<forall>m. plain_info m \<longrightarrow> pb_parse E (pb_serialize E m) = (True, m))"

text \<open>The text the chains answer with is plain.\<close>

definition plain_env :: "('d, 'j) env \<Rightarrow> bool" where
  "plain_env E \<longleftrightarrow>
     (\<forall>j s. js_asString (json E) j = Some s \<longrightarrow> plain s) \<and>
     (\<forall>j n. js_asInt64 (json E) j = Some n \<longrightarrow> fits64 n)"

end
