(* ===== verification/Database.thy ===== *)
theory Database
  imports Environment
begin

text \<open>
  \<open>database/\<close>: the RocksDB driver, the storage with its vector of write batches, and the
  manager and proxy in front of them. The store itself is the parameter \<open>'d rocks\<close>. The error
  texts the driver remembers for the log are left out. A \<open>std::set<std::string>\<close> is a strictly
  sorted list.
\<close>

section \<open>The driver (\<open>rocks_db.cpp\<close>)\<close>

definition Rocks_Get :: "'d rocks \<Rightarrow> string \<Rightarrow> string \<Rightarrow> 'd \<Rightarrow> int \<times> string" where
  "Rocks_Get R key val d =
     (case rk_get R d key of
        Some (Some v) \<Rightarrow> (1, v)
      | Some None \<Rightarrow> (0, val)
      | None \<Rightarrow> (-1, val))"

definition Rocks_Put :: "'d rocks \<Rightarrow> string \<Rightarrow> string \<Rightarrow> 'd \<Rightarrow> bool \<times> 'd" where
  "Rocks_Put R key val d = rk_put R d key val"

definition Rocks_Delete :: "'d rocks \<Rightarrow> string \<Rightarrow> 'd \<Rightarrow> bool \<times> 'd" where
  "Rocks_Delete R key d = rk_delete R d key"

definition Rocks_WriteBatch :: "'d rocks \<Rightarrow> batch_op list \<Rightarrow> 'd \<Rightarrow> bool \<times> 'd" where
  "Rocks_WriteBatch R b d = rk_write R d b"

fun set_insert :: "string \<Rightarrow> string list \<Rightarrow> string list" where
  "set_insert v [] = [v]"
| "set_insert v (u # us) = (if v < u then v # u # us else if v = u then u # us else u # set_insert v us)"

fun scan_loop :: "string \<Rightarrow> (string \<times> string) list \<Rightarrow> string list \<Rightarrow> string list" where
  "scan_loop leaf_prefix [] valuelist = valuelist"
| "scan_loop leaf_prefix ((k, v) # es) valuelist =
     (if has_prefix leaf_prefix k then scan_loop leaf_prefix es (set_insert v valuelist) else valuelist)"

definition GetAllByIterator :: "'d rocks \<Rightarrow> string \<Rightarrow> string list \<Rightarrow> 'd \<Rightarrow> bool \<times> string list" where
  "GetAllByIterator R leaf_prefix valuelist d =
     (if \<not> rk_iter_ok R d then (False, valuelist)
      else (True, scan_loop leaf_prefix (rk_seek R d leaf_prefix) valuelist))"

section \<open>The write-batch vector (\<open>storage_lock.cpp\<close>, \<open>consistent_writebatch.cpp\<close>)\<close>

type_synonym batch = "batch_op list"
type_synonym batch_vector = "batch option list"

definition MAX_BATCH_COUNT :: nat where "MAX_BATCH_COUNT = 10000"

definition new_DomianBatchVector :: batch_vector where
  "new_DomianBatchVector = replicate 100 None"

definition ThreadSafeAdd :: "int \<Rightarrow> batch option \<Rightarrow> (unit, batch_vector) prog" where
  "ThreadSafeAdd index b =
     (\<lambda>vec. if 0 \<le> index \<and> nat index < length vec then Done () (vec[nat index := b]) else Fault OutOfRange vec)"

fun first_free :: "batch_vector \<Rightarrow> nat \<Rightarrow> nat option" where
  "first_free [] i = None"
| "first_free (b # vec) i = (if b = None then Some i else first_free vec (Suc i))"

text \<open>\<open>None\<close>: the process exits.\<close>

definition ThreadSafeGetIndex :: "batch_vector \<Rightarrow> nat option" where
  "ThreadSafeGetIndex vec =
     (let batch_size = length vec;
          index = (case first_free vec 0 of Some i \<Rightarrow> i | None \<Rightarrow> batch_size)
      in if index = MAX_BATCH_COUNT then None else Some index)"

definition ThreadSafeGetByIndex :: "nat \<Rightarrow> (batch option, batch_vector) prog" where
  "ThreadSafeGetByIndex index =
     (\<lambda>vec. if index \<ge> MAX_BATCH_COUNT then Done None vec
            else if index < length vec then Done (vec ! index) vec else Fault OutOfRange vec)"

definition ConsistentWriteBatch_new :: batch where "ConsistentWriteBatch_new = []"
definition ConsistentWriteBatch_Put :: "string \<Rightarrow> string \<Rightarrow> batch \<Rightarrow> bool \<times> batch" where
  "ConsistentWriteBatch_Put key val b = (True, b @ [BPut key val])"
definition ConsistentWriteBatch_Delete :: "string \<Rightarrow> batch \<Rightarrow> bool \<times> batch" where
  "ConsistentWriteBatch_Delete key b = (True, b @ [BDelete key])"
definition ConsistentWriteBatch_Clear :: "batch \<Rightarrow> bool \<times> batch" where
  "ConsistentWriteBatch_Clear b = (True, [])"

section \<open>The storage (\<open>storage.cpp\<close>)\<close>

text \<open>\<open>st_batch\<close> is \<open>None\<close> after \<open>CloseDb\<close>; using it then dereferences a null pointer.\<close>

record 'd Storage =
  st_db :: 'd
  st_batch :: "batch_vector option"

definition on_batch :: "('a, batch_vector) prog \<Rightarrow> ('a, 'd Storage) prog" where
  "on_batch m = (\<lambda>s. case st_batch s of
       None \<Rightarrow> Fault Uninitialised s
     | Some vec \<Rightarrow> (case m vec of
           Done a vec' \<Rightarrow> Done a (s\<lparr>st_batch := Some vec'\<rparr>)
         | Fault f vec' \<Rightarrow> Fault f (s\<lparr>st_batch := Some vec'\<rparr>)))"

definition CloseDb :: "'d Storage \<Rightarrow> 'd Storage" where
  "CloseDb s = s\<lparr>st_batch := None\<rparr>"

text \<open>The result is the index kept in the new \<open>BatchIndex\<close>; \<open>None\<close> when the process exits.\<close>

definition NewWriteBatch :: "(nat option, 'd Storage) prog" where
  "NewWriteBatch = (\<lambda>s. case st_batch s of
       Some vec \<Rightarrow>
         (case ThreadSafeGetIndex vec of
            None \<Rightarrow> Done None s
          | Some index \<Rightarrow>
              andThen (on_batch (ThreadSafeAdd (int index) (Some ConsistentWriteBatch_new)))
                (\<lambda>_. ret (Some index)) s)
     | None \<Rightarrow>
         andThen (change (\<lambda>s. s\<lparr>st_batch := Some new_DomianBatchVector\<rparr>)) (\<lambda>_.
         andThen (on_batch (ThreadSafeAdd 0 (Some ConsistentWriteBatch_new))) (\<lambda>_.
         ret (Some 0))) s)"

text \<open>Run by the destructor of \<open>BatchIndex\<close>; the index is narrowed to \<open>int32_t\<close>.\<close>

definition ReleaseBatch :: "nat \<Rightarrow> (unit, 'd Storage) prog" where
  "ReleaseBatch batch_index = on_batch (ThreadSafeAdd (i32 (int batch_index)) None)"

definition update_batch ::
  "nat \<Rightarrow> bool \<Rightarrow> (batch \<Rightarrow> bool \<times> batch) \<Rightarrow> (bool, 'd Storage) prog" where
  "update_batch batch_index if_null f =
     andThen (on_batch (ThreadSafeGetByIndex batch_index)) (\<lambda>b.
       case b of
         None \<Rightarrow> ret if_null
       | Some b \<Rightarrow> (let (r, b') = f b in
           andThen (on_batch (ThreadSafeAdd (int batch_index) (Some b'))) (\<lambda>_. ret r)))"

definition BatchPut :: "nat \<Rightarrow> string \<Rightarrow> string \<Rightarrow> (bool, 'd Storage) prog" where
  "BatchPut batch_index key val = update_batch batch_index False (ConsistentWriteBatch_Put key val)"

definition BatchDelete :: "nat \<Rightarrow> string \<Rightarrow> (bool, 'd Storage) prog" where
  "BatchDelete batch_index key = update_batch batch_index False (ConsistentWriteBatch_Delete key)"

definition BatchClear :: "nat \<Rightarrow> (bool, 'd Storage) prog" where
  "BatchClear batch_index = update_batch batch_index True ConsistentWriteBatch_Clear"

definition WriteBatch :: "'d rocks \<Rightarrow> nat \<Rightarrow> (bool, 'd Storage) prog" where
  "WriteBatch R batch_index = (\<lambda>s. case st_batch s of
       None \<Rightarrow> Done False s
     | Some vec \<Rightarrow>
         andThen (on_batch (ThreadSafeGetByIndex batch_index)) (\<lambda>b.
           case b of
             None \<Rightarrow> ret False
           | Some b \<Rightarrow> (\<lambda>s. let (ok, d') = Rocks_WriteBatch R b (st_db s); s = s\<lparr>st_db := d'\<rparr> in
               if \<not> ok then Done False s
               else andThen (update_batch batch_index True ConsistentWriteBatch_Clear) (\<lambda>_. ret True) s)) s)"

definition Storage_DBGet :: "'d rocks \<Rightarrow> string \<Rightarrow> string \<Rightarrow> 'd \<Rightarrow> int \<times> string" where
  "Storage_DBGet R key val d = Rocks_Get R key val d"

definition Storage_DBPut :: "'d rocks \<Rightarrow> string \<Rightarrow> string \<Rightarrow> 'd \<Rightarrow> int \<times> 'd" where
  "Storage_DBPut R key val d = (let (stat, d') = Rocks_Put R key val d in (if \<not> stat then -1 else 1, d'))"

definition Storage_DBDelete :: "'d rocks \<Rightarrow> string \<Rightarrow> 'd \<Rightarrow> int \<times> 'd" where
  "Storage_DBDelete R key d = (let (stat, d') = Rocks_Delete R key d in (if \<not> stat then -1 else 1, d'))"

definition Storage_GetAllValueByPrefix ::
  "'d rocks \<Rightarrow> string \<Rightarrow> string list \<Rightarrow> 'd \<Rightarrow> bool \<times> string list" where
  "Storage_GetAllValueByPrefix R prefix vals d =
     (case GetAllByIterator R prefix vals d of
        (False, vals') \<Rightarrow> (False, vals')
      | (True, vals') \<Rightarrow> (True, vals'))"

section \<open>Manager and proxy (\<open>database_manager.cpp\<close>, \<open>database_proxy.cpp\<close>)\<close>

definition Manager_DBGet :: "'d rocks \<Rightarrow> string \<Rightarrow> string \<Rightarrow> 'd \<Rightarrow> bool \<times> string" where
  "Manager_DBGet R key val d = (let (r, v) = Storage_DBGet R key val d in (r = 1, v))"

definition Manager_DBPut :: "'d rocks \<Rightarrow> string \<Rightarrow> string \<Rightarrow> 'd \<Rightarrow> bool \<times> 'd" where
  "Manager_DBPut R key val d = (let (r, d') = Storage_DBPut R key val d in (r = 1, d'))"

definition Manager_DBDelete :: "'d rocks \<Rightarrow> string \<Rightarrow> 'd \<Rightarrow> bool \<times> 'd" where
  "Manager_DBDelete R key d = (let (r, d') = Storage_DBDelete R key d in (r = 1, d'))"

definition DBGet :: "('d, 'j) env \<Rightarrow> string \<Rightarrow> string \<Rightarrow> (bool \<times> string, 'd) agent" where
  "DBGet E key val = (\<lambda>w. Done (Manager_DBGet (rocks E) key val (db w)) w)"

definition DBPut :: "('d, 'j) env \<Rightarrow> string \<Rightarrow> string \<Rightarrow> (bool, 'd) agent" where
  "DBPut E key val = (\<lambda>w. let (ok, d') = Manager_DBPut (rocks E) key val (db w) in Done ok (w\<lparr>db := d'\<rparr>))"

definition DBDelete :: "('d, 'j) env \<Rightarrow> string \<Rightarrow> (bool, 'd) agent" where
  "DBDelete E key = (\<lambda>w. let (ok, d') = Manager_DBDelete (rocks E) key (db w) in Done ok (w\<lparr>db := d'\<rparr>))"

definition GetAllValueByPrefix :: "('d, 'j) env \<Rightarrow> string \<Rightarrow> (bool \<times> string list, 'd) agent" where
  "GetAllValueByPrefix E prefix = (\<lambda>w. Done (Storage_GetAllValueByPrefix (rocks E) prefix [] (db w)) w)"

section \<open>What the operations do\<close>

lemma set_set_insert [simp]: "set (set_insert v us) = insert v (set us)"
  by (induction v us rule: set_insert.induct) auto

lemma sorted_set_insert: "sorted_wrt (<) us \<Longrightarrow> sorted_wrt (<) (set_insert v us)"
  by (induction v us rule: set_insert.induct) auto

lemma sorted_scan_loop: "sorted_wrt (<) us \<Longrightarrow> sorted_wrt (<) (scan_loop p es us)"
  by (induction p es us rule: scan_loop.induct) (auto simp: sorted_set_insert)

lemma set_scan_loop:
  "set (scan_loop p es us) = set us \<union> snd ` set (takeWhile (\<lambda>(k, _). has_prefix p k) es)"
proof (induction p es us rule: scan_loop.induct)
  case (2 p k v es us)
  show ?case
  proof (cases "has_prefix p k")
    case True
    then have "set (scan_loop p ((k, v) # es) us) =
        insert v (set us) \<union> snd ` set (takeWhile (\<lambda>(k, _). has_prefix p k) es)"
      using 2 by simp
    also have "\<dots> = set us \<union> snd ` insert (k, v) (set (takeWhile (\<lambda>(k, _). has_prefix p k) es))"
      by simp
    finally show ?thesis using True by simp
  qed simp
qed simp

text \<open>The keys that start with \<open>p\<close> are an interval of the key order, beginning at \<open>p\<close>.\<close>

lemma has_prefix_Cons: "has_prefix (a # p) (b # s) \<longleftrightarrow> a = b \<and> has_prefix p s"
  by (auto simp: has_prefix_def)

lemma has_prefix_ge: "has_prefix p k \<Longrightarrow> p \<le> k"
proof (induction p arbitrary: k)
  case (Cons a p)
  then obtain k' where "k = a # k'" "has_prefix p k'" by (cases k) (auto simp: has_prefix_def)
  with Cons.IH show ?case by simp
qed simp

lemma has_prefix_between: "p \<le> k \<Longrightarrow> k \<le> k' \<Longrightarrow> has_prefix p k' \<Longrightarrow> has_prefix p k"
proof (induction p arbitrary: k k')
  case (Cons a p)
  from Cons.prems(3) obtain t' where t': "k' = a # t'" "has_prefix p t'"
    by (cases k') (auto simp: has_prefix_def)
  from Cons.prems(1) obtain b t where t: "k = b # t" by (cases k) auto
  from Cons.prems t t' have "a = b" by auto
  with Cons t t' show ?case by (auto simp: has_prefix_Cons)
qed (simp add: has_prefix_def)

lemma takeWhile_interval:
  assumes "sorted_map es" and "\<forall>k \<in> set (keys es). p \<le> k"
  shows "takeWhile (\<lambda>(k, _). has_prefix p k) es = [(k, v) \<leftarrow> es. has_prefix p k]"
  using assms
proof (induction es)
  case (Cons e es)
  obtain k v where e: "e = (k, v)" by fastforce
  show ?case
  proof (cases "has_prefix p k")
    case False
    have "\<not> has_prefix p k'" if "(k', v') \<in> set es" for k' v'
    proof
      assume "has_prefix p k'"
      moreover have "k < k'" using Cons.prems(1) that e by (force simp: keys_def)
      moreover have "p \<le> k" using Cons.prems(2) e by simp
      ultimately show False using has_prefix_between [of p k k'] False by (metis less_imp_le)
    qed
    then have "[(k', v') \<leftarrow> es. has_prefix p k'] = []" by (fastforce simp: filter_empty_conv)
    with False e show ?thesis by simp
  qed (use Cons e in simp)
qed simp

lemma set_dropWhile_sorted:
  "sorted_map es \<Longrightarrow> set (dropWhile (\<lambda>(k, _). k < p) es) = {(k, v) \<in> set es. p \<le> k}"
proof (induction es)
  case (Cons e es)
  obtain k v where e: "e = (k, v)" by fastforce
  have above: "p \<le> k'" if "(k', v') \<in> set es" "p \<le> k" for k' v'
    using Cons.prems that e by (force simp: keys_def)
  from Cons e above show ?case by (cases "k < p") (auto simp: not_less)
qed simp

lemma sorted_map_dropWhile: "sorted_map es \<Longrightarrow> sorted_map (dropWhile P es)"
  by (induction es) auto

lemma map_of_sorted: "sorted_map es \<Longrightarrow> (k, v) \<in> set es \<longleftrightarrow> map_of es k = Some v"
  using sorted_map_distinct [of es] by (auto simp: keys_def)

lemma scan_spec:
  assumes "rocks_ok R"
  shows "set (scan_loop p (rk_seek R d p) us) = set us \<union> {v. \<exists>k. has_prefix p k \<and> rk_map R d k = Some v}"
proof -
  have sorted: "sorted_map (rk_seek R d [])"
    and seek: "rk_seek R d p = dropWhile (\<lambda>(k, _). k < p) (rk_seek R d [])"
    using rocks_sorted [OF assms] rocks_seek [OF assms] by blast+
  let ?es = "rk_seek R d p"
  have es: "set ?es = {(k, v). p \<le> k \<and> rk_map R d k = Some v}"
  proof -
    have "set ?es = {(k, v) \<in> set (rk_seek R d []). p \<le> k}"
      by (simp only: seek set_dropWhile_sorted [OF sorted])
    also have "\<dots> = {(k, v). p \<le> k \<and> rk_map R d k = Some v}"
      using map_of_sorted [OF sorted] by (auto simp: rk_map_def)
    finally show ?thesis .
  qed
  have "takeWhile (\<lambda>(k, _). has_prefix p k) ?es = [(k, v) \<leftarrow> ?es. has_prefix p k]"
  proof (rule takeWhile_interval)
    show "sorted_map ?es" by (subst seek) (rule sorted_map_dropWhile [OF sorted])
    show "\<forall>k \<in> set (keys ?es). p \<le> k" using es by (auto simp: keys_def)
  qed
  then have "snd ` set (takeWhile (\<lambda>(k, _). has_prefix p k) ?es) = {v. \<exists>k. has_prefix p k \<and> (k, v) \<in> set ?es}"
    by force
  also have "\<dots> = {v. \<exists>k. has_prefix p k \<and> rk_map R d k = Some v}"
    unfolding es by (auto dest: has_prefix_ge)
  finally show ?thesis by (simp add: set_scan_loop)
qed

lemma DBPut_map:
  assumes "rocks_ok R" and "Manager_DBPut R k v d = (ok, d')"
  shows "rk_map R d' = (if ok then (rk_map R d)(k \<mapsto> v) else rk_map R d)"
  using assms
  by (auto simp: Manager_DBPut_def Storage_DBPut_def Rocks_Put_def
      split: prod.splits if_splits dest: rocks_put)

lemma DBDelete_map:
  assumes "rocks_ok R" and "Manager_DBDelete R k d = (ok, d')"
  shows "rk_map R d' = (if ok then (rk_map R d)(k := None) else rk_map R d)"
  using assms
  by (auto simp: Manager_DBDelete_def Storage_DBDelete_def Rocks_Delete_def
      split: prod.splits if_splits dest: rocks_delete)

lemma DBPut_ok: "rocks_reliable R \<Longrightarrow> fst (Manager_DBPut R k v d)"
  by (simp add: rocks_reliable_def Manager_DBPut_def Storage_DBPut_def Rocks_Put_def
      split: prod.splits) (metis fst_conv)

lemma DBDelete_ok: "rocks_reliable R \<Longrightarrow> fst (Manager_DBDelete R k d)"
  by (simp add: rocks_reliable_def Manager_DBDelete_def Storage_DBDelete_def Rocks_Delete_def
      split: prod.splits) (metis fst_conv)

lemma GetAllValueByPrefix_spec:
  assumes "rocks_ok R" and "rk_iter_ok R d"
  shows "\<exists>vs. Storage_GetAllValueByPrefix R p [] d = (True, vs) \<and> sorted_wrt (<) vs \<and>
           set vs = {v. \<exists>k. has_prefix p k \<and> rk_map R d k = Some v}"
  using assms scan_spec [OF assms(1), of p d "[]"]
  by (auto simp: Storage_GetAllValueByPrefix_def GetAllByIterator_def sorted_scan_loop)

end
