(* ===== verification/Web_Client.thy ===== *)
theory Web_Client
  imports Database
begin

text \<open>
  \<open>common/web_client.cpp\<close>, the transactions of \<open>common/layer1_transaction.cpp\<close> and
  \<open>common/layer2_transaction.cpp\<close>, and the signing and submitting that both handles contain in
  identical copies. A function of the code that returns \<open>bool\<close> and fills a reference gives
  \<open>Some\<close> of what it filled, \<open>None\<close> for \<open>false\<close>. An HTTP answer is \<open>None\<close> unless its error is
  \<open>Success\<close>.
\<close>

section \<open>JSON access\<close>

definition jget :: "('d, 'j) env \<Rightarrow> 'j \<Rightarrow> string \<Rightarrow> ('j, 'd) agent" where
  "jget E j key = orFault Thrown (js_get (json E) j key)"

definition jmember :: "('d, 'j) env \<Rightarrow> 'j \<Rightarrow> string \<Rightarrow> (bool, 'd) agent" where
  "jmember E j key = orFault Thrown (js_isMember (json E) j key)"

definition jint64 :: "('d, 'j) env \<Rightarrow> 'j \<Rightarrow> (int, 'd) agent" where
  "jint64 E j = orFault Thrown (js_asInt64 (json E) j)"

definition jint :: "('d, 'j) env \<Rightarrow> 'j \<Rightarrow> (int, 'd) agent" where
  "jint E j = orFault Thrown (js_asInt (json E) j)"

definition jstring :: "('d, 'j) env \<Rightarrow> 'j \<Rightarrow> (string, 'd) agent" where
  "jstring E j = orFault Thrown (js_asString (json E) j)"

definition jat :: "('d, 'j) env \<Rightarrow> 'j \<Rightarrow> nat \<Rightarrow> ('j, 'd) agent" where
  "jat E j i = orFault Thrown (js_at (json E) j i)"

section \<open>The HTTP client\<close>

definition GetLayerSeq :: "('d, 'j) env \<Rightarrow> string \<Rightarrow> (int option, 'd) agent" where
  "GetLayerSeq E url =
     andThen (makeGetRequest E url ''/getLedger'') (\<lambda>resp.
     case resp of None \<Rightarrow> ret None | Some body \<Rightarrow>
     (case js_fromString (json E) body of None \<Rightarrow> ret None | Some res \<Rightarrow>
       andThen (jget E res ''error_code'') (\<lambda>ec.
       andThen (jint64 E ec) (\<lambda>error_code.
       if error_code \<noteq> 0 then ret None
       else andThen (jget E res ''result'') (\<lambda>result.
            andThen (jmember E result ''header'') (\<lambda>has_header.
            if has_header then
              andThen (jget E result ''header'') (\<lambda>header.
              andThen (jmember E header ''seq'') (\<lambda>has_seq.
              if has_seq then
                andThen (jget E header ''seq'') (\<lambda>seq. andThen (jint64 E seq) (\<lambda>n. ret (Some n)))
              else ret None))
            else ret None))))))"

definition SubmitLayer1Transaction :: "('d, 'j) env \<Rightarrow> string \<Rightarrow> string \<Rightarrow> (string option, 'd) agent" where
  "SubmitLayer1Transaction E url requestBody = makePostRequest E url ''/submitTransaction'' requestBody"

definition SubmitLayer2Transaction :: "('d, 'j) env \<Rightarrow> string \<Rightarrow> string \<Rightarrow> (string option, 'd) agent" where
  "SubmitLayer2Transaction E url requestBody = makePostRequest E url ''/submitTransaction'' requestBody"

text \<open>The part after the request that \<open>getCrossTxInfo1\<close> and \<open>getCrossTxInfo2\<close> have in common.\<close>

definition query_data :: "('d, 'j) env \<Rightarrow> string option \<Rightarrow> (string option, 'd) agent" where
  "query_data E result =
     (case result of None \<Rightarrow> ret None | Some body \<Rightarrow>
      (case js_fromString (json E) body of None \<Rightarrow> ret None | Some res \<Rightarrow>
        andThen (jget E res ''result'') (\<lambda>query_result.
        andThen (jmember E query_result ''query_rets'') (\<lambda>has_rets.
        if \<not> has_rets then ret None
        else andThen (jget E query_result ''query_rets'') (\<lambda>rets.
        if \<not> js_isArray (json E) rets then ret None
        else andThen (jat E rets 0) (\<lambda>query_rets.
             andThen (jget E query_rets ''error'') (\<lambda>err.
             andThen (jmember E err ''data'') (\<lambda>has_data.
             if \<not> has_data then ret None
             else andThen (jget E err ''data'') (\<lambda>err_data.
             if \<not> js_isNull (json E) err_data then ret None
             else andThen (jget E query_rets ''result'') (\<lambda>r.
                  andThen (jget E r ''data'') (\<lambda>d.
                  andThen (jstring E d) (\<lambda>data. ret (Some data)))))))))))))"

definition call_contract_body :: "('d, 'j) env \<Rightarrow> string \<Rightarrow> string \<Rightarrow> string \<Rightarrow> string \<Rightarrow> string" where
  "call_contract_body E contract function returns cross_txid =
     (let input = JObj [(''function'', JStr function), (''return'', JStr returns),
                        (''args'', JStr ([CHR 0x27] @ cross_txid @ [CHR 0x27]))]
      in js_toStyledString (json E)
           (JObj [(''contract_address'', JStr contract), (''code'', JStr []), (''opt_type'', JInt 2),
                  (''source_address'', JStr []), (''input'', JStr (js_toStyledString (json E) input))]))"

definition contract_of :: "('d, 'j) env \<Rightarrow> bool \<Rightarrow> string" where
  "contract_of E is_layer1 = (if is_layer1 then cross_contract (layer1 E) else cross_contract (layer2 E))"

definition getCrossTxInfo1 :: "('d, 'j) env \<Rightarrow> string \<Rightarrow> string \<Rightarrow> bool \<Rightarrow> (string option, 'd) agent" where
  "getCrossTxInfo1 E url cross_txid is_layer1 =
     andThen (makePostRequest E url ''/callContract''
        (call_contract_body E (contract_of E is_layer1) ''GetCrossTxInfo1(bytes)''
           ''returns(uint32,uint32,bytes,uint256,address,address)'' cross_txid)) (query_data E)"

definition getCrossTxInfo2 :: "('d, 'j) env \<Rightarrow> string \<Rightarrow> string \<Rightarrow> bool \<Rightarrow> (string option, 'd) agent" where
  "getCrossTxInfo2 E url cross_txid is_layer1 =
     andThen (makePostRequest E url ''/callContract''
        (call_contract_body E (contract_of E is_layer1) ''GetCrossTxInfo2(bytes)''
           ''returns(uint8,uint8,uint256,uint256,uint256,string)'' cross_txid)) (query_data E)"

definition GetLayer1CrossTxInfo :: "('d, 'j) env \<Rightarrow> string \<Rightarrow> string \<Rightarrow> ((string \<times> string) option, 'd) agent" where
  "GetLayer1CrossTxInfo E url cross_txid =
     andThen (getCrossTxInfo1 E url cross_txid True) (\<lambda>i1.
     case i1 of None \<Rightarrow> ret None | Some info1 \<Rightarrow>
       andThen (getCrossTxInfo2 E url cross_txid True) (\<lambda>i2.
       case i2 of None \<Rightarrow> ret None | Some info2 \<Rightarrow> ret (Some (info1, info2))))"

definition GetLayer2CrossTxInfo :: "('d, 'j) env \<Rightarrow> string \<Rightarrow> string \<Rightarrow> ((string \<times> string) option, 'd) agent" where
  "GetLayer2CrossTxInfo E url cross_txid =
     andThen (getCrossTxInfo1 E url cross_txid False) (\<lambda>i1.
     case i1 of None \<Rightarrow> ret None | Some info1 \<Rightarrow>
       andThen (getCrossTxInfo2 E url cross_txid False) (\<lambda>i2.
       case i2 of None \<Rightarrow> ret None | Some info2 \<Rightarrow> ret (Some (info1, info2))))"

text \<open>The loop over the transactions returns at its first element.\<close>

definition GetTxResult :: "('d, 'j) env \<Rightarrow> string \<Rightarrow> string \<Rightarrow> (bool, 'd) agent" where
  "GetTxResult E url tx_hash =
     andThen (makeGetRequest E url (Format (''/getTransactionHistory?hash='' @ c_str tx_hash))) (\<lambda>resp.
     case resp of None \<Rightarrow> ret False | Some body \<Rightarrow>
     (case js_fromString (json E) body of None \<Rightarrow> ret False | Some res \<Rightarrow>
       andThen (jget E res ''error_code'') (\<lambda>ec.
       andThen (jint64 E ec) (\<lambda>error_code.
       if error_code \<noteq> 0 then ret False
       else andThen (jget E res ''result'') (\<lambda>result.
            andThen (jmember E result ''transactions'') (\<lambda>has.
            if \<not> has then ret False
            else andThen (jget E result ''transactions'') (\<lambda>transactions.
            if \<not> js_isArray (json E) transactions then ret False
            else (case js_elems (json E) transactions of
                [] \<Rightarrow> ret False
              | tx # _ \<Rightarrow>
                  andThen (jmember E tx ''error_code'') (\<lambda>has_code.
                  if \<not> has_code then ret False
                  else andThen (jget E tx ''error_code'') (\<lambda>c.
                       andThen (jint64 E c) (\<lambda>code. ret (code = 0))))))))))))"

definition GetBalance :: "('d, 'j) env \<Rightarrow> string \<Rightarrow> string \<Rightarrow> (int option, 'd) agent" where
  "GetBalance E url address =
     andThen (makeGetRequest E url (''/getAccountBase?address='' @ address)) (\<lambda>resp.
     case resp of None \<Rightarrow> ret None | Some body \<Rightarrow>
     (case js_fromString (json E) body of None \<Rightarrow> ret None | Some res \<Rightarrow>
       andThen (jget E res ''error_code'') (\<lambda>ec.
       andThen (jint64 E ec) (\<lambda>error_code.
       if error_code \<noteq> 0 then ret None
       else andThen (jget E res ''result'') (\<lambda>result.
            andThen (jmember E result ''balance'') (\<lambda>has.
            if has then andThen (jget E result ''balance'') (\<lambda>b. andThen (jint64 E b) (\<lambda>n. ret (Some n)))
            else ret None))))))"

text \<open>\<open>std::getline\<close> with a comma, until the stream ends: nothing follows a final comma.\<close>

fun comma_items :: "string \<Rightarrow> string \<Rightarrow> string list" where
  "comma_items item [] = (if item = [] then [] else [rev item])"
| "comma_items item (c # s) = (if c = CHR '','' then rev item # comma_items [] s else comma_items (c # item) s)"

text \<open>\<open>info.substr(1, info.size() - 2)\<close>: throws on the empty string, and a length of one wraps
  to a count that reaches the end.\<close>

definition strip_brackets :: "string \<Rightarrow> string option" where
  "strip_brackets info =
     (if info = [] then None
      else if length info = 1 then Some []
      else Some (substr info 1 (length info - 2)))"

definition list_at :: "string list \<Rightarrow> nat \<Rightarrow> (string, 's) prog" where
  "list_at l i = (if i < length l then ret (l ! i) else fault OutOfRange)"

text \<open>Called on a client of either layer, it asks for the layer 2 contract; a failure is
  returned as \<open>false\<close>, which is 0.\<close>

definition GetCrossTxStatus :: "('d, 'j) env \<Rightarrow> string \<Rightarrow> string \<Rightarrow> (int, 'd) agent" where
  "GetCrossTxStatus E url cross_txid =
     andThen (getCrossTxInfo2 E url cross_txid False) (\<lambda>i2.
     case i2 of None \<Rightarrow> ret 0 | Some crossTxInfo2 \<Rightarrow>
       andThen (orFault Thrown (strip_brackets crossTxInfo2)) (\<lambda>info2.
       andThen (list_at (comma_items [] info2) 0) (\<lambda>s. ret (Stoi s))))"

section \<open>Transactions\<close>

definition new_Transaction :: "'a LayerConfigure_scheme \<Rightarrow> Transaction" where
  "new_Transaction cfg =
     \<lparr>source_address = agent_address cfg, fee_limit = cfg_fee_limit cfg, gas_price = cfg_gas_price cfg,
      chain_id = 0, nonce = 0, max_ledger_seq = 0, operations = []\<rparr>"

definition AddTransactionOperation ::
  "'a LayerConfigure_scheme \<Rightarrow> string \<Rightarrow> int \<Rightarrow> Transaction \<Rightarrow> Transaction" where
  "AddTransactionOperation cfg input amt tx =
     tx\<lparr>operations := operations tx @
        [\<lparr>dest_address = cross_contract cfg, pay_input = input, pay_amount = amt\<rparr>]\<rparr>"

definition SetRandomNonce :: "('d, 'j) env \<Rightarrow> int \<Rightarrow> Transaction \<Rightarrow> (Transaction, 'd) agent" where
  "SetRandomNonce E n tx =
     (if n \<noteq> 0 then ret (tx\<lparr>nonce := n\<rparr>)
      else (\<lambda>w. Done (tx\<lparr>nonce := system_millis E (trace w)\<rparr>) (log_io SystemClockRead w)))"

definition GetTransactionBlob :: "('d, 'j) env \<Rightarrow> int \<Rightarrow> Transaction \<Rightarrow> (string, 'd) agent" where
  "GetTransactionBlob E max_seq tx =
     andThen (if nonce tx = 0 then SetRandomNonce E 0 tx else ret tx) (\<lambda>tx.
     ret (encode_b16 (pb_transaction E (tx\<lparr>max_ledger_seq := max_seq\<rparr>))))"

definition GetTransactionHash :: "('d, 'j) env \<Rightarrow> (string \<Rightarrow> string) \<Rightarrow> Transaction \<Rightarrow> string" where
  "GetTransactionHash E crypto tx = encode_b16 (crypto (pb_transaction E tx))"

definition Layer1Transaction_new :: "('d, 'j) env \<Rightarrow> Transaction" where
  "Layer1Transaction_new E = new_Transaction (layer1 E)"

definition Layer2Transaction_new :: "('d, 'j) env \<Rightarrow> Transaction" where
  "Layer2Transaction_new E = new_Transaction (layer2 E)"

section \<open>Signing and submitting\<close>

text \<open>The request body: the blob and the signature over the bytes its hexadecimal text stands for.\<close>

definition submit_body :: "('d, 'j) env \<Rightarrow> string \<Rightarrow> string \<Rightarrow> string" where
  "submit_body E key tran_blob =
     (let bin_tran_blob = HexStringToBin tran_blob False in
      js_toStyledString (json E) (JObj [(''items'', JArr [JObj [
        (''transaction_blob'', JStr tran_blob),
        (''signatures'', JArr [JObj [
           (''public_key'', JStr (enc_public_key E key)),
           (''sign_data'', JStr (BinToHexString (sign E key bin_tran_blob)))]])]])]))"

fun check_results :: "('d, 'j) env \<Rightarrow> 'j list \<Rightarrow> string \<Rightarrow> (string option, 'd) agent" where
  "check_results E [] txhash = ret (Some txhash)"
| "check_results E (r # rs) txhash =
     andThen (jget E r ''error_code'') (\<lambda>ec.
     andThen (jint E ec) (\<lambda>error_code.
     if error_code \<noteq> 0 then
       andThen (jget E r ''error_desc'') (\<lambda>d. andThen (jstring E d) (\<lambda>_. ret None))
     else andThen (jget E r ''hash'') (\<lambda>h.
          andThen (jstring E h) (\<lambda>hash. check_results E rs hash))))"

text \<open>\<open>Some\<close> of the hash when it returns \<open>true\<close>; the hash stays empty when there is no result.\<close>

definition checkTxResponse :: "('d, 'j) env \<Rightarrow> string \<Rightarrow> (string option, 'd) agent" where
  "checkTxResponse E response =
     (case js_fromString (json E) response of None \<Rightarrow> ret None | Some responseBody \<Rightarrow>
       andThen (jget E responseBody ''results'') (\<lambda>results.
       if js_isArray (json E) results \<and> js_elems (json E) results \<noteq> []
       then check_results E (js_elems (json E) results) []
       else ret (Some [])))"

text \<open>\<open>sendTransactionToLayer1\<close> and \<open>sendTransactionToLayer2\<close> up to the layer they address.
  \<open>seq + 200\<close> is a signed 64-bit sum.\<close>

definition send_transaction ::
  "('d, 'j) env \<Rightarrow> 'a LayerConfigure_scheme \<Rightarrow> Transaction \<Rightarrow> string \<Rightarrow> int \<Rightarrow> (string option, 'd) agent" where
  "send_transaction E cfg fresh input amt =
     (let tx = AddTransactionOperation cfg input amt fresh in
      andThen (GetLayerSeq E (http_endpoint cfg)) (\<lambda>seq.
      case seq of None \<Rightarrow> ret None | Some layer_seq \<Rightarrow>
      if \<not> fits64 (layer_seq + 200) then fault SignedOverflow
      else andThen (GetTransactionBlob E (layer_seq + 200) tx) (\<lambda>tran_blob.
           andThen (makePostRequest E (http_endpoint cfg) ''/submitTransaction''
                      (submit_body E (private_key cfg) tran_blob)) (\<lambda>response.
           case response of None \<Rightarrow> ret None | Some body \<Rightarrow> checkTxResponse E body))))"

section \<open>Invariants of the client\<close>

text \<open>The client changes nothing but the trace, and no bound of the model is involved.\<close>

definition only_trace :: "('a, 'd) agent \<Rightarrow> bool" where
  "only_trace m \<longleftrightarrow> (\<forall>w. db (state_of (m w)) = db w \<and> tables (state_of (m w)) = tables w \<and>
     (\<forall>w'. m w \<noteq> Fault OutOfFuel w'))"

text \<open>An invariant that does not look at the trace.\<close>

definition trace_free :: "('d world \<Rightarrow> bool) \<Rightarrow> bool" where
  "trace_free I \<longleftrightarrow> (\<forall>w w'. db w' = db w \<and> tables w' = tables w \<longrightarrow> I w = I w')"

lemma only_trace_keeps: "only_trace m \<Longrightarrow> trace_free I \<Longrightarrow> keeps I m"
  unfolding only_trace_def trace_free_def keeps_def by blast

named_theorems only_trace_intros \<open>programs that only extend the trace\<close>

lemma only_trace_basic [only_trace_intros]:
  "only_trace (ret a)" "only_trace (fault SignedOverflow)" "only_trace (fault OutOfRange)"
  "only_trace (read_state g)" "only_trace (orFault Thrown x)" "only_trace (orFault Uninitialised x)"
  "only_trace (HighResolution E)" "only_trace (makeGetRequest E url req)"
  "only_trace (makePostRequest E url req body)"
  by (simp_all add: only_trace_def ret_def fault_def read_state_def orFault_def HighResolution_def
      makeGetRequest_def makePostRequest_def split: option.splits)

lemma only_trace_andThen [only_trace_intros]:
  assumes "only_trace m" and "\<And>a. only_trace (k a)"
  shows "only_trace (andThen m k)"
  unfolding only_trace_def
proof
  fix w
  show "db (state_of (andThen m k w)) = db w \<and> tables (state_of (andThen m k w)) = tables w \<and>
      (\<forall>w'. andThen m k w \<noteq> Fault OutOfFuel w')"
  proof (cases "m w")
    case (Done a w1)
    have "db w1 = db w" "tables w1 = tables w"
      using assms(1) Done unfolding only_trace_def by (metis state_of.simps(1))+
    moreover have "db (state_of (k a w1)) = db w1 \<and> tables (state_of (k a w1)) = tables w1 \<and>
        (\<forall>w'. k a w1 \<noteq> Fault OutOfFuel w')"
      using assms(2) unfolding only_trace_def by blast
    ultimately show ?thesis using Done by (simp add: andThen_def)
  next
    case (Fault f w1)
    then have "andThen m k w = Fault f w1" by (simp add: andThen_def)
    with assms(1) [unfolded only_trace_def, rule_format, of w] Fault show ?thesis by auto
  qed
qed

lemma only_trace_if [only_trace_intros]:
  "(b \<Longrightarrow> only_trace m) \<Longrightarrow> (\<not> b \<Longrightarrow> only_trace n) \<Longrightarrow> only_trace (if b then m else n)"
  by simp

lemma only_trace_option [only_trace_intros]:
  "only_trace m \<Longrightarrow> (\<And>a. only_trace (k a)) \<Longrightarrow> only_trace (case x of None \<Rightarrow> m | Some a \<Rightarrow> k a)"
  by (cases x) simp_all

lemma only_trace_list [only_trace_intros]:
  "only_trace m \<Longrightarrow> (\<And>a l. only_trace (k a l)) \<Longrightarrow> only_trace (case x of [] \<Rightarrow> m | a # l \<Rightarrow> k a l)"
  by (cases x) simp_all

lemma only_trace_json [only_trace_intros]:
  "only_trace (jget E j key)" "only_trace (jmember E j key)" "only_trace (jint64 E j)"
  "only_trace (jint E j)" "only_trace (jstring E j)" "only_trace (jat E j i)"
  by (simp_all add: jget_def jmember_def jint64_def jint_def jstring_def jat_def only_trace_intros)

lemma only_trace_list_at [only_trace_intros]: "only_trace (list_at l i)"
  by (simp add: list_at_def only_trace_intros)

lemma only_trace_GetLayerSeq [only_trace_intros]: "only_trace (GetLayerSeq E url)"
  unfolding GetLayerSeq_def by (intro only_trace_intros)

lemma only_trace_query_data [only_trace_intros]: "only_trace (query_data E r)"
  unfolding query_data_def by (intro only_trace_intros)

lemma only_trace_CrossTxInfo [only_trace_intros]:
  "only_trace (getCrossTxInfo1 E url txid l)" "only_trace (getCrossTxInfo2 E url txid l)"
  "only_trace (GetLayer1CrossTxInfo E url txid)" "only_trace (GetLayer2CrossTxInfo E url txid)"
  unfolding GetLayer1CrossTxInfo_def GetLayer2CrossTxInfo_def getCrossTxInfo1_def getCrossTxInfo2_def
  by (intro only_trace_intros)+

lemma only_trace_GetTxResult [only_trace_intros]: "only_trace (GetTxResult E url hash)"
  unfolding GetTxResult_def by (intro only_trace_intros)

lemma only_trace_GetBalance [only_trace_intros]: "only_trace (GetBalance E url address)"
  unfolding GetBalance_def by (intro only_trace_intros)

lemma only_trace_GetCrossTxStatus [only_trace_intros]: "only_trace (GetCrossTxStatus E url txid)"
  unfolding GetCrossTxStatus_def by (intro only_trace_intros)

lemma only_trace_check_results [only_trace_intros]: "only_trace (check_results E rs h)"
  by (induction E rs h rule: check_results.induct) (auto intro!: only_trace_intros)

lemma only_trace_checkTxResponse [only_trace_intros]: "only_trace (checkTxResponse E response)"
  unfolding checkTxResponse_def by (intro only_trace_intros)

lemma only_trace_GetTransactionBlob [only_trace_intros]: "only_trace (GetTransactionBlob E n tx)"
  unfolding GetTransactionBlob_def SetRandomNonce_def
  by (intro only_trace_intros) (simp add: only_trace_def)

lemma only_trace_send_transaction [only_trace_intros]:
  "only_trace (send_transaction E cfg fresh input amt)"
  unfolding send_transaction_def Let_def by (intro only_trace_intros)

section \<open>What the client returns\<close>

lemma plain_sub: "plain s \<Longrightarrow> set t \<subseteq> set s \<Longrightarrow> length t \<le> length s \<Longrightarrow> plain t"
  by (auto simp: plain_def)

lemma plain_Nil [simp]: "plain []"
  by (simp add: plain_def)

lemma plain_strip_brackets: "plain s \<Longrightarrow> strip_brackets s = Some t \<Longrightarrow> plain t"
  by (auto simp: strip_brackets_def substr_def split: if_splits
      intro!: plain_sub [of s] dest: in_set_takeD in_set_dropD)

lemma comma_items_sub:
  "x \<in> set (comma_items item s) \<Longrightarrow>
   set x \<subseteq> set item \<union> set s \<and> length x \<le> length item + length s"
  by (induction item s arbitrary: x rule: comma_items.induct) (fastforce split: if_splits)+

lemma plain_comma_items: "plain s \<Longrightarrow> x \<in> set (comma_items [] s) \<Longrightarrow> plain x"
  using comma_items_sub [of x "[]" s] by (auto intro: plain_sub [of s])

lemma yields_read_only: "only_trace m \<Longrightarrow> trace_free I \<Longrightarrow> (\<And>w a. value_of (m w) = Some a \<Longrightarrow> Q a) \<Longrightarrow> yields I m Q"
  using only_trace_keeps [of m I] by (auto simp: yields_def keeps_def)

lemma yields_option:
  "(x = None \<Longrightarrow> yields I m Q) \<Longrightarrow> (\<And>a. x = Some a \<Longrightarrow> yields I (k a) Q) \<Longrightarrow>
   yields I (case x of None \<Rightarrow> m | Some a \<Rightarrow> k a) Q"
  by (cases x) simp_all

lemma yields_any: "only_trace m \<Longrightarrow> trace_free I \<Longrightarrow> yields I m (\<lambda>_. True)"
  by (intro yields_top only_trace_keeps)

definition plain_opt :: "string option \<Rightarrow> bool" where
  "plain_opt x \<longleftrightarrow> (\<forall>s. x = Some s \<longrightarrow> plain s)"

lemma yields_query_data:
  assumes "plain_env E" and "trace_free I"
  shows "yields I (query_data E r) plain_opt"
proof -
  have str: "yields I (jstring E d) plain" for d
    using assms(1) unfolding jstring_def by (intro yields_orFault) (simp add: plain_env_def)
  have any: "yields I (jget E j key) (\<lambda>_. True)" "yields I (jmember E j key) (\<lambda>_. True)"
    "yields I (jat E j i) (\<lambda>_. True)" for j key i
    by (rule yields_any [OF _ assms(2)], intro only_trace_intros)+
  have none: "yields I (ret None) plain_opt" by (rule yields_ret) (simp add: plain_opt_def)
  have some: "plain s \<Longrightarrow> yields I (ret (Some s)) plain_opt" for s
    by (rule yields_ret) (simp add: plain_opt_def)
  show ?thesis
    unfolding query_data_def
    by (intro yields_option yields_if none
        yields_andThen [OF any(1)] yields_andThen [OF any(2)] yields_andThen [OF any(3)]
        yields_andThen [OF str] some)
qed

definition plain_pair :: "(string \<times> string) option \<Rightarrow> bool" where
  "plain_pair x \<longleftrightarrow> (\<forall>s t. x = Some (s, t) \<longrightarrow> plain s \<and> plain t)"

lemma yields_getCrossTxInfo:
  assumes "plain_env E" and "trace_free I"
  shows "yields I (getCrossTxInfo1 E url txid l) plain_opt" "yields I (getCrossTxInfo2 E url txid l) plain_opt"
  unfolding getCrossTxInfo1_def getCrossTxInfo2_def
  using assms by (intro yields_andThen [OF yields_any] yields_query_data only_trace_intros; simp)+

lemma yields_GetCrossTxInfo:
  assumes "plain_env E" and "trace_free I"
  shows "yields I (GetLayer1CrossTxInfo E url txid) plain_pair" "yields I (GetLayer2CrossTxInfo E url txid) plain_pair"
proof -
  note parts = yields_getCrossTxInfo [OF assms]
  have pair: "plain_opt i1 \<Longrightarrow> yields I (case i1 of None \<Rightarrow> ret None | Some info1 \<Rightarrow>
       andThen (getCrossTxInfo2 E url txid l) (\<lambda>i2.
       case i2 of None \<Rightarrow> ret None | Some info2 \<Rightarrow> ret (Some (info1, info2)))) plain_pair" for i1 l
    by (intro yields_option yields_ret yields_andThen [OF parts(2)])
       (auto simp: plain_pair_def plain_opt_def)
  show "yields I (GetLayer1CrossTxInfo E url txid) plain_pair"
    unfolding GetLayer1CrossTxInfo_def by (rule yields_andThen [OF parts(1)]) (rule pair)
  show "yields I (GetLayer2CrossTxInfo E url txid) plain_pair"
    unfolding GetLayer2CrossTxInfo_def by (rule yields_andThen [OF parts(1)]) (rule pair)
qed

text \<open>A submitted transaction gives back a plain hash.\<close>

lemma yields_send_transaction:
  assumes "plain_env E" and "trace_free I"
  shows "yields I (send_transaction E cfg fresh input amt) plain_opt"
proof -
  have any: "yields I m (\<lambda>_. True)" if "only_trace m" for m :: "('x, 'a) agent"
    using that assms(2) by (rule yields_any)
  have str: "yields I (jstring E d) plain" for d
    using assms(1) unfolding jstring_def by (intro yields_orFault) (simp add: plain_env_def)
  have none: "yields I (ret None) plain_opt" by (rule yields_ret) (simp add: plain_opt_def)
  have results: "plain h \<Longrightarrow> yields I (check_results E rs h) plain_opt" for rs h
  proof (induction rs arbitrary: h)
    case Nil
    then show ?case by (simp add: yields_ret plain_opt_def)
  next
    case (Cons r rs)
    show ?case
      unfolding check_results.simps
      by (intro yields_andThen [OF any] yields_andThen [OF str] yields_if none Cons.IH only_trace_intros)
  qed
  have check: "yields I (checkTxResponse E body) plain_opt" for body
    unfolding checkTxResponse_def
    by (intro yields_option yields_andThen [OF any] yields_if none results only_trace_intros plain_Nil)
       (simp add: yields_ret plain_opt_def)
  show ?thesis
    unfolding send_transaction_def Let_def
    by (intro yields_andThen [OF any] yields_option yields_if none yields_fault check only_trace_intros)
qed

lemma yields_GetLayerSeq:
  assumes "plain_env E" and "trace_free I"
  shows "yields I (GetLayerSeq E url) (\<lambda>r. \<forall>n. r = Some n \<longrightarrow> fits64 n)"
proof -
  have any: "yields I m (\<lambda>_. True)" if "only_trace m" for m :: "('x, 'a) agent"
    using that assms(2) by (rule yields_any)
  have num: "yields I (jint64 E d) fits64" for d
    using assms(1) unfolding jint64_def by (intro yields_orFault) (simp add: plain_env_def)
  have none: "yields I (ret None) (\<lambda>r. \<forall>n. r = Some n \<longrightarrow> fits64 n)" by (rule yields_ret) simp
  have some: "fits64 n \<Longrightarrow> yields I (ret (Some n)) (\<lambda>r. \<forall>n. r = Some n \<longrightarrow> fits64 n)" for n
    by (rule yields_ret) simp
  show ?thesis
    unfolding GetLayerSeq_def
    by (intro yields_option yields_if none yields_andThen [OF num] yields_andThen [OF any] some only_trace_intros)
qed

end
