(* ===== verification/Pending.thy ===== *)
theory Pending
  imports Web_Client
begin

text \<open>
  The tables of pending transactions and their copies in the database: the keys they are stored
  under, how an entry is saved and cleared, and the loop over a table that may erase the element
  it stands on. The interface \<open>key_space\<close> states what keeps the seven tables apart inside one
  key-value store; \<open>coherent\<close> is the invariant that every handler of the agent keeps.
\<close>

section \<open>Keys\<close>

fun table_prefix :: "table \<Rightarrow> string" where
  "table_prefix L1_send_tx_info_map = ''L1_SendTx_''"
| "table_prefix L1_send_ack_info_map = ''L1_SendAckInfo_''"
| "table_prefix L1_reply_ack_info_map = ''L1_ReplyAckInfo_''"
| "table_prefix L2_start_tx_info_map = ''L2_StartTx_''"
| "table_prefix L2_send_tx_info_map = ''L2_SendTx_''"
| "table_prefix L2_send_ack_info_map = ''L2_SendAck_''"
| "table_prefix L2_reply_ack_info_map = ''L2_ReplyAck_''"

text \<open>Some of the tables build the key with \<open>Format("%s%s")\<close>, the others by concatenation.\<close>

fun key_by_format :: "table \<Rightarrow> bool" where
  "key_by_format L2_start_tx_info_map = False"
| "key_by_format L2_send_tx_info_map = False"
| "key_by_format L2_send_ack_info_map = False"
| "key_by_format _ = True"

definition dbkey :: "table \<Rightarrow> string \<Rightarrow> string" where
  "dbkey t txid =
     (if key_by_format t then Format (c_str (table_prefix t) @ c_str txid) else table_prefix t @ txid)"

locale key_space =
  fixes key :: "'t \<Rightarrow> string \<Rightarrow> string"
    and prefix :: "'t \<Rightarrow> string"
    and good :: "string \<Rightarrow> bool"
  assumes key_prefix: "good i \<Longrightarrow> key t i = prefix t @ i"
    and prefix_free: "prefix t @ i = prefix u @ j \<Longrightarrow> t = u"
begin

lemma key_inject: "good i \<Longrightarrow> good j \<Longrightarrow> key t i = key u j \<longleftrightarrow> t = u \<and> i = j"
  using prefix_free [of t i u j] by (auto simp: key_prefix)

lemma prefix_of_key: "good j \<Longrightarrow> has_prefix (prefix t) (key u j) \<longleftrightarrow> t = u"
  using prefix_free [of u j t] by (auto simp: key_prefix has_prefix_iff)

lemma mirrored_put:
  assumes "\<forall>t i. good i \<longrightarrow> (i \<in> T t \<longleftrightarrow> m (key t i) \<noteq> None)" and "good j"
  shows "\<forall>t i. good i \<longrightarrow> (i \<in> (T(u := insert j (T u))) t \<longleftrightarrow> (m(key u j \<mapsto> v)) (key t i) \<noteq> None)"
  using assms by (auto simp: key_inject)

lemma mirrored_delete:
  assumes "\<forall>t i. good i \<longrightarrow> (i \<in> T t \<longleftrightarrow> m (key t i) \<noteq> None)" and "good j"
  shows "\<forall>t i. good i \<longrightarrow> (i \<in> (T(u := T u - {j})) t \<longleftrightarrow> (m(key u j := None)) (key t i) \<noteq> None)"
  using assms by (auto simp: key_inject)

end

lemma table_prefix_nul_free: "nul_free (table_prefix t)"
  by (cases t) (auto simp: nul_free_def)

lemma table_prefix_short: "length (table_prefix t) \<le> 20"
  by (cases t) simp_all

lemma dbkey_plain: "plain i \<Longrightarrow> dbkey t i = table_prefix t @ i"
  using table_prefix_nul_free [of t] table_prefix_short [of t]
  by (simp add: dbkey_def plain_def)

lemma table_prefix_free: "table_prefix t @ i = table_prefix u @ j \<Longrightarrow> t = u"
  by (cases t; cases u; simp)

interpretation agent_keys: key_space dbkey table_prefix plain
  by unfold_locales (fact dbkey_plain, fact table_prefix_free)

section \<open>Saving and clearing\<close>

definition emplace_entry :: "table \<Rightarrow> CrossTx \<Rightarrow> 'd world \<Rightarrow> 'd world" where
  "emplace_entry t e w = w\<lparr>tables := (tables w)(t := m_emplace (cross_tx_id e) e (tables w t))\<rparr>"

definition erase_entry :: "table \<Rightarrow> string \<Rightarrow> 'd world \<Rightarrow> 'd world" where
  "erase_entry t txid w = w\<lparr>tables := (tables w)(t := m_erase txid (tables w t))\<rparr>"

text \<open>\<open>acktx.second->send_ack_timeout_ = v\<close>: the entry is shared with no other table.\<close>

definition set_ack_timeout :: "table \<Rightarrow> string \<Rightarrow> int \<Rightarrow> 'd world \<Rightarrow> 'd world" where
  "set_ack_timeout t txid v w =
     (case map_of (tables w t) txid of
        None \<Rightarrow> w
      | Some e \<Rightarrow> w\<lparr>tables := (tables w)(t := m_put txid (e\<lparr>send_ack_timeout := Some v\<rparr>) (tables w t))\<rparr>)"

definition ack_period :: int where
  "ack_period = 60 * 1000000"

text \<open>The three shapes of a save: without a timeout, with the timeout set after the database
  write (layer 1 handle) or before it (layer 2 handle). A null pointer saves nothing.\<close>

definition save_entry :: "('d, 'j) env \<Rightarrow> table \<Rightarrow> CrossTx option \<Rightarrow> (bool, 'd) agent" where
  "save_entry E t p =
     (case p of None \<Rightarrow> ret True | Some e \<Rightarrow>
       andThen (DBPut E (dbkey t (cross_tx_id e)) (cross_tx_info e)) (\<lambda>_.
       andThen (change (emplace_entry t e)) (\<lambda>_. ret True)))"

definition save_then_stamp :: "('d, 'j) env \<Rightarrow> table \<Rightarrow> CrossTx option \<Rightarrow> (bool, 'd) agent" where
  "save_then_stamp E t p =
     (case p of None \<Rightarrow> ret True | Some e \<Rightarrow>
       andThen (DBPut E (dbkey t (cross_tx_id e)) (cross_tx_info e)) (\<lambda>_.
       andThen (HighResolution E) (\<lambda>now.
       andThen (change (emplace_entry t (e\<lparr>send_ack_timeout := Some (now + ack_period)\<rparr>))) (\<lambda>_. ret True))))"

definition stamp_then_save :: "('d, 'j) env \<Rightarrow> table \<Rightarrow> CrossTx option \<Rightarrow> (bool, 'd) agent" where
  "stamp_then_save E t p =
     (case p of None \<Rightarrow> ret True | Some e \<Rightarrow>
       andThen (HighResolution E) (\<lambda>now.
       andThen (DBPut E (dbkey t (cross_tx_id e)) (cross_tx_info e)) (\<lambda>_.
       andThen (change (emplace_entry t (e\<lparr>send_ack_timeout := Some (now + ack_period)\<rparr>))) (\<lambda>_. ret True))))"

definition clear_entry :: "('d, 'j) env \<Rightarrow> table \<Rightarrow> string \<Rightarrow> (bool, 'd) agent" where
  "clear_entry E t txid =
     andThen (DBDelete E (dbkey t txid)) (\<lambda>_.
     andThen (change (erase_entry t txid)) (\<lambda>_. ret True))"

section \<open>Reading back at start\<close>

text \<open>One loop of \<open>Initialize\<close>: every value stored under the prefix that parses becomes an entry;
  the others are logged and skipped.\<close>

fun load_entries :: "('d, 'j) env \<Rightarrow> table \<Rightarrow> bool \<Rightarrow> string list \<Rightarrow> (unit, 'd) agent" where
  "load_entries E t stamped [] = ret ()"
| "load_entries E t stamped (v # vs) =
     (case pb_parse E v of (ok, m) \<Rightarrow>
        if \<not> ok then load_entries E t stamped vs
        else if stamped then
          andThen (HighResolution E) (\<lambda>now.
          andThen (change (emplace_entry t
             ((make_CrossTx (pb_serialize E) m)\<lparr>send_ack_timeout := Some (now + ack_period)\<rparr>))) (\<lambda>_.
          load_entries E t stamped vs))
        else
          andThen (change (emplace_entry t (make_CrossTx (pb_serialize E) m))) (\<lambda>_.
          load_entries E t stamped vs))"

definition load_table :: "('d, 'j) env \<Rightarrow> table \<Rightarrow> bool \<Rightarrow> (unit, 'd) agent" where
  "load_table E t stamped =
     andThen (GetAllValueByPrefix E (table_prefix t)) (\<lambda>(ok, vals).
     if ok then load_entries E t stamped vals else ret ())"

section \<open>The loop over a table\<close>

text \<open>\<open>for (const auto& x : map) body\<close>: after the body the iterator moves on from the element it
  stands on, so the element has to be still there. The bound is one more than the number of
  elements at the start; \<open>for_each_enough\<close> shows that it is never used up by a body that adds
  no keys.\<close>

definition find_entry :: "table \<Rightarrow> string \<Rightarrow> (CrossTx, 'd) agent" where
  "find_entry t txid =
     (\<lambda>w. case map_of (tables w t) txid of None \<Rightarrow> Fault IteratorInvalid w | Some e \<Rightarrow> Done e w)"

fun iterate :: "nat \<Rightarrow> table \<Rightarrow> (string \<Rightarrow> CrossTx \<Rightarrow> (unit, 'd) agent) \<Rightarrow> string option \<Rightarrow> (unit, 'd) agent" where
  "iterate n t body None = ret ()"
| "iterate 0 t body (Some k) = fault OutOfFuel"
| "iterate (Suc n) t body (Some k) =
     andThen (find_entry t k) (\<lambda>e.
     andThen (body k e) (\<lambda>_.
     andThen (find_entry t k) (\<lambda>_.
     andThen (read_state (\<lambda>w. m_next k (tables w t))) (\<lambda>next_key.
     iterate n t body next_key))))"

definition for_each :: "table \<Rightarrow> (string \<Rightarrow> CrossTx \<Rightarrow> (unit, 'd) agent) \<Rightarrow> (unit, 'd) agent" where
  "for_each t body = (\<lambda>w. iterate (Suc (length (tables w t))) t body (m_first (tables w t)) w)"

section \<open>The invariant\<close>

fun ack_table :: "table \<Rightarrow> bool" where
  "ack_table L1_send_ack_info_map = True"
| "ack_table L1_reply_ack_info_map = True"
| "ack_table L2_send_ack_info_map = True"
| "ack_table L2_reply_ack_info_map = True"
| "ack_table _ = False"

text \<open>An entry belongs to its key: it is what the constructor makes of a plain message of that
  id, with a timeout in the tables that use one.\<close>

definition entry_ok :: "('d, 'j) env \<Rightarrow> table \<Rightarrow> string \<Rightarrow> CrossTx \<Rightarrow> bool" where
  "entry_ok E t txid e \<longleftrightarrow>
     cross_tx_id e = txid \<and>
     (\<exists>m. plain_info m \<and> crosstxid m = txid \<and>
        e\<lparr>send_ack_timeout := None\<rparr> = make_CrossTx (pb_serialize E) m) \<and>
     (ack_table t \<longrightarrow> send_ack_timeout e \<noteq> None)"

definition coherent :: "('d, 'j) env \<Rightarrow> 'd world \<Rightarrow> bool" where
  "coherent E w \<longleftrightarrow>
     (\<forall>t. sorted_map (tables w t)) \<and>
     (\<forall>t txid e. map_of (tables w t) txid = Some e \<longrightarrow> entry_ok E t txid e) \<and>
     (\<forall>k v. rk_map (rocks E) (db w) k = Some v \<longrightarrow>
        (\<exists>t m. plain_info m \<and> k = dbkey t (crosstxid m) \<and> v = pb_serialize E m)) \<and>
     (\<forall>t txid. plain txid \<longrightarrow>
        (txid \<in> set (keys (tables w t)) \<longleftrightarrow> rk_map (rocks E) (db w) (dbkey t txid) \<noteq> None))"

definition external_ok :: "('d, 'j) env \<Rightarrow> bool" where
  "external_ok E \<longleftrightarrow> rocks_ok (rocks E) \<and> rocks_reliable (rocks E) \<and> protobuf_ok E \<and> plain_env E"

lemma external_okD:
  assumes "external_ok E"
  shows "rocks_ok (rocks E)" "rocks_reliable (rocks E)" "protobuf_ok E" "plain_env E"
  using assms by (simp_all add: external_ok_def)

lemma coherentD:
  assumes "coherent E w"
  shows coherent_sorted: "sorted_map (tables w t)"
    and coherent_entry: "map_of (tables w t) txid = Some e \<Longrightarrow> entry_ok E t txid e"
    and coherent_db: "rk_map (rocks E) (db w) k = Some v \<Longrightarrow>
          \<exists>t m. plain_info m \<and> k = dbkey t (crosstxid m) \<and> v = pb_serialize E m"
    and coherent_mirror: "plain txid \<Longrightarrow>
          txid \<in> set (keys (tables w t)) \<longleftrightarrow> rk_map (rocks E) (db w) (dbkey t txid) \<noteq> None"
  using assms unfolding coherent_def by blast+

lemma trace_free_coherent: "trace_free (coherent E)"
  by (simp add: trace_free_def coherent_def)

lemma trace_free_conj: "trace_free I \<Longrightarrow> trace_free J \<Longrightarrow> trace_free (\<lambda>w. I w \<and> J w)"
  unfolding trace_free_def by blast

lemma plain_info_id: "plain_info m \<Longrightarrow> plain (crosstxid m)"
  by (simp add: plain_info_def)

lemma entry_ok_plain: "entry_ok E t txid e \<Longrightarrow> plain txid"
  by (auto simp: entry_ok_def dest: plain_info_id)

lemma make_CrossTx_simps [simp]:
  "cross_tx_id (make_CrossTx s m) = crosstxid m"
  "cross_tx_info (make_CrossTx s m) = s m"
  "send_ack_timeout (make_CrossTx s m) = None"
  "send_tx_timeout (make_CrossTx s m) = timeout m"
  "send_tx_hash (make_CrossTx s m) = sendtxhash m"
  "send_ack_to_l1_hash (make_CrossTx s m) = sendacktol1hash m"
  "send_ack_to_l2_hash (make_CrossTx s m) = sendacktol2hash m"
  "(make_CrossTx s m)\<lparr>send_ack_timeout := None\<rparr> = make_CrossTx s m"
  by (simp_all add: make_CrossTx_def)

text \<open>What the handlers read out of an entry: its message, with the entry's id.\<close>

lemma entry_ok_parse:
  assumes "protobuf_ok E" and "entry_ok E t txid e"
  obtains m where "pb_parse E (cross_tx_info e) = (True, m)" "plain_info m" "crosstxid m = txid"
    "e\<lparr>send_ack_timeout := None\<rparr> = make_CrossTx (pb_serialize E) m"
proof -
  from assms(2) obtain m where m: "plain_info m" "crosstxid m = txid"
    "e\<lparr>send_ack_timeout := None\<rparr> = make_CrossTx (pb_serialize E) m"
    by (auto simp: entry_ok_def)
  from m(3) have "cross_tx_info e = pb_serialize E m"
    by (metis CrossTx.ext_inject CrossTx.surjective CrossTx.update_convs(5) make_CrossTx_simps(2))
  with assms(1) m that show thesis by (simp add: protobuf_ok_def)
qed

section \<open>Saving and clearing keep the invariant\<close>

lemma entry_ok_made:
  "plain_info m \<Longrightarrow> \<not> ack_table t \<Longrightarrow> entry_ok E t (crosstxid m) (make_CrossTx (pb_serialize E) m)"
  by (auto simp: entry_ok_def)

lemma entry_ok_stamped:
  "plain_info m \<Longrightarrow>
   entry_ok E t (crosstxid m) ((make_CrossTx (pb_serialize E) m)\<lparr>send_ack_timeout := Some v\<rparr>)"
  by (auto simp: entry_ok_def)

lemma entry_ok_restamp: "entry_ok E t txid e \<Longrightarrow> entry_ok E t txid (e\<lparr>send_ack_timeout := Some v\<rparr>)"
  by (simp add: entry_ok_def)

lemma coherent_save:
  assumes co: "coherent E w" and ro: "rocks_ok (rocks E)" and rr: "rocks_reliable (rocks E)"
    and m: "plain_info m" and e: "entry_ok E t (crosstxid m) e"
    and put: "Manager_DBPut (rocks E) (dbkey t (crosstxid m)) (pb_serialize E m) (db w) = (ok, d')"
    and w': "db w' = d'" "tables w' = (tables w)(t := m_emplace (cross_tx_id e) e (tables w t))"
  shows "coherent E w'"
proof -
  have ok: ok using DBPut_ok [OF rr] put by (metis fst_conv)
  have map': "rk_map (rocks E) d' = (rk_map (rocks E) (db w))(dbkey t (crosstxid m) \<mapsto> pb_serialize E m)"
    using DBPut_map [OF ro put] ok by simp
  have id: "cross_tx_id e = crosstxid m" using e by (simp add: entry_ok_def)
  have pl: "plain (crosstxid m)" using m by (rule plain_info_id)
  have "sorted_map (tables w' u)" for u
    using coherent_sorted [OF co] by (simp add: w')
  moreover have "entry_ok E u txid e'" if "map_of (tables w' u) txid = Some e'" for u txid e'
    using that coherent_entry [OF co] e id
      smap.entries_emplace [OF coherent_sorted [OF co, of t], where Q = "entry_ok E t" and k = "crosstxid m" and v = e]
    by (cases "u = t") (auto simp: w')
  moreover have "\<exists>u n. plain_info n \<and> k = dbkey u (crosstxid n) \<and> v = pb_serialize E n"
    if "rk_map (rocks E) (db w') k = Some v" for k v
    using that coherent_db [OF co] m by (auto simp: w' map' split: if_splits)
  moreover have "\<forall>u i. plain i \<longrightarrow> (i \<in> set (keys (tables w' u)) \<longleftrightarrow> rk_map (rocks E) (db w') (dbkey u i) \<noteq> None)"
    using agent_keys.mirrored_put [of "\<lambda>u. set (keys (tables w u))" "rk_map (rocks E) (db w)" "crosstxid m" t]
      coherent_mirror [OF co] pl
    by (auto simp: w' map' id)
  ultimately show ?thesis by (simp add: coherent_def)
qed

lemma coherent_clear:
  assumes co: "coherent E w" and ro: "rocks_ok (rocks E)" and rr: "rocks_reliable (rocks E)"
    and pl: "plain txid"
    and del: "Manager_DBDelete (rocks E) (dbkey t txid) (db w) = (ok, d')"
    and w': "db w' = d'" "tables w' = (tables w)(t := m_erase txid (tables w t))"
  shows "coherent E w'"
proof -
  have ok: ok using DBDelete_ok [OF rr] del by (metis fst_conv)
  have map': "rk_map (rocks E) d' = (rk_map (rocks E) (db w))(dbkey t txid := None)"
    using DBDelete_map [OF ro del] ok by simp
  have "sorted_map (tables w' u)" for u
    using coherent_sorted [OF co] by (simp add: w')
  moreover have "entry_ok E u i e'" if "map_of (tables w' u) i = Some e'" for u i e'
    using that coherent_entry [OF co]
      smap.entries_erase [OF coherent_sorted [OF co, of t], where Q = "entry_ok E t"]
    by (cases "u = t") (auto simp: w')
  moreover have "\<exists>u n. plain_info n \<and> k = dbkey u (crosstxid n) \<and> v = pb_serialize E n"
    if "rk_map (rocks E) (db w') k = Some v" for k v
    using that coherent_db [OF co] by (auto simp: w' map' split: if_splits)
  moreover have "\<forall>u i. plain i \<longrightarrow> (i \<in> set (keys (tables w' u)) \<longleftrightarrow> rk_map (rocks E) (db w') (dbkey u i) \<noteq> None)"
    using agent_keys.mirrored_delete [of "\<lambda>u. set (keys (tables w u))" "rk_map (rocks E) (db w)" txid t]
      coherent_mirror [OF co] coherent_sorted [OF co] pl
    by (auto simp: w' map' agent_keys.key_inject)
  ultimately show ?thesis by (simp add: coherent_def)
qed

lemma coherent_set_ack_timeout: "coherent E w \<Longrightarrow> coherent E (set_ack_timeout t txid v w)"
proof (cases "map_of (tables w t) txid")
  case (Some e)
  assume co: "coherent E w"
  have present: "txid \<in> set (keys (tables w t))" using Some by (rule map_of_Some_keys)
  have "keys (m_put txid (e\<lparr>send_ack_timeout := Some v\<rparr>) (tables w t)) = keys (tables w t)"
    using put_keys_present [OF coherent_sorted [OF co] present] .
  then show ?thesis
    using co Some coherent_entry [OF co] coherent_sorted [OF co]
    by (auto simp: set_ack_timeout_def coherent_def map_of_put entry_ok_restamp)
qed (simp add: set_ack_timeout_def)

lemma keeps_coherent_restamp [keeps_intros]: "keeps (coherent E) (change (set_ack_timeout t txid v))"
  by (rule keeps_change) (rule coherent_set_ack_timeout)

lemma keeps_coherent_save_entry:
  assumes "external_ok E" and "plain_info m" and "\<not> ack_table t"
  shows "keeps (coherent E) (save_entry E t (Some (make_CrossTx (pb_serialize E) m)))"
  using coherent_save [OF _ external_okD(1,2) [OF assms(1)] assms(2) entry_ok_made [OF assms(2,3)]]
  by (auto simp: keeps_def save_entry_def andThen_def DBPut_def change_def ret_def emplace_entry_def
      split: prod.splits)

lemma keeps_coherent_save_then_stamp:
  assumes "external_ok E" and "plain_info m"
  shows "keeps (coherent E) (save_then_stamp E t (Some (make_CrossTx (pb_serialize E) m)))"
  using coherent_save [OF _ external_okD(1,2) [OF assms(1)] assms(2) entry_ok_stamped [OF assms(2)]]
  by (auto simp: keeps_def save_then_stamp_def andThen_def DBPut_def change_def ret_def emplace_entry_def
      HighResolution_def split: prod.splits)

lemma keeps_coherent_stamp_then_save:
  assumes "external_ok E" and "plain_info m"
  shows "keeps (coherent E) (stamp_then_save E t (Some (make_CrossTx (pb_serialize E) m)))"
  using coherent_save [OF _ external_okD(1,2) [OF assms(1)] assms(2) entry_ok_stamped [OF assms(2)]]
  by (auto simp: keeps_def stamp_then_save_def andThen_def DBPut_def change_def ret_def emplace_entry_def
      HighResolution_def log_io_def split: prod.splits)

lemma keeps_coherent_clear_entry:
  assumes "external_ok E" and "plain txid"
  shows "keeps (coherent E) (clear_entry E t txid)"
  using coherent_clear [OF _ external_okD(1,2) [OF assms(1)] assms(2)]
  by (auto simp: keeps_def clear_entry_def andThen_def DBDelete_def change_def ret_def erase_entry_def
      split: prod.splits)

section \<open>The loop keeps what its body keeps\<close>

lemma yields_find_entry:
  "(\<And>w e. I w \<Longrightarrow> map_of (tables w t) k = Some e \<Longrightarrow> Q e) \<Longrightarrow> yields I (find_entry t k) Q"
  by (auto simp: yields_def find_entry_def split: option.splits)

lemma keeps_find_entry [keeps_intros]: "keeps I (find_entry t k)"
  by (auto simp: keeps_def find_entry_def split: option.splits)

lemma keeps_iterate:
  assumes "\<And>k e. entry_ok E t k e \<Longrightarrow> keeps I (body k e)"
    and "\<And>w k e. I w \<Longrightarrow> map_of (tables w t) k = Some e \<Longrightarrow> entry_ok E t k e"
  shows "keeps I (iterate n t body k)"
  using assms
proof (induction n t body k rule: iterate.induct)
  case (3 n t body k)
  have "keeps I (iterate n t body k')" for k'
    by (rule "3.IH") (use "3.prems" in blast)+
  moreover have "yields I (find_entry t k) (entry_ok E t k)"
    by (rule yields_find_entry) (rule "3.prems"(2))
  ultimately show ?case
    unfolding iterate.simps
    by (intro keeps_andThen_yields [where Q = "entry_ok E t k"] keeps_andThen keeps_find_entry keeps_read
        "3.prems"(1))
qed (simp_all add: keeps_ret keeps_fault)

lemma keeps_for_each:
  assumes "\<And>k e. entry_ok E t k e \<Longrightarrow> keeps I (body k e)"
    and "\<And>w k e. I w \<Longrightarrow> map_of (tables w t) k = Some e \<Longrightarrow> entry_ok E t k e"
  shows "keeps I (for_each t body)"
proof -
  have "keeps I (iterate n t body k)" for n k
    by (rule keeps_iterate) (use assms in blast)+
  then show ?thesis by (simp add: keeps_def for_each_def del: iterate.simps)
qed

lemma keeps_coherent_for_each:
  "(\<And>k e. entry_ok E t k e \<Longrightarrow> keeps (coherent E) (body k e)) \<Longrightarrow> keeps (coherent E) (for_each t body)"
  by (rule keeps_for_each) (auto dest: coherent_entry)

lemma keeps_weaken_andThen:
  assumes "yields I m Q" and "\<And>a. Q a \<Longrightarrow> keeps I (k a)"
  shows "keeps I (andThen m k)"
  using assms by (rule keeps_andThen_yields)

lemma keeps_coherent_only_trace: "only_trace m \<Longrightarrow> keeps (coherent E) m"
  by (rule only_trace_keeps [OF _ trace_free_coherent])

lemma plain_info_hashes [simp]:
  "plain_info m \<Longrightarrow> plain h \<Longrightarrow> plain_info (m\<lparr>sendtxhash := h\<rparr>)"
  "plain_info m \<Longrightarrow> plain h \<Longrightarrow> plain_info (m\<lparr>sendacktol1hash := h\<rparr>)"
  "plain_info m \<Longrightarrow> plain h \<Longrightarrow> plain_info (m\<lparr>sendacktol2hash := h\<rparr>)"
  "plain_info m \<Longrightarrow> fits32 s \<Longrightarrow> plain_info (m\<lparr>status := s\<rparr>)"
  "plain_info m \<Longrightarrow> fits64 n \<Longrightarrow> plain_info (m\<lparr>confirmseq := n\<rparr>)"
  by (simp_all add: plain_info_def)

lemma plain_new_CrossTxInfo [simp]: "plain_info new_CrossTxInfo"
  by (simp add: plain_info_def new_CrossTxInfo_def fits32_def fits64_def)

lemma fits32_results [simp]:
  "fits32 CROSS_RESULT_INIT" "fits32 CROSS_RESULT_SUCCESS" "fits32 CROSS_RESULT_FAILED" "fits32 CROSS_RESULT_TIMEOUT"
  by (simp_all add: cross_results fits32_def)

text \<open>The shape every sender has: submit, then save the message with the hash it got.\<close>

lemma keeps_send_and_save:
  assumes "external_ok E"
    and "\<And>h. plain h \<Longrightarrow> keeps (coherent E) (save h)"
  shows "keeps (coherent E)
     (andThen (send_transaction E cfg fresh input amt) (\<lambda>r.
      case r of None \<Rightarrow> ret False | Some txhash \<Rightarrow> andThen (save txhash) (\<lambda>_. ret True)))"
  by (rule keeps_andThen_yields [OF yields_send_transaction [OF external_okD(4) [OF assms(1)] trace_free_coherent]])
     (auto split: option.splits simp: plain_opt_def intro!: keeps_ret keeps_andThen assms(2))

text \<open>The message the parser leaves of an entry's text is plain and has the entry's id.\<close>

lemma entry_ok_message:
  assumes "external_ok E" and "entry_ok E t k e"
  shows "plain_info (snd (pb_parse E (cross_tx_info e)))" "crosstxid (snd (pb_parse E (cross_tx_info e))) = k"
proof -
  obtain m where "pb_parse E (cross_tx_info e) = (True, m)" "plain_info m" "crosstxid m = k"
    using entry_ok_parse [OF external_okD(3) [OF assms(1)] assms(2)] by metis
  then show "plain_info (snd (pb_parse E (cross_tx_info e)))" "crosstxid (snd (pb_parse E (cross_tx_info e))) = k"
    by simp_all
qed

lemma entry_ok_id: "entry_ok E t k e \<Longrightarrow> cross_tx_id e = k"
  by (simp add: entry_ok_def)

end
