(* ===== verification/L1_To_L2.thy ===== *)
theory L1_To_L2
  imports Pending
begin

text \<open>
  \<open>glue/layer1_to_layer2_handle.cpp\<close>: transactions that start on layer 1. Every operation of
  \<open>Layer1ToLayer2Handle\<close> is a definition here, with the names of the code and the prefix \<open>A_\<close>
  (the other handle has operations of the same names). A handler returns \<open>Some\<close> value for a
  value it would fill in, and the \<open>bool\<close> the code returns otherwise. \<open>LOG\<close> statements are left
  out.
\<close>

section \<open>Texts sent to the contracts\<close>

definition quoted :: "string \<Rightarrow> string" where
  "quoted s = [CHR 0x27] @ s @ [CHR 0x27]"

text \<open>\<open>Format("'%s',%s,%s,%ld,%ld", ...)\<close> and \<open>Format("'%s',%d,'%s',%ld", ...)\<close>\<close>

definition send_tx_args :: "CrossTxInfo \<Rightarrow> string" where
  "send_tx_args m =
     Format (quoted (c_str (crosstxid m)) @ '','' @ c_str (srcbid m) @ '','' @ c_str (destbid m) @ '','' @
             ToString (amount m) @ '','' @ ToString (timeout m))"

definition send_ack_args :: "CrossTxInfo \<Rightarrow> string \<Rightarrow> string" where
  "send_ack_args m error_desc =
     Format (quoted (c_str (crosstxid m)) @ '','' @ ToString (status m) @ '','' @
             quoted (c_str error_desc) @ '','' @ ToString (executetimestamp m))"

definition contract_input :: "('d, 'j) env \<Rightarrow> string \<Rightarrow> string \<Rightarrow> string" where
  "contract_input E function args =
     js_toStyledString (json E) (JObj [(''function'', JStr function), (''args'', JStr args)])"

definition send_tx_input :: "('d, 'j) env \<Rightarrow> CrossTxInfo \<Rightarrow> string" where
  "send_tx_input E m =
     contract_input E ''SendTx(bytes,address,address,uint256,uint256)'' (send_tx_args m)"

definition send_ack_input :: "('d, 'j) env \<Rightarrow> CrossTxInfo \<Rightarrow> string \<Rightarrow> string" where
  "send_ack_input E m error_desc =
     contract_input E ''SendAckedTx(bytes,uint8,string,uint256)'' (send_ack_args m error_desc)"

section \<open>Operations\<close>

definition A_sendTransactionToLayer2 :: "('d, 'j) env \<Rightarrow> string \<Rightarrow> int \<Rightarrow> (string option, 'd) agent" where
  "A_sendTransactionToLayer2 E input amt = send_transaction E (layer2 E) (Layer2Transaction_new E) input amt"

definition A_sendTransactionToLayer1 :: "('d, 'j) env \<Rightarrow> string \<Rightarrow> int \<Rightarrow> (string option, 'd) agent" where
  "A_sendTransactionToLayer1 E input amt = send_transaction E (layer1 E) (Layer1Transaction_new E) input amt"

definition A_SaveSendTxInfo :: "('d, 'j) env \<Rightarrow> CrossTx option \<Rightarrow> (bool, 'd) agent" where
  "A_SaveSendTxInfo E p = save_entry E L1_send_tx_info_map p"

definition A_ClearSendTxInfo :: "('d, 'j) env \<Rightarrow> string \<Rightarrow> (bool, 'd) agent" where
  "A_ClearSendTxInfo E txid = clear_entry E L1_send_tx_info_map txid"

definition A_SaveSendAckInfo :: "('d, 'j) env \<Rightarrow> CrossTx option \<Rightarrow> (bool, 'd) agent" where
  "A_SaveSendAckInfo E p = save_then_stamp E L1_send_ack_info_map p"

definition A_ClearSendAckInfo :: "('d, 'j) env \<Rightarrow> string \<Rightarrow> (bool, 'd) agent" where
  "A_ClearSendAckInfo E txid = clear_entry E L1_send_ack_info_map txid"

definition A_SaveReplyAckInfo :: "('d, 'j) env \<Rightarrow> CrossTx option \<Rightarrow> (bool, 'd) agent" where
  "A_SaveReplyAckInfo E p = save_then_stamp E L1_reply_ack_info_map p"

definition A_ClearReplyAckInfo :: "('d, 'j) env \<Rightarrow> string \<Rightarrow> (bool, 'd) agent" where
  "A_ClearReplyAckInfo E txid = clear_entry E L1_reply_ack_info_map txid"

definition A_SendTxToLayer2 :: "('d, 'j) env \<Rightarrow> CrossTxInfo \<Rightarrow> (bool, 'd) agent" where
  "A_SendTxToLayer2 E m =
     andThen (A_sendTransactionToLayer2 E (send_tx_input E m) (amount m)) (\<lambda>r.
     case r of None \<Rightarrow> ret False | Some txhash \<Rightarrow>
       andThen (A_SaveSendTxInfo E (Some (make_CrossTx (pb_serialize E) (m\<lparr>sendtxhash := txhash\<rparr>)))) (\<lambda>_.
       ret True))"

definition A_error_desc :: "CrossTxInfo \<Rightarrow> string" where
  "A_error_desc m = (if status m > CROSS_RESULT_SUCCESS then ''send tx failed'' else ''success'')"

definition A_SendAckToLayer1 :: "('d, 'j) env \<Rightarrow> CrossTxInfo \<Rightarrow> (bool, 'd) agent" where
  "A_SendAckToLayer1 E m =
     andThen (A_sendTransactionToLayer1 E (send_ack_input E m (A_error_desc m)) 0) (\<lambda>r.
     case r of None \<Rightarrow> ret False | Some txhash \<Rightarrow>
       andThen (A_SaveSendAckInfo E (Some (make_CrossTx (pb_serialize E) (m\<lparr>sendacktol1hash := txhash\<rparr>)))) (\<lambda>_.
       ret True))"

definition A_ReplyAckToLayer2 :: "('d, 'j) env \<Rightarrow> CrossTxInfo \<Rightarrow> (bool, 'd) agent" where
  "A_ReplyAckToLayer2 E m =
     andThen (A_sendTransactionToLayer2 E (send_ack_input E m (A_error_desc m)) 0) (\<lambda>r.
     case r of None \<Rightarrow> ret False | Some txhash \<Rightarrow>
       andThen (A_SaveReplyAckInfo E (Some (make_CrossTx (pb_serialize E) (m\<lparr>sendacktol2hash := txhash\<rparr>)))) (\<lambda>_.
       ret True))"

text \<open>The parser of the two texts a contract answers with. An index past the end of a list is
  undefined behaviour; the destination and the error text may be missing.\<close>

definition A_makeCrossTxInfo :: "CrossTxInfo \<Rightarrow> string \<Rightarrow> string \<Rightarrow> (CrossTxInfo option, 's) prog" where
  "A_makeCrossTxInfo m cross_info1 cross_info2 =
     (if cross_info1 = [] \<or> cross_info2 = [] then ret None
      else
        andThen (orFault Thrown (strip_brackets cross_info1)) (\<lambda>info1.
        let info1_list = comma_items [] info1 in
        andThen (orFault Thrown (strip_brackets cross_info2)) (\<lambda>info2.
        let info2_list = comma_items [] info2 in
        andThen (list_at info1_list 2) (\<lambda>txid.
        andThen (list_at info1_list 3) (\<lambda>amt.
        andThen (list_at info1_list 4) (\<lambda>src.
        let dest = (if length info1_list > 5 then info1_list ! 5 else destbid m) in
        andThen (list_at info2_list 0) (\<lambda>st.
        andThen (list_at info2_list 1) (\<lambda>refund.
        andThen (list_at info2_list 2) (\<lambda>created.
        andThen (list_at info2_list 3) (\<lambda>executed.
        andThen (list_at info2_list 4) (\<lambda>tmo.
        let desc = (if length info2_list > 5 then info2_list ! 5 else []) in
        ret (Some (m\<lparr>crosstxid := txid, amount := Stol amt, srcbid := src, destbid := dest,
          status := Stoi st, refunded := Stoi refund, createtimestamp := Stol created,
          executetimestamp := Stol executed, timeout := Stol tmo, errordesc := desc\<rparr>)))))))))))))"

definition A_handleSendTxEvent :: "('d, 'j) env \<Rightarrow> string \<Rightarrow> int \<Rightarrow> (bool, 'd) agent" where
  "A_handleSendTxEvent E txid st =
     andThen (GetLayer2CrossTxInfo E (http_endpoint (layer2 E)) txid) (\<lambda>infos.
     case infos of None \<Rightarrow> ret False | Some (info1, info2) \<Rightarrow>
       andThen (A_makeCrossTxInfo new_CrossTxInfo info1 info2) (\<lambda>r.
       case r of None \<Rightarrow> ret False | Some m \<Rightarrow>
         andThen (A_SendAckToLayer1 E (m\<lparr>status := i32 st\<rparr>)) (\<lambda>sent.
         if sent then andThen (A_ClearSendTxInfo E txid) (\<lambda>_. ret True) else ret False)))"

definition A_HandleStartTxEvent :: "('d, 'j) env \<Rightarrow> string \<Rightarrow> (bool, 'd) agent" where
  "A_HandleStartTxEvent E txid =
     andThen (GetLayer1CrossTxInfo E (http_endpoint (layer1 E)) txid) (\<lambda>infos.
     case infos of None \<Rightarrow> ret False | Some (info1, info2) \<Rightarrow>
       andThen (A_makeCrossTxInfo new_CrossTxInfo info1 info2) (\<lambda>r.
       case r of None \<Rightarrow> ret False | Some m \<Rightarrow>
         andThen (A_SendTxToLayer2 E m) (\<lambda>sent.
         if \<not> sent then
           andThen (A_SendAckToLayer1 E (m\<lparr>status := CROSS_RESULT_FAILED\<rparr>)) (\<lambda>_. ret sent)
         else ret sent)))"

definition A_HandleSendTxEvent :: "('d, 'j) env \<Rightarrow> string \<Rightarrow> (bool, 'd) agent" where
  "A_HandleSendTxEvent E txid = A_handleSendTxEvent E txid CROSS_RESULT_SUCCESS"

definition A_HandleSendAckdTxEvent :: "('d, 'j) env \<Rightarrow> string \<Rightarrow> (bool, 'd) agent" where
  "A_HandleSendAckdTxEvent E txid =
     andThen (GetLayer1CrossTxInfo E (http_endpoint (layer1 E)) txid) (\<lambda>infos.
     case infos of None \<Rightarrow> ret False | Some (info1, info2) \<Rightarrow>
       andThen (A_makeCrossTxInfo new_CrossTxInfo info1 info2) (\<lambda>r.
       case r of None \<Rightarrow> ret False | Some m \<Rightarrow>
         andThen (A_ReplyAckToLayer2 E m) (\<lambda>sent.
         if sent then andThen (A_ClearSendAckInfo E txid) (\<lambda>_. ret True) else ret False)))"

text \<open>One turn of the loop of each timeout check. The parse result is not tested; the message is
  what the parser left.\<close>

definition A_SendTxToLayer2TimeOut_body ::
  "('d, 'j) env \<Rightarrow> int \<Rightarrow> string \<Rightarrow> CrossTx \<Rightarrow> (unit, 'd) agent" where
  "A_SendTxToLayer2TimeOut_body E current_time k e =
     (if send_tx_timeout e < current_time then
        andThen (GetTxResult E (http_endpoint (layer2 E)) (send_tx_hash e)) (\<lambda>found.
        if found then andThen (A_handleSendTxEvent E (cross_tx_id e) CROSS_RESULT_SUCCESS) (\<lambda>_. ret ())
        else (let m = (snd (pb_parse E (cross_tx_info e)))\<lparr>status := CROSS_RESULT_TIMEOUT\<rparr> in
              andThen (A_SendAckToLayer1 E m) (\<lambda>sent.
              if sent then andThen (A_ClearSendTxInfo E (c_str (crosstxid m))) (\<lambda>_. ret ()) else ret ())))
      else ret ())"

definition A_SendTxToLayer2TimeOut :: "('d, 'j) env \<Rightarrow> (bool, 'd) agent" where
  "A_SendTxToLayer2TimeOut E =
     andThen (HighResolution E) (\<lambda>current_time.
     andThen (for_each L1_send_tx_info_map (A_SendTxToLayer2TimeOut_body E current_time)) (\<lambda>_. ret True))"

definition A_SendAckToLayer1TimeOut_body ::
  "('d, 'j) env \<Rightarrow> int \<Rightarrow> string \<Rightarrow> CrossTx \<Rightarrow> (unit, 'd) agent" where
  "A_SendAckToLayer1TimeOut_body E current_time k e =
     andThen (orFault Uninitialised (send_ack_timeout e)) (\<lambda>due.
     if due < current_time then
       (let m = snd (pb_parse E (cross_tx_info e)) in
        if status m = CROSS_RESULT_SUCCESS then
          andThen (A_SendAckToLayer1 E m) (\<lambda>_.
          change (set_ack_timeout L1_send_ack_info_map k (current_time + ack_period)))
        else
          andThen (GetTxResult E (http_endpoint (layer1 E)) (send_ack_to_l1_hash e)) (\<lambda>found.
          if found then andThen (A_ClearSendAckInfo E k) (\<lambda>_. ret ())
          else
            andThen (GetCrossTxStatus E (http_endpoint (layer1 E)) k) (\<lambda>st.
            if st \<noteq> CROSS_RESULT_INIT then andThen (A_ClearSendAckInfo E k) (\<lambda>_. ret ())
            else andThen (A_SendAckToLayer1 E m) (\<lambda>_.
                 change (set_ack_timeout L1_send_ack_info_map k (current_time + ack_period))))))
     else ret ())"

definition A_SendAckToLayer1TimeOut :: "('d, 'j) env \<Rightarrow> (bool, 'd) agent" where
  "A_SendAckToLayer1TimeOut E =
     andThen (HighResolution E) (\<lambda>current_time.
     andThen (for_each L1_send_ack_info_map (A_SendAckToLayer1TimeOut_body E current_time)) (\<lambda>_. ret True))"

definition A_ReplyAckToLayer2TimeOut_body ::
  "('d, 'j) env \<Rightarrow> int \<Rightarrow> string \<Rightarrow> CrossTx \<Rightarrow> (unit, 'd) agent" where
  "A_ReplyAckToLayer2TimeOut_body E current_time k e =
     andThen (orFault Uninitialised (send_ack_timeout e)) (\<lambda>due.
     if due < current_time then
       (let m = snd (pb_parse E (cross_tx_info e)) in
        andThen (GetTxResult E (http_endpoint (layer2 E)) (send_ack_to_l2_hash e)) (\<lambda>found.
        if found then andThen (A_ClearReplyAckInfo E k) (\<lambda>_. ret ())
        else
          andThen (GetCrossTxStatus E (http_endpoint (layer2 E)) k) (\<lambda>st.
          if st \<noteq> CROSS_RESULT_INIT then andThen (A_ClearReplyAckInfo E k) (\<lambda>_. ret ())
          else andThen (A_ReplyAckToLayer2 E m) (\<lambda>_.
               change (set_ack_timeout L1_reply_ack_info_map k (current_time + ack_period))))))
     else ret ())"

definition A_ReplyAckToLayer2TimeOut :: "('d, 'j) env \<Rightarrow> (bool, 'd) agent" where
  "A_ReplyAckToLayer2TimeOut E =
     andThen (HighResolution E) (\<lambda>current_time.
     andThen (for_each L1_reply_ack_info_map (A_ReplyAckToLayer2TimeOut_body E current_time)) (\<lambda>_. ret True))"

definition A_OnTimer :: "('d, 'j) env \<Rightarrow> int \<Rightarrow> (unit, 'd) agent" where
  "A_OnTimer E current_time =
     andThen (A_SendTxToLayer2TimeOut E) (\<lambda>_.
     andThen (A_SendAckToLayer1TimeOut E) (\<lambda>_.
     andThen (A_ReplyAckToLayer2TimeOut E) (\<lambda>_. ret ())))"

definition A_Initialize :: "('d, 'j) env \<Rightarrow> (bool, 'd) agent" where
  "A_Initialize E =
     andThen (load_table E L1_send_tx_info_map False) (\<lambda>_.
     andThen (load_table E L1_send_ack_info_map True) (\<lambda>_.
     andThen (load_table E L1_reply_ack_info_map True) (\<lambda>_. ret True)))"

section \<open>Every operation keeps the tables and the database in step\<close>

lemma yields_list_at: "(\<And>x. x \<in> set l \<Longrightarrow> Q x) \<Longrightarrow> yields I (list_at l i) Q"
  by (auto simp: list_at_def yields_ret yields_fault)

definition plain_msg :: "CrossTxInfo option \<Rightarrow> bool" where
  "plain_msg r \<longleftrightarrow> (\<forall>m. r = Some m \<longrightarrow> plain_info m)"

lemma plain_msg_Some: "plain_info m \<Longrightarrow> plain_msg (Some m)"
  by (simp add: plain_msg_def)

lemma plain_info_parsed:
  assumes "plain_info m" "plain txid" "plain src" "plain dest" "plain desc"
  shows "plain_info (m\<lparr>crosstxid := txid, amount := Stol amt, srcbid := src, destbid := dest,
    status := Stoi st, refunded := Stoi refund, createtimestamp := Stol created,
    executetimestamp := Stol executed, timeout := Stol tmo, errordesc := desc\<rparr>)"
  using assms by (simp add: plain_info_def fits64_Stol fits32_Stoi)

lemma yields_A_makeCrossTxInfo:
  assumes "plain info1" and "plain info2" and "plain_info m"
  shows "yields I (A_makeCrossTxInfo m info1 info2) plain_msg"
proof -
  have strip: "yields I (orFault Thrown (strip_brackets info)) plain" if "plain info" for info
    using that by (intro yields_orFault) (rule plain_strip_brackets)
  have item: "yields I (list_at (comma_items [] info) i) plain" if "plain info" for info i
    using that by (intro yields_list_at) (rule plain_comma_items)
  have nth: "plain (comma_items [] info ! 5)" if "plain info" "5 < length (comma_items [] info)" for info
    using that by (auto intro: plain_comma_items [OF that(1)])
  have none: "yields I (ret None) plain_msg" by (rule yields_ret) (simp add: plain_msg_def)
  have dest: "plain (destbid m)" using assms(3) by (simp add: plain_info_def)
  show ?thesis
    unfolding A_makeCrossTxInfo_def Let_def
    apply (rule yields_if, rule none)
    apply (rule yields_andThen [OF strip], rule assms(1))
    apply (rule yields_andThen [OF strip], rule assms(2))
    apply (rule yields_andThen [OF item], assumption)+
    apply (rule yields_ret)
    apply (rule plain_msg_Some)
    apply (rule plain_info_parsed [OF assms(3)], assumption, assumption)
    using nth dest by simp_all
qed

lemma keeps_A_Save:
  assumes "external_ok E" and "plain_info m"
  shows "keeps (coherent E) (A_SaveSendTxInfo E (Some (make_CrossTx (pb_serialize E) m)))"
    and "keeps (coherent E) (A_SaveSendAckInfo E (Some (make_CrossTx (pb_serialize E) m)))"
    and "keeps (coherent E) (A_SaveReplyAckInfo E (Some (make_CrossTx (pb_serialize E) m)))"
  unfolding A_SaveSendTxInfo_def A_SaveSendAckInfo_def A_SaveReplyAckInfo_def
  using assms by (simp_all add: keeps_coherent_save_entry keeps_coherent_save_then_stamp)

lemma keeps_A_Clear:
  assumes "external_ok E" and "plain txid"
  shows "keeps (coherent E) (A_ClearSendTxInfo E txid)"
    and "keeps (coherent E) (A_ClearSendAckInfo E txid)"
    and "keeps (coherent E) (A_ClearReplyAckInfo E txid)"
  unfolding A_ClearSendTxInfo_def A_ClearSendAckInfo_def A_ClearReplyAckInfo_def
  using assms by (simp_all add: keeps_coherent_clear_entry)

lemma keeps_A_Send:
  assumes "external_ok E" and "plain_info m"
  shows "keeps (coherent E) (A_SendTxToLayer2 E m)"
    and "keeps (coherent E) (A_SendAckToLayer1 E m)"
    and "keeps (coherent E) (A_ReplyAckToLayer2 E m)"
  unfolding A_SendTxToLayer2_def A_SendAckToLayer1_def A_ReplyAckToLayer2_def
    A_sendTransactionToLayer1_def A_sendTransactionToLayer2_def
  using assms by (intro keeps_send_and_save keeps_A_Save; simp)+

lemma keeps_A_message:
  assumes "yields I get plain_pair"
    and "\<And>m. plain_info m \<Longrightarrow> keeps I (k m)"
  shows "keeps I
     (andThen get (\<lambda>infos. case infos of None \<Rightarrow> ret False | Some (info1, info2) \<Rightarrow>
       andThen (A_makeCrossTxInfo new_CrossTxInfo info1 info2) (\<lambda>r. case r of None \<Rightarrow> ret False | Some m \<Rightarrow> k m)))"
proof (rule keeps_andThen_yields [OF assms(1)])
  fix infos assume pp: "plain_pair infos"
  show "keeps I (case infos of None \<Rightarrow> ret False | Some (info1, info2) \<Rightarrow>
       andThen (A_makeCrossTxInfo new_CrossTxInfo info1 info2) (\<lambda>r. case r of None \<Rightarrow> ret False | Some m \<Rightarrow> k m))"
  proof (cases infos)
    case (Some p)
    obtain info1 info2 where p: "p = (info1, info2)" by fastforce
    have "yields I (A_makeCrossTxInfo new_CrossTxInfo info1 info2) plain_msg"
      using pp Some p by (intro yields_A_makeCrossTxInfo) (simp_all add: plain_pair_def)
    then show ?thesis
      unfolding Some p option.case prod.case
      by (rule keeps_andThen_yields) (auto split: option.splits simp: plain_msg_def intro!: keeps_ret assms(2))
  qed (simp add: keeps_ret)
qed

lemma yields_infos:
  "external_ok E \<Longrightarrow> yields (coherent E) (GetLayer1CrossTxInfo E url txid) plain_pair"
  "external_ok E \<Longrightarrow> yields (coherent E) (GetLayer2CrossTxInfo E url txid) plain_pair"
  by (intro yields_GetCrossTxInfo external_okD(4) trace_free_coherent; assumption)+

lemma keeps_A_handleSendTxEvent:
  "external_ok E \<Longrightarrow> plain txid \<Longrightarrow> keeps (coherent E) (A_handleSendTxEvent E txid st)"
  unfolding A_handleSendTxEvent_def
  by (intro keeps_A_message yields_infos keeps_andThen keeps_if keeps_ret keeps_A_Send keeps_A_Clear
      plain_info_hashes fits32_i32)

lemma keeps_A_HandleStartTxEvent:
  "external_ok E \<Longrightarrow> keeps (coherent E) (A_HandleStartTxEvent E txid)"
  unfolding A_HandleStartTxEvent_def
  by (intro keeps_A_message yields_infos keeps_andThen keeps_if keeps_ret keeps_A_Send
      plain_info_hashes fits32_results)

lemma keeps_A_HandleSendAckdTxEvent:
  "external_ok E \<Longrightarrow> plain txid \<Longrightarrow> keeps (coherent E) (A_HandleSendAckdTxEvent E txid)"
  unfolding A_HandleSendAckdTxEvent_def
  by (intro keeps_A_message yields_infos keeps_andThen keeps_if keeps_ret keeps_A_Send keeps_A_Clear)

lemma keeps_A_bodies:
  assumes "external_ok E"
  shows "entry_ok E L1_send_tx_info_map k e \<Longrightarrow> keeps (coherent E) (A_SendTxToLayer2TimeOut_body E now k e)"
    and "entry_ok E L1_send_ack_info_map k e \<Longrightarrow> keeps (coherent E) (A_SendAckToLayer1TimeOut_body E now k e)"
    and "entry_ok E L1_reply_ack_info_map k e \<Longrightarrow> keeps (coherent E) (A_ReplyAckToLayer2TimeOut_body E now k e)"
proof -
  note calls = keeps_coherent_only_trace only_trace_intros keeps_A_Send [OF assms] keeps_A_Clear [OF assms]
    keeps_A_handleSendTxEvent [OF assms]
  show "keeps (coherent E) (A_SendTxToLayer2TimeOut_body E now k e)" if e: "entry_ok E L1_send_tx_info_map k e"
    unfolding A_SendTxToLayer2TimeOut_body_def Let_def
    using entry_ok_message [OF assms e] entry_ok_plain [OF e] entry_ok_id [OF e]
    by (intro keeps_if keeps_andThen keeps_ret calls) simp_all
  show "keeps (coherent E) (A_SendAckToLayer1TimeOut_body E now k e)" if e: "entry_ok E L1_send_ack_info_map k e"
    unfolding A_SendAckToLayer1TimeOut_body_def Let_def
    using entry_ok_message [OF assms e] entry_ok_plain [OF e]
    by (intro keeps_if keeps_andThen keeps_ret keeps_orFault keeps_coherent_restamp calls) simp_all
  show "keeps (coherent E) (A_ReplyAckToLayer2TimeOut_body E now k e)" if e: "entry_ok E L1_reply_ack_info_map k e"
    unfolding A_ReplyAckToLayer2TimeOut_body_def Let_def
    using entry_ok_message [OF assms e] entry_ok_plain [OF e]
    by (intro keeps_if keeps_andThen keeps_ret keeps_orFault keeps_coherent_restamp calls) simp_all
qed

lemma keeps_A_OnTimer: "external_ok E \<Longrightarrow> keeps (coherent E) (A_OnTimer E now)"
  unfolding A_OnTimer_def A_SendTxToLayer2TimeOut_def A_SendAckToLayer1TimeOut_def A_ReplyAckToLayer2TimeOut_def
  by (intro keeps_andThen keeps_ret keeps_coherent_for_each keeps_A_bodies keeps_coherent_only_trace
      only_trace_intros)

end
