(* ===== verification/L2_To_L1.thy ===== *)
theory L2_To_L1
  imports L1_To_L2
begin

text \<open>
  \<open>glue/layer2_to_layer1_handle.cpp\<close>: transactions that start on layer 2, with the prefix \<open>B_\<close>.
  They wait in a table of their own until layer 1 has confirmed the layer 2 block they are in
  (\<open>B_HandleConfirmSeqEvent\<close>); the rest mirrors the other handle with the layers exchanged.
\<close>

section \<open>Operations\<close>

definition B_sendTransactionToLayer1 :: "('d, 'j) env \<Rightarrow> string \<Rightarrow> int \<Rightarrow> (string option, 'd) agent" where
  "B_sendTransactionToLayer1 E input amt = send_transaction E (layer1 E) (Layer1Transaction_new E) input amt"

definition B_sendTransactionToLayer2 :: "('d, 'j) env \<Rightarrow> string \<Rightarrow> int \<Rightarrow> (string option, 'd) agent" where
  "B_sendTransactionToLayer2 E input amt = send_transaction E (layer2 E) (Layer2Transaction_new E) input amt"

definition B_SaveStartTxInfo :: "('d, 'j) env \<Rightarrow> CrossTx option \<Rightarrow> (bool, 'd) agent" where
  "B_SaveStartTxInfo E p = save_entry E L2_start_tx_info_map p"

definition B_ClearStartTxInfo :: "('d, 'j) env \<Rightarrow> string \<Rightarrow> (bool, 'd) agent" where
  "B_ClearStartTxInfo E txid = clear_entry E L2_start_tx_info_map txid"

definition B_SaveSendTxInfo :: "('d, 'j) env \<Rightarrow> CrossTx option \<Rightarrow> (bool, 'd) agent" where
  "B_SaveSendTxInfo E p = save_entry E L2_send_tx_info_map p"

definition B_ClearSendTxInfo :: "('d, 'j) env \<Rightarrow> string \<Rightarrow> (bool, 'd) agent" where
  "B_ClearSendTxInfo E txid = clear_entry E L2_send_tx_info_map txid"

definition B_SaveSendAckInfo :: "('d, 'j) env \<Rightarrow> CrossTx option \<Rightarrow> (bool, 'd) agent" where
  "B_SaveSendAckInfo E p = stamp_then_save E L2_send_ack_info_map p"

definition B_ClearSendAckInfo :: "('d, 'j) env \<Rightarrow> string \<Rightarrow> (bool, 'd) agent" where
  "B_ClearSendAckInfo E txid = clear_entry E L2_send_ack_info_map txid"

definition B_SaveReplyAckInfo :: "('d, 'j) env \<Rightarrow> CrossTx option \<Rightarrow> (bool, 'd) agent" where
  "B_SaveReplyAckInfo E p = stamp_then_save E L2_reply_ack_info_map p"

definition B_ClearReplyAckInfo :: "('d, 'j) env \<Rightarrow> string \<Rightarrow> (bool, 'd) agent" where
  "B_ClearReplyAckInfo E txid = clear_entry E L2_reply_ack_info_map txid"

definition B_SendTxToLayer1 :: "('d, 'j) env \<Rightarrow> CrossTxInfo \<Rightarrow> (bool, 'd) agent" where
  "B_SendTxToLayer1 E m =
     andThen (B_sendTransactionToLayer1 E (send_tx_input E m) (amount m)) (\<lambda>r.
     case r of None \<Rightarrow> ret False | Some txhash \<Rightarrow>
       andThen (B_SaveSendTxInfo E (Some (make_CrossTx (pb_serialize E) (m\<lparr>sendtxhash := txhash\<rparr>)))) (\<lambda>_.
       ret True))"

definition B_error_desc :: "CrossTxInfo \<Rightarrow> string" where
  "B_error_desc m = (if status m > CROSS_RESULT_SUCCESS then ''send tx failed'' else [])"

definition B_SendAckToLayer2 :: "('d, 'j) env \<Rightarrow> CrossTxInfo \<Rightarrow> (bool, 'd) agent" where
  "B_SendAckToLayer2 E m =
     andThen (B_sendTransactionToLayer2 E (send_ack_input E m (B_error_desc m)) 0) (\<lambda>r.
     case r of None \<Rightarrow> ret False | Some txhash \<Rightarrow>
       andThen (B_SaveSendAckInfo E (Some (make_CrossTx (pb_serialize E) (m\<lparr>sendacktol2hash := txhash\<rparr>)))) (\<lambda>_.
       ret True))"

definition B_ReplyAckToLayer1 :: "('d, 'j) env \<Rightarrow> CrossTxInfo \<Rightarrow> (bool, 'd) agent" where
  "B_ReplyAckToLayer1 E m =
     andThen (B_sendTransactionToLayer1 E (send_ack_input E m (B_error_desc m)) 0) (\<lambda>r.
     case r of None \<Rightarrow> ret False | Some txhash \<Rightarrow>
       andThen (B_SaveReplyAckInfo E (Some (make_CrossTx (pb_serialize E) (m\<lparr>sendacktol1hash := txhash\<rparr>)))) (\<lambda>_.
       ret True))"

text \<open>The parser of the two texts a contract answers with. An index past the end of a list is
  undefined behaviour; the destination and the error text may be missing.\<close>

definition B_makeCrossTxInfo :: "CrossTxInfo \<Rightarrow> string \<Rightarrow> string \<Rightarrow> (CrossTxInfo option, 's) prog" where
  "B_makeCrossTxInfo m cross_info1 cross_info2 =
     (if cross_info1 = [] \<or> cross_info2 = [] then ret None
      else
        andThen (orFault Thrown (strip_brackets cross_info1)) (\<lambda>info1.
        let info1_list = comma_items [] info1 in
        andThen (orFault Thrown (strip_brackets cross_info2)) (\<lambda>info2.
        let info2_list = comma_items [] info2 in
        andThen (list_at info1_list 2) (\<lambda>txid.
        andThen (list_at info1_list 3) (\<lambda>amt.
        andThen (list_at info1_list 4) (\<lambda>src.
        andThen (list_at info1_list 5) (\<lambda>dest.
        andThen (list_at info2_list 0) (\<lambda>st.
        andThen (list_at info2_list 1) (\<lambda>refund.
        andThen (list_at info2_list 2) (\<lambda>created.
        andThen (list_at info2_list 3) (\<lambda>executed.
        andThen (list_at info2_list 4) (\<lambda>tmo.
        let desc = (if length info2_list > 5 then info2_list ! 5 else []) in
        ret (Some (m\<lparr>crosstxid := txid, amount := Stol amt, srcbid := src, destbid := dest,
          status := Stoi st, refunded := Stoi refund, createtimestamp := Stol created,
          executetimestamp := Stol executed, timeout := Stol tmo, errordesc := desc\<rparr>))))))))))))))"

definition B_handleSendTxEvent :: "('d, 'j) env \<Rightarrow> string \<Rightarrow> int \<Rightarrow> (bool, 'd) agent" where
  "B_handleSendTxEvent E txid st =
     andThen (GetLayer1CrossTxInfo E (http_endpoint (layer1 E)) txid) (\<lambda>infos.
     case infos of None \<Rightarrow> ret False | Some (info1, info2) \<Rightarrow>
       andThen (B_makeCrossTxInfo new_CrossTxInfo info1 info2) (\<lambda>r.
       case r of None \<Rightarrow> ret False | Some m \<Rightarrow>
         andThen (B_SendAckToLayer2 E (m\<lparr>status := i32 st\<rparr>)) (\<lambda>sent.
         if sent then andThen (B_ClearSendTxInfo E txid) (\<lambda>_. ret True) else ret False)))"

definition B_HandleStartTxEvent :: "('d, 'j) env \<Rightarrow> string \<Rightarrow> (bool, 'd) agent" where
  "B_HandleStartTxEvent E txid =
     andThen (GetLayer2CrossTxInfo E (http_endpoint (layer2 E)) txid) (\<lambda>infos.
     case infos of None \<Rightarrow> ret False | Some (info1, info2) \<Rightarrow>
       andThen (B_makeCrossTxInfo new_CrossTxInfo info1 info2) (\<lambda>r.
       case r of None \<Rightarrow> ret False | Some m \<Rightarrow>
         andThen (GetLayerSeq E (http_endpoint (layer2 E))) (\<lambda>seq.
         case seq of None \<Rightarrow> ret False | Some layer2_seq \<Rightarrow>
           andThen (B_SaveStartTxInfo E (Some (make_CrossTx (pb_serialize E) (m\<lparr>confirmseq := layer2_seq\<rparr>)))) (\<lambda>_.
           ret True))))"

definition B_HandleSendTxEvent :: "('d, 'j) env \<Rightarrow> string \<Rightarrow> (bool, 'd) agent" where
  "B_HandleSendTxEvent E txid = B_handleSendTxEvent E txid CROSS_RESULT_SUCCESS"

definition B_HandleSendAckdTxEvent :: "('d, 'j) env \<Rightarrow> string \<Rightarrow> (bool, 'd) agent" where
  "B_HandleSendAckdTxEvent E txid =
     andThen (GetLayer2CrossTxInfo E (http_endpoint (layer2 E)) txid) (\<lambda>infos.
     case infos of None \<Rightarrow> ret False | Some (info1, info2) \<Rightarrow>
       andThen (B_makeCrossTxInfo new_CrossTxInfo info1 info2) (\<lambda>r.
       case r of None \<Rightarrow> ret False | Some m \<Rightarrow>
         andThen (B_ReplyAckToLayer1 E m) (\<lambda>sent.
         if sent then andThen (B_ClearSendAckInfo E txid) (\<lambda>_. ret True) else ret False)))"

text \<open>What has been confirmed up to block \<open>confirm_seq\<close> is sent on, or refused when its time is
  over; the entry of a refused transaction stays.\<close>

definition B_HandleConfirmSeqEvent_body ::
  "('d, 'j) env \<Rightarrow> int \<Rightarrow> string \<Rightarrow> CrossTx \<Rightarrow> (unit, 'd) agent" where
  "B_HandleConfirmSeqEvent_body E confirm_seq_event k e =
     andThen (HighResolution E) (\<lambda>current_time.
     let m = snd (pb_parse E (cross_tx_info e)) in
     if confirmseq m \<le> confirm_seq_event then
       (if timeout m < current_time then
          andThen (B_SendAckToLayer2 E (m\<lparr>status := CROSS_RESULT_TIMEOUT\<rparr>)) (\<lambda>_. ret ())
        else
          andThen (B_SendTxToLayer1 E m) (\<lambda>sent.
          if sent then andThen (B_ClearStartTxInfo E (crosstxid m)) (\<lambda>_. ret ()) else ret ()))
     else ret ())"

definition B_HandleConfirmSeqEvent :: "('d, 'j) env \<Rightarrow> int \<Rightarrow> (bool, 'd) agent" where
  "B_HandleConfirmSeqEvent E confirm_seq_event =
     andThen (for_each L2_start_tx_info_map (B_HandleConfirmSeqEvent_body E confirm_seq_event)) (\<lambda>_. ret True)"

definition B_StartTxTimeOut_body ::
  "('d, 'j) env \<Rightarrow> int \<Rightarrow> string \<Rightarrow> CrossTx \<Rightarrow> (unit, 'd) agent" where
  "B_StartTxTimeOut_body E current_time k e =
     (if send_tx_timeout e < current_time then
        (let m = (snd (pb_parse E (cross_tx_info e)))\<lparr>status := CROSS_RESULT_FAILED\<rparr> in
         andThen (B_SendAckToLayer2 E m) (\<lambda>sent.
         if sent then andThen (B_ClearStartTxInfo E k) (\<lambda>_. ret ()) else ret ()))
      else ret ())"

definition B_StartTxTimeOut :: "('d, 'j) env \<Rightarrow> (bool, 'd) agent" where
  "B_StartTxTimeOut E =
     andThen (HighResolution E) (\<lambda>current_time.
     andThen (for_each L2_start_tx_info_map (B_StartTxTimeOut_body E current_time)) (\<lambda>_. ret True))"

text \<open>One turn of the loop of each timeout check. The parse result is not tested; the message is
  what the parser left.\<close>

definition B_SendTxToLayer1TimeOut_body ::
  "('d, 'j) env \<Rightarrow> int \<Rightarrow> string \<Rightarrow> CrossTx \<Rightarrow> (unit, 'd) agent" where
  "B_SendTxToLayer1TimeOut_body E current_time k e =
     (if send_tx_timeout e < current_time then
        andThen (GetTxResult E (http_endpoint (layer1 E)) (send_tx_hash e)) (\<lambda>found.
        if found then andThen (B_handleSendTxEvent E (cross_tx_id e) CROSS_RESULT_SUCCESS) (\<lambda>_. ret ())
        else (let m = (snd (pb_parse E (cross_tx_info e)))\<lparr>status := CROSS_RESULT_TIMEOUT\<rparr> in
              andThen (B_SendAckToLayer2 E m) (\<lambda>sent.
              if sent then andThen (B_ClearSendTxInfo E (c_str (crosstxid m))) (\<lambda>_. ret ()) else ret ())))
      else ret ())"

definition B_SendTxToLayer1TimeOut :: "('d, 'j) env \<Rightarrow> (bool, 'd) agent" where
  "B_SendTxToLayer1TimeOut E =
     andThen (HighResolution E) (\<lambda>current_time.
     andThen (for_each L2_send_tx_info_map (B_SendTxToLayer1TimeOut_body E current_time)) (\<lambda>_. ret True))"

definition B_SendAckToLayer2TimeOut_body ::
  "('d, 'j) env \<Rightarrow> int \<Rightarrow> string \<Rightarrow> CrossTx \<Rightarrow> (unit, 'd) agent" where
  "B_SendAckToLayer2TimeOut_body E current_time k e =
     andThen (orFault Uninitialised (send_ack_timeout e)) (\<lambda>due.
     if due < current_time then
       (let m = snd (pb_parse E (cross_tx_info e)) in
        if status m = CROSS_RESULT_SUCCESS then
          andThen (B_SendAckToLayer2 E m) (\<lambda>_.
          change (set_ack_timeout L2_send_ack_info_map k (current_time + ack_period)))
        else
          andThen (GetTxResult E (http_endpoint (layer2 E)) (send_ack_to_l2_hash e)) (\<lambda>found.
          if found then andThen (B_ClearSendAckInfo E k) (\<lambda>_. ret ())
          else
            andThen (GetCrossTxStatus E (http_endpoint (layer2 E)) k) (\<lambda>st.
            if st \<noteq> CROSS_RESULT_INIT then andThen (B_ClearSendAckInfo E k) (\<lambda>_. ret ())
            else andThen (B_SendAckToLayer2 E m) (\<lambda>_.
                 change (set_ack_timeout L2_send_ack_info_map k (current_time + ack_period))))))
     else ret ())"

definition B_SendAckToLayer2TimeOut :: "('d, 'j) env \<Rightarrow> (bool, 'd) agent" where
  "B_SendAckToLayer2TimeOut E =
     andThen (HighResolution E) (\<lambda>current_time.
     andThen (for_each L2_send_ack_info_map (B_SendAckToLayer2TimeOut_body E current_time)) (\<lambda>_. ret True))"

definition B_ReplyAckToLayer1TimeOut_body ::
  "('d, 'j) env \<Rightarrow> int \<Rightarrow> string \<Rightarrow> CrossTx \<Rightarrow> (unit, 'd) agent" where
  "B_ReplyAckToLayer1TimeOut_body E current_time k e =
     andThen (orFault Uninitialised (send_ack_timeout e)) (\<lambda>due.
     if due < current_time then
       (let m = snd (pb_parse E (cross_tx_info e)) in
        andThen (GetTxResult E (http_endpoint (layer1 E)) (send_ack_to_l1_hash e)) (\<lambda>found.
        if found then andThen (B_ClearReplyAckInfo E k) (\<lambda>_. ret ())
        else
          andThen (GetCrossTxStatus E (http_endpoint (layer1 E)) k) (\<lambda>st.
          if st \<noteq> CROSS_RESULT_INIT then andThen (B_ClearReplyAckInfo E k) (\<lambda>_. ret ())
          else andThen (B_ReplyAckToLayer1 E m) (\<lambda>_.
               change (set_ack_timeout L2_reply_ack_info_map k (current_time + ack_period))))))
     else ret ())"

definition B_ReplyAckToLayer1TimeOut :: "('d, 'j) env \<Rightarrow> (bool, 'd) agent" where
  "B_ReplyAckToLayer1TimeOut E =
     andThen (HighResolution E) (\<lambda>current_time.
     andThen (for_each L2_reply_ack_info_map (B_ReplyAckToLayer1TimeOut_body E current_time)) (\<lambda>_. ret True))"

definition B_OnTimer :: "('d, 'j) env \<Rightarrow> int \<Rightarrow> (unit, 'd) agent" where
  "B_OnTimer E current_time =
     andThen (B_StartTxTimeOut E) (\<lambda>_.
     andThen (B_SendTxToLayer1TimeOut E) (\<lambda>_.
     andThen (B_SendAckToLayer2TimeOut E) (\<lambda>_.
     andThen (B_ReplyAckToLayer1TimeOut E) (\<lambda>_. ret ()))))"

definition B_Initialize :: "('d, 'j) env \<Rightarrow> (bool, 'd) agent" where
  "B_Initialize E =
     andThen (load_table E L2_start_tx_info_map False) (\<lambda>_.
     andThen (load_table E L2_send_tx_info_map False) (\<lambda>_.
     andThen (load_table E L2_send_ack_info_map True) (\<lambda>_.
     andThen (load_table E L2_reply_ack_info_map True) (\<lambda>_. ret True))))"

section \<open>Every operation keeps the tables and the database in step\<close>

lemma yields_B_makeCrossTxInfo:
  assumes "plain info1" and "plain info2" and "plain_info m"
  shows "yields I (B_makeCrossTxInfo m info1 info2) plain_msg"
proof -
  have strip: "yields I (orFault Thrown (strip_brackets info)) plain" if "plain info" for info
    using that by (intro yields_orFault) (rule plain_strip_brackets)
  have item: "yields I (list_at (comma_items [] info) i) plain" if "plain info" for info i
    using that by (intro yields_list_at) (rule plain_comma_items)
  have nth: "plain (comma_items [] info ! 5)" if "plain info" "5 < length (comma_items [] info)" for info
    using that by (auto intro: plain_comma_items [OF that(1)])
  have none: "yields I (ret None) plain_msg" by (rule yields_ret) (simp add: plain_msg_def)
  have dest: "plain (destbid m)" using assms(3) by (simp add: plain_info_def)
  show ?thesis
    unfolding B_makeCrossTxInfo_def Let_def
    apply (rule yields_if, rule none)
    apply (rule yields_andThen [OF strip], rule assms(1))
    apply (rule yields_andThen [OF strip], rule assms(2))
    apply (rule yields_andThen [OF item], assumption)+
    apply (rule yields_ret)
    apply (rule plain_msg_Some)
    apply (rule plain_info_parsed [OF assms(3)], assumption, assumption)
    using nth dest by simp_all
qed

lemma keeps_B_Save:
  assumes "external_ok E" and "plain_info m"
  shows "keeps (coherent E) (B_SaveStartTxInfo E (Some (make_CrossTx (pb_serialize E) m)))"
    and "keeps (coherent E) (B_SaveSendTxInfo E (Some (make_CrossTx (pb_serialize E) m)))"
    and "keeps (coherent E) (B_SaveSendAckInfo E (Some (make_CrossTx (pb_serialize E) m)))"
    and "keeps (coherent E) (B_SaveReplyAckInfo E (Some (make_CrossTx (pb_serialize E) m)))"
  unfolding B_SaveStartTxInfo_def B_SaveSendTxInfo_def B_SaveSendAckInfo_def B_SaveReplyAckInfo_def
  using assms by (simp_all add: keeps_coherent_save_entry keeps_coherent_stamp_then_save)

lemma keeps_B_Clear:
  assumes "external_ok E" and "plain txid"
  shows "keeps (coherent E) (B_ClearStartTxInfo E txid)"
    and "keeps (coherent E) (B_ClearSendTxInfo E txid)"
    and "keeps (coherent E) (B_ClearSendAckInfo E txid)"
    and "keeps (coherent E) (B_ClearReplyAckInfo E txid)"
  unfolding B_ClearStartTxInfo_def B_ClearSendTxInfo_def B_ClearSendAckInfo_def B_ClearReplyAckInfo_def
  using assms by (simp_all add: keeps_coherent_clear_entry)

lemma keeps_B_Send:
  assumes "external_ok E" and "plain_info m"
  shows "keeps (coherent E) (B_SendTxToLayer1 E m)"
    and "keeps (coherent E) (B_SendAckToLayer2 E m)"
    and "keeps (coherent E) (B_ReplyAckToLayer1 E m)"
  unfolding B_SendTxToLayer1_def B_SendAckToLayer2_def B_ReplyAckToLayer1_def
    B_sendTransactionToLayer2_def B_sendTransactionToLayer1_def
  using assms by (intro keeps_send_and_save keeps_B_Save; simp)+

lemma keeps_B_message:
  assumes "yields I get plain_pair"
    and "\<And>m. plain_info m \<Longrightarrow> keeps I (k m)"
  shows "keeps I
     (andThen get (\<lambda>infos. case infos of None \<Rightarrow> ret False | Some (info1, info2) \<Rightarrow>
       andThen (B_makeCrossTxInfo new_CrossTxInfo info1 info2) (\<lambda>r. case r of None \<Rightarrow> ret False | Some m \<Rightarrow> k m)))"
proof (rule keeps_andThen_yields [OF assms(1)])
  fix infos assume pp: "plain_pair infos"
  show "keeps I (case infos of None \<Rightarrow> ret False | Some (info1, info2) \<Rightarrow>
       andThen (B_makeCrossTxInfo new_CrossTxInfo info1 info2) (\<lambda>r. case r of None \<Rightarrow> ret False | Some m \<Rightarrow> k m))"
  proof (cases infos)
    case (Some p)
    obtain info1 info2 where p: "p = (info1, info2)" by fastforce
    have "yields I (B_makeCrossTxInfo new_CrossTxInfo info1 info2) plain_msg"
      using pp Some p by (intro yields_B_makeCrossTxInfo) (simp_all add: plain_pair_def)
    then show ?thesis
      unfolding Some p option.case prod.case
      by (rule keeps_andThen_yields) (auto split: option.splits simp: plain_msg_def intro!: keeps_ret assms(2))
  qed (simp add: keeps_ret)
qed

lemma keeps_B_handleSendTxEvent:
  "external_ok E \<Longrightarrow> plain txid \<Longrightarrow> keeps (coherent E) (B_handleSendTxEvent E txid st)"
  unfolding B_handleSendTxEvent_def
  by (intro keeps_B_message yields_infos keeps_andThen keeps_if keeps_ret keeps_B_Send keeps_B_Clear
      plain_info_hashes fits32_i32)

lemma keeps_B_HandleStartTxEvent:
  assumes "external_ok E"
  shows "keeps (coherent E) (B_HandleStartTxEvent E txid)"
  unfolding B_HandleStartTxEvent_def
proof (rule keeps_B_message [OF yields_infos(2) [OF assms]])
  fix m assume m: "plain_info m"
  show "keeps (coherent E) (andThen (GetLayerSeq E (http_endpoint (layer2 E))) (\<lambda>seq.
       case seq of None \<Rightarrow> ret False | Some layer2_seq \<Rightarrow>
       andThen (B_SaveStartTxInfo E (Some (make_CrossTx (pb_serialize E) (m\<lparr>confirmseq := layer2_seq\<rparr>))))
         (\<lambda>_. ret True)))"
    by (rule keeps_andThen_yields [OF yields_GetLayerSeq [OF external_okD(4) [OF assms] trace_free_coherent]])
       (auto split: option.splits intro!: keeps_ret keeps_andThen keeps_B_Save assms plain_info_hashes(5) m)
qed

lemma keeps_B_HandleSendAckdTxEvent:
  "external_ok E \<Longrightarrow> plain txid \<Longrightarrow> keeps (coherent E) (B_HandleSendAckdTxEvent E txid)"
  unfolding B_HandleSendAckdTxEvent_def
  by (intro keeps_B_message yields_infos keeps_andThen keeps_if keeps_ret keeps_B_Send keeps_B_Clear)

lemma keeps_B_bodies:
  assumes "external_ok E"
  shows "entry_ok E L2_start_tx_info_map k e \<Longrightarrow> keeps (coherent E) (B_HandleConfirmSeqEvent_body E n k e)"
    and "entry_ok E L2_start_tx_info_map k e \<Longrightarrow> keeps (coherent E) (B_StartTxTimeOut_body E now k e)"
    and "entry_ok E L2_send_tx_info_map k e \<Longrightarrow> keeps (coherent E) (B_SendTxToLayer1TimeOut_body E now k e)"
    and "entry_ok E L2_send_ack_info_map k e \<Longrightarrow> keeps (coherent E) (B_SendAckToLayer2TimeOut_body E now k e)"
    and "entry_ok E L2_reply_ack_info_map k e \<Longrightarrow> keeps (coherent E) (B_ReplyAckToLayer1TimeOut_body E now k e)"
proof -
  note calls = keeps_coherent_only_trace only_trace_intros keeps_B_Send [OF assms] keeps_B_Clear [OF assms]
    keeps_B_handleSendTxEvent [OF assms]
  show "keeps (coherent E) (B_HandleConfirmSeqEvent_body E n k e)" if e: "entry_ok E L2_start_tx_info_map k e"
    unfolding B_HandleConfirmSeqEvent_body_def Let_def
    using entry_ok_message [OF assms e] entry_ok_plain [OF e]
    by (intro keeps_if keeps_andThen keeps_ret calls) simp_all
  show "keeps (coherent E) (B_StartTxTimeOut_body E now k e)" if e: "entry_ok E L2_start_tx_info_map k e"
    unfolding B_StartTxTimeOut_body_def Let_def
    using entry_ok_message [OF assms e] entry_ok_plain [OF e]
    by (intro keeps_if keeps_andThen keeps_ret calls) simp_all
  show "keeps (coherent E) (B_SendTxToLayer1TimeOut_body E now k e)" if e: "entry_ok E L2_send_tx_info_map k e"
    unfolding B_SendTxToLayer1TimeOut_body_def Let_def
    using entry_ok_message [OF assms e] entry_ok_plain [OF e] entry_ok_id [OF e]
    by (intro keeps_if keeps_andThen keeps_ret calls) simp_all
  show "keeps (coherent E) (B_SendAckToLayer2TimeOut_body E now k e)" if e: "entry_ok E L2_send_ack_info_map k e"
    unfolding B_SendAckToLayer2TimeOut_body_def Let_def
    using entry_ok_message [OF assms e] entry_ok_plain [OF e]
    by (intro keeps_if keeps_andThen keeps_ret keeps_orFault keeps_coherent_restamp calls) simp_all
  show "keeps (coherent E) (B_ReplyAckToLayer1TimeOut_body E now k e)" if e: "entry_ok E L2_reply_ack_info_map k e"
    unfolding B_ReplyAckToLayer1TimeOut_body_def Let_def
    using entry_ok_message [OF assms e] entry_ok_plain [OF e]
    by (intro keeps_if keeps_andThen keeps_ret keeps_orFault keeps_coherent_restamp calls) simp_all
qed

lemma keeps_B_OnTimer: "external_ok E \<Longrightarrow> keeps (coherent E) (B_OnTimer E now)"
  unfolding B_OnTimer_def B_StartTxTimeOut_def B_SendTxToLayer1TimeOut_def B_SendAckToLayer2TimeOut_def B_ReplyAckToLayer1TimeOut_def
  by (intro keeps_andThen keeps_ret keeps_coherent_for_each keeps_B_bodies keeps_coherent_only_trace
      only_trace_intros)

lemma keeps_B_HandleConfirmSeqEvent: "external_ok E \<Longrightarrow> keeps (coherent E) (B_HandleConfirmSeqEvent E n)"
  unfolding B_HandleConfirmSeqEvent_def
  by (intro keeps_andThen keeps_ret keeps_coherent_for_each keeps_B_bodies)

end
