(* ===== verification/Handle_Manager.thy ===== *)
theory Handle_Manager
  imports L2_To_L1
begin

text \<open>
  \<open>glue/handle_manager.cpp\<close>: start-up with the balance checks, dispatch of the contract logs of
  both layers to the two handles, and the timer. The parsers of the subscription messages are
  generated code, the record \<open>parsers\<close>; \<open>None\<close> is a failed parse.
\<close>

record Tlog =
  topic :: string
  tlog :: "string list"

record TlogSubscribeResponse =
  address :: string
  tlogs :: "Tlog list"

datatype TopicType =
    TOPIC_REGISTERAGENT | TOPIC_SUBMIT | TOPIC_STOP | TOPIC_UPDATE_PERIOD | TOPIC_FREEZE | TOPIC_UN_FREEZE
  | TOPIC_OTHER int

record ManagerContractTlog =
  tlog_type :: TopicType
  submit_confirm_seq :: int
  update_period :: int

record parsers =
  parse_subscribe :: "string \<Rightarrow> TlogSubscribeResponse option"
  parse_manager :: "string \<Rightarrow> ManagerContractTlog option"

definition repeated_at :: "'a list \<Rightarrow> nat \<Rightarrow> ('a, 's) prog" where
  "repeated_at l i = (if i < length l then ret (l ! i) else fault OutOfRange)"

section \<open>Balance checks\<close>

text \<open>The products are signed 64-bit.\<close>

definition min_balance :: "'a LayerConfigure_scheme \<Rightarrow> (int, 's) prog" where
  "min_balance cfg =
     (let b = 100 * cfg_fee_limit cfg * cfg_gas_price cfg in
      if fits64 (100 * cfg_fee_limit cfg) \<and> fits64 b then ret b else fault SignedOverflow)"

definition CheckLayer1Balance :: "('d, 'j) env \<Rightarrow> (bool, 'd) agent" where
  "CheckLayer1Balance E =
     andThen (min_balance (layer1 E)) (\<lambda>needed.
     andThen (GetBalance E (http_endpoint (layer1 E)) (agent_address (layer1 E))) (\<lambda>r.
     case r of None \<Rightarrow> ret False | Some balance \<Rightarrow>
       if balance < needed then ret False else ret True))"

definition CheckLayer2Balance :: "('d, 'j) env \<Rightarrow> (bool, 'd) agent" where
  "CheckLayer2Balance E =
     (if cfg_gas_price (layer2 E) = 0 then ret True
      else
        andThen (min_balance (layer2 E)) (\<lambda>needed.
        andThen (GetBalance E (http_endpoint (layer2 E)) (agent_address (layer2 E))) (\<lambda>r.
        case r of None \<Rightarrow> ret False | Some balance \<Rightarrow>
          if balance < needed then ret False else ret True)))"

definition Manager_Initialize :: "('d, 'j) env \<Rightarrow> (bool, 'd) agent" where
  "Manager_Initialize E =
     andThen (CheckLayer2Balance E) (\<lambda>ok2.
     if \<not> ok2 then ret False
     else andThen (CheckLayer1Balance E) (\<lambda>ok1.
     if \<not> ok1 then ret False
     else andThen (A_Initialize E) (\<lambda>_.
          andThen (B_Initialize E) (\<lambda>_. ret True))))"

section \<open>Logs of the cross-chain contracts\<close>

definition OnLayer1CrossContractTlog :: "('d, 'j) env \<Rightarrow> TlogSubscribeResponse \<Rightarrow> (bool, 'd) agent" where
  "OnLayer1CrossContractTlog E tlog_res =
     andThen (repeated_at (tlogs tlog_res) 0) (\<lambda>t.
     andThen (repeated_at (tlog t) 0) (\<lambda>txid.
     if topic t = start_tx_topic (layer1 E) then A_HandleStartTxEvent E txid
     else if topic t = send_tx_topic (layer1 E) then B_HandleSendTxEvent E txid
     else if topic t = ack_tx_topic (layer1 E) then A_HandleSendAckdTxEvent E txid
     else ret False))"

definition OnLayer2SubscribeResponse :: "('d, 'j) env \<Rightarrow> parsers \<Rightarrow> string \<Rightarrow> (bool, 'd) agent" where
  "OnLayer2SubscribeResponse E P msg =
     (case parse_subscribe P msg of None \<Rightarrow> ret False | Some tlog_res \<Rightarrow>
      if address tlog_res \<noteq> cross_contract (layer2 E) then ret False
      else
        andThen (repeated_at (tlogs tlog_res) 0) (\<lambda>t.
        andThen (repeated_at (tlog t) 0) (\<lambda>txid.
        if topic t = start_tx_topic (layer2 E) then B_HandleStartTxEvent E txid
        else if topic t = send_tx_topic (layer2 E) then A_HandleSendTxEvent E txid
        else if topic t = ack_tx_topic (layer2 E) then B_HandleSendAckdTxEvent E txid
        else ret False)))"

section \<open>Logs of the manager contract\<close>

text \<open>The response to this one transaction is read as if \<open>results\<close> were an object.\<close>

definition updatePeriodToLayer2CrossContract :: "('d, 'j) env \<Rightarrow> int \<Rightarrow> (bool, 'd) agent" where
  "updatePeriodToLayer2CrossContract E period =
     (let period_second = period * 60; tmo = period_second * 1000000 + 30 * 60 * 1000000 in
      if \<not> (fits64 period_second \<and> fits64 (period_second * 1000000) \<and> fits64 tmo) then fault SignedOverflow
      else
        (let input = contract_input E ''SetTimeout(uint256)'' (ToString tmo);
             tx = AddTransactionOperation (layer2 E) input 0 (Layer2Transaction_new E);
             url = http_endpoint (layer2 E)
         in andThen (GetLayerSeq E url) (\<lambda>seq.
            case seq of None \<Rightarrow> ret False | Some layer2_seq \<Rightarrow>
            if \<not> fits64 (layer2_seq + 200) then fault SignedOverflow
            else andThen (GetTransactionBlob E (layer2_seq + 200) tx) (\<lambda>tran_blob.
                 andThen (SubmitLayer2Transaction E url (submit_body E (private_key (layer2 E)) tran_blob)) (\<lambda>response.
                 case response of None \<Rightarrow> ret False | Some body \<Rightarrow>
                 (case js_fromString (json E) body of None \<Rightarrow> ret False | Some responseBody \<Rightarrow>
                   andThen (jget E responseBody ''results'') (\<lambda>results.
                   andThen (jget E results ''error_code'') (\<lambda>ec.
                   andThen (jint E ec) (\<lambda>error_code.
                   if error_code \<noteq> 0 then
                     andThen (jget E results ''error_desc'') (\<lambda>d. andThen (jstring E d) (\<lambda>_. ret False))
                   else
                     andThen (jget E results ''hash'') (\<lambda>h. andThen (jstring E h) (\<lambda>_. ret True)))))))))))"

fun manager_tlog_loop :: "('d, 'j) env \<Rightarrow> parsers \<Rightarrow> string list \<Rightarrow> (bool, 'd) agent" where
  "manager_tlog_loop E P [] = ret True"
| "manager_tlog_loop E P (t # ts) =
     (case parse_manager P (HexStringToBin t False) of None \<Rightarrow> ret False | Some manager_log \<Rightarrow>
       (case tlog_type manager_log of
          TOPIC_SUBMIT \<Rightarrow>
            andThen (B_HandleConfirmSeqEvent E (submit_confirm_seq manager_log)) (\<lambda>_. manager_tlog_loop E P ts)
        | TOPIC_UPDATE_PERIOD \<Rightarrow>
            andThen (updatePeriodToLayer2CrossContract E (update_period manager_log)) (\<lambda>_. manager_tlog_loop E P ts)
        | _ \<Rightarrow> manager_tlog_loop E P ts))"

definition OnLayer1ManagerContractTlog :: "('d, 'j) env \<Rightarrow> parsers \<Rightarrow> TlogSubscribeResponse \<Rightarrow> (bool, 'd) agent" where
  "OnLayer1ManagerContractTlog E P tlog_res =
     andThen (repeated_at (tlogs tlog_res) 0) (\<lambda>t. manager_tlog_loop E P (tlog t))"

definition OnLayer1SubscribeResponse :: "('d, 'j) env \<Rightarrow> parsers \<Rightarrow> string \<Rightarrow> (bool, 'd) agent" where
  "OnLayer1SubscribeResponse E P msg =
     (case parse_subscribe P msg of None \<Rightarrow> ret False | Some tlog_res \<Rightarrow>
      if address tlog_res = cross_contract (layer1 E) then OnLayer1CrossContractTlog E tlog_res
      else if address tlog_res = manager_contract (layer1 E) then OnLayer1ManagerContractTlog E P tlog_res
      else ret False)"

section \<open>Timer\<close>

definition Manager_OnTimer :: "('d, 'j) env \<Rightarrow> int \<Rightarrow> (unit, 'd) agent" where
  "Manager_OnTimer E current_time =
     andThen (A_OnTimer E current_time) (\<lambda>_. andThen (B_OnTimer E current_time) (\<lambda>_. ret ()))"

definition HandleManager_timer :: TimerNotify where
  "HandleManager_timer = new_TimerNotify ''HandleManager'' (60 * 1000000)"

section \<open>The agent as a transition system\<close>

text \<open>What can happen to a running agent: a message from either layer, a timer tick. A fault ends
  the process; a new process starts with empty tables on the database that was left.\<close>

datatype event = FromLayer1 string | FromLayer2 string | Tick int

fun react :: "('d, 'j) env \<Rightarrow> parsers \<Rightarrow> event \<Rightarrow> (unit, 'd) agent" where
  "react E P (FromLayer1 msg) = andThen (OnLayer1SubscribeResponse E P msg) (\<lambda>_. ret ())"
| "react E P (FromLayer2 msg) = andThen (OnLayer2SubscribeResponse E P msg) (\<lambda>_. ret ())"
| "react E P (Tick current_time) = Manager_OnTimer E current_time"

definition fresh_process :: "'d world \<Rightarrow> 'd world" where
  "fresh_process w = w\<lparr>tables := (\<lambda>_. [])\<rparr>"

inductive agent_step :: "('d, 'j) env \<Rightarrow> parsers \<Rightarrow> 'd world \<Rightarrow> 'd world \<Rightarrow> bool" for E P where
  handled: "react E P ev w = Done () w' \<Longrightarrow> agent_step E P w w'"
| restarted: "Manager_Initialize E (fresh_process w) = Done True w' \<Longrightarrow> agent_step E P w w'"
| died: "react E P ev w = Fault f w' \<Longrightarrow> Manager_Initialize E (fresh_process w') = Done True w'' \<Longrightarrow>
    agent_step E P w w''"

inductive reachable :: "('d, 'j) env \<Rightarrow> parsers \<Rightarrow> 'd world \<Rightarrow> 'd world \<Rightarrow> bool" for E P where
  start: "reachable E P w w"
| step: "reachable E P w w' \<Longrightarrow> agent_step E P w' w'' \<Longrightarrow> reachable E P w w''"

inductive_cases agent_stepE: "agent_step E P w w'"

text \<open>The logs carry plain text.\<close>

definition parsers_ok :: "parsers \<Rightarrow> bool" where
  "parsers_ok P \<longleftrightarrow>
     (\<forall>msg r t x. parse_subscribe P msg = Some r \<and> t \<in> set (tlogs r) \<and> x \<in> set (tlog t) \<longrightarrow> plain x)"

section \<open>Events keep the invariant\<close>

lemma keeps_repeated_at: "keeps I (repeated_at l i)"
  by (simp add: repeated_at_def keeps_ret keeps_fault)

lemma yields_repeated_at: "yields I (repeated_at l i) (\<lambda>x. x \<in> set l)"
  by (simp add: repeated_at_def yields_ret yields_fault)

lemma only_trace_updatePeriod [only_trace_intros]: "only_trace (updatePeriodToLayer2CrossContract E period)"
  unfolding updatePeriodToLayer2CrossContract_def SubmitLayer2Transaction_def Let_def
  by (intro only_trace_intros)

lemma keeps_first_log:
  assumes "parse_subscribe P msg = Some r" and "parsers_ok P"
    and "\<And>t txid. plain txid \<Longrightarrow> keeps I (k t txid)"
  shows "keeps I (andThen (repeated_at (tlogs r) 0) (\<lambda>t. andThen (repeated_at (tlog t) 0) (\<lambda>txid. k t txid)))"
  using assms
  by (intro keeps_andThen_yields [OF yields_repeated_at]) (auto simp: parsers_ok_def)

lemma keeps_OnLayer1CrossContractTlog:
  assumes "external_ok E" and "parsers_ok P" and "parse_subscribe P msg = Some r"
  shows "keeps (coherent E) (OnLayer1CrossContractTlog E r)"
  unfolding OnLayer1CrossContractTlog_def
  by (rule keeps_first_log [OF assms(3,2)])
     (auto simp: B_HandleSendTxEvent_def assms(1) intro!: keeps_ret keeps_A_HandleStartTxEvent
       keeps_B_handleSendTxEvent keeps_A_HandleSendAckdTxEvent)

lemma keeps_OnLayer2SubscribeResponse:
  assumes "external_ok E" and "parsers_ok P"
  shows "keeps (coherent E) (OnLayer2SubscribeResponse E P msg)"
proof (cases "parse_subscribe P msg")
  case (Some r)
  show ?thesis
    unfolding OnLayer2SubscribeResponse_def Some option.case
    by (intro keeps_if keeps_ret keeps_first_log [OF Some assms(2)])
       (auto simp: A_HandleSendTxEvent_def assms(1) intro!: keeps_ret keeps_B_HandleStartTxEvent
         keeps_A_handleSendTxEvent keeps_B_HandleSendAckdTxEvent)
qed (simp add: OnLayer2SubscribeResponse_def keeps_ret)

lemma keeps_manager_tlog_loop: "external_ok E \<Longrightarrow> keeps (coherent E) (manager_tlog_loop E P ts)"
  by (induction ts)
     (auto split: option.splits TopicType.splits
       intro!: keeps_ret keeps_andThen keeps_B_HandleConfirmSeqEvent
         keeps_coherent_only_trace [OF only_trace_updatePeriod])

lemma keeps_OnLayer1SubscribeResponse:
  assumes "external_ok E" and "parsers_ok P"
  shows "keeps (coherent E) (OnLayer1SubscribeResponse E P msg)"
  unfolding OnLayer1SubscribeResponse_def OnLayer1ManagerContractTlog_def
  using assms
  by (auto split: option.splits intro!: keeps_ret keeps_andThen keeps_repeated_at keeps_manager_tlog_loop
      keeps_OnLayer1CrossContractTlog)

lemma keeps_react: "external_ok E \<Longrightarrow> parsers_ok P \<Longrightarrow> keeps (coherent E) (react E P ev)"
  by (cases ev) (auto simp: Manager_OnTimer_def intro!: keeps_andThen keeps_ret keeps_A_OnTimer keeps_B_OnTimer
      keeps_OnLayer1SubscribeResponse keeps_OnLayer2SubscribeResponse)

section \<open>Recovery\<close>

lemma load_entries_result:
  assumes "protobuf_ok E" and "stamped = ack_table t"
    and "\<forall>v \<in> set vs. \<exists>m. plain_info m \<and> v = pb_serialize E m"
  shows "\<exists>w'. load_entries E t stamped vs w = Done () w' \<and> db w' = db w \<and>
    (\<forall>u. u \<noteq> t \<longrightarrow> tables w' u = tables w u) \<and>
    (sorted_map (tables w t) \<longrightarrow> sorted_map (tables w' t) \<and>
      set (keys (tables w' t)) = set (keys (tables w t)) \<union> (crosstxid \<circ> snd \<circ> pb_parse E) ` set vs \<and>
      ((\<forall>i e. map_of (tables w t) i = Some e \<longrightarrow> entry_ok E t i e) \<longrightarrow>
       (\<forall>i e. map_of (tables w' t) i = Some e \<longrightarrow> entry_ok E t i e)))"
  using assms(3)
proof (induction vs arbitrary: w)
  case (Cons v vs)
  then obtain m where m: "plain_info m" "v = pb_serialize E m" by auto
  then have parse: "pb_parse E v = (True, m)" using assms(1) by (simp add: protobuf_ok_def)
  define e where "e = (if stamped then (make_CrossTx (pb_serialize E) m)
      \<lparr>send_ack_timeout := Some (high_resolution E (trace w) + ack_period)\<rparr> else make_CrossTx (pb_serialize E) m)"
  define w1 where "w1 = emplace_entry t e (if stamped then log_io ClockRead w else w)"
  have e: "cross_tx_id e = crosstxid m" "entry_ok E t (crosstxid m) e"
    using m assms(2) by (auto simp: e_def entry_ok_made entry_ok_stamped)
  have run: "load_entries E t stamped (v # vs) w = load_entries E t stamped vs w1"
    by (simp add: parse w1_def e_def prog_simps HighResolution_def)
  have w1: "db w1 = db w" "\<And>u. u \<noteq> t \<Longrightarrow> tables w1 u = tables w u"
    "tables w1 t = m_emplace (crosstxid m) e (tables w t)"
    by (simp_all add: w1_def emplace_entry_def e)
  from Cons.IH [of w1] Cons.prems obtain w' where
    w': "load_entries E t stamped vs w1 = Done () w'" "db w' = db w1"
    "\<forall>u. u \<noteq> t \<longrightarrow> tables w' u = tables w1 u"
    and ih: "sorted_map (tables w1 t) \<longrightarrow> sorted_map (tables w' t) \<and>
      set (keys (tables w' t)) = set (keys (tables w1 t)) \<union> (crosstxid \<circ> snd \<circ> pb_parse E) ` set vs \<and>
      ((\<forall>i e. map_of (tables w1 t) i = Some e \<longrightarrow> entry_ok E t i e) \<longrightarrow>
       (\<forall>i e. map_of (tables w' t) i = Some e \<longrightarrow> entry_ok E t i e))"
    by auto
  have keys1: "set (keys (tables w1 t)) = insert (crosstxid m) (set (keys (tables w t)))"
    and sorted1: "sorted_map (tables w t) \<Longrightarrow> sorted_map (tables w1 t)" by (simp_all add: w1(3))
  have entries1: "\<forall>i e. map_of (tables w1 t) i = Some e \<longrightarrow> entry_ok E t i e"
    if "sorted_map (tables w t)" "\<forall>i e. map_of (tables w t) i = Some e \<longrightarrow> entry_ok E t i e"
    using that e(2) by (simp add: w1(3) map_of_emplace)
  have image: "(crosstxid \<circ> snd \<circ> pb_parse E) ` set (v # vs) =
      insert (crosstxid m) ((crosstxid \<circ> snd \<circ> pb_parse E) ` set vs)"
    by (simp add: parse)
  have result: "sorted_map (tables w' t)"
    "set (keys (tables w' t)) = set (keys (tables w t)) \<union>
       insert (crosstxid m) ((crosstxid \<circ> snd \<circ> pb_parse E) ` set vs)"
    "(\<forall>i e. map_of (tables w t) i = Some e \<longrightarrow> entry_ok E t i e) \<longrightarrow>
       (\<forall>i e. map_of (tables w' t) i = Some e \<longrightarrow> entry_ok E t i e)" if s: "sorted_map (tables w t)"
  proof -
    note ih' = ih [rule_format, OF sorted1 [OF s]]
    show "sorted_map (tables w' t)" using ih' by blast
    show "set (keys (tables w' t)) = set (keys (tables w t)) \<union>
       insert (crosstxid m) ((crosstxid \<circ> snd \<circ> pb_parse E) ` set vs)"
      using ih' keys1 by blast
    show "(\<forall>i e. map_of (tables w t) i = Some e \<longrightarrow> entry_ok E t i e) \<longrightarrow>
       (\<forall>i e. map_of (tables w' t) i = Some e \<longrightarrow> entry_ok E t i e)"
      using ih entries1 [OF s] sorted1 [OF s] by blast
  qed
  show ?case
    unfolding run image
  proof (rule exI [of _ w'], intro conjI)
    show "load_entries E t stamped vs w1 = Done () w'" by (fact w'(1))
    show "db w' = db w" using w'(2) w1(1) by simp
    show "\<forall>u. u \<noteq> t \<longrightarrow> tables w' u = tables w u" using w'(3) w1(2) by simp
  qed (use result in blast)
qed (simp add: prog_simps)

text \<open>Every entry that is loaded carries one of the stored texts.\<close>

lemma load_entries_info:
  assumes "\<forall>v \<in> set vs. \<exists>m. pb_parse E v = (True, m) \<and> v = pb_serialize E m" and "sorted_map (tables w t)"
    and "\<forall>i e. map_of (tables w t) i = Some e \<longrightarrow> cross_tx_info e \<in> V"
    and "load_entries E t stamped vs w = Done () w'" and "map_of (tables w' t) i = Some e"
  shows "cross_tx_info e \<in> V \<union> set vs"
  using assms
proof (induction vs arbitrary: w V)
  case (Cons v vs)
  then obtain m where m: "pb_parse E v = (True, m)" "v = pb_serialize E m" by auto
  define e1 where "e1 = (if stamped then (make_CrossTx (pb_serialize E) m)
      \<lparr>send_ack_timeout := Some (high_resolution E (trace w) + ack_period)\<rparr> else make_CrossTx (pb_serialize E) m)"
  define w1 where "w1 = emplace_entry t e1 (if stamped then log_io ClockRead w else w)"
  have run: "load_entries E t stamped vs w1 = Done () w'"
    using Cons.prems(4) m(1) by (simp add: m(2) w1_def e1_def prog_simps HighResolution_def split: if_splits)
  have tab: "tables w1 t = m_emplace (cross_tx_id e1) e1 (tables w t)"
    by (simp add: w1_def emplace_entry_def)
  have info: "cross_tx_info e1 = v" by (simp add: e1_def m)
  have "\<forall>i e. map_of (tables w1 t) i = Some e \<longrightarrow> cross_tx_info e \<in> insert v V"
    using Cons.prems(2,3) info by (simp add: tab map_of_emplace)
  from Cons.IH [of w1 "insert v V"] this run Cons.prems show ?case by (simp add: tab)
qed (auto simp: prog_simps)

text \<open>The database of an agent: nothing but its own entries.\<close>

definition stored_ok :: "('d, 'j) env \<Rightarrow> 'd \<Rightarrow> bool" where
  "stored_ok E d \<longleftrightarrow> (\<forall>k v. rk_map (rocks E) d k = Some v \<longrightarrow>
     (\<exists>t m. plain_info m \<and> k = dbkey t (crosstxid m) \<and> v = pb_serialize E m))"

lemma coherent_stored: "coherent E w \<Longrightarrow> stored_ok E (db w)"
  by (simp add: coherent_def stored_ok_def)

text \<open>Table \<open>t\<close> agrees with the database.\<close>

definition table_ok :: "('d, 'j) env \<Rightarrow> table \<Rightarrow> 'd world \<Rightarrow> bool" where
  "table_ok E t w \<longleftrightarrow> sorted_map (tables w t) \<and>
     (\<forall>i e. map_of (tables w t) i = Some e \<longrightarrow> entry_ok E t i e) \<and>
     (\<forall>i. plain i \<longrightarrow> (i \<in> set (keys (tables w t)) \<longleftrightarrow> rk_map (rocks E) (db w) (dbkey t i) \<noteq> None))"

text \<open>Its entries are the stored messages themselves.\<close>

definition as_stored :: "('d, 'j) env \<Rightarrow> table \<Rightarrow> 'd world \<Rightarrow> bool" where
  "as_stored E t w \<longleftrightarrow> (\<forall>i e. map_of (tables w t) i = Some e \<longrightarrow>
     rk_map (rocks E) (db w) (dbkey t i) = Some (cross_tx_info e))"

lemma coherent_tables: "coherent E w \<longleftrightarrow> stored_ok E (db w) \<and> (\<forall>t. table_ok E t w)"
  unfolding coherent_def stored_ok_def table_ok_def by blast

lemma load_table_result:
  assumes ext: "external_ok E" and stored: "stored_ok E (db w)" and empty: "tables w t = []"
  shows "\<exists>w'. load_table E t (ack_table t) w = Done () w' \<and> db w' = db w \<and>
    (\<forall>u. u \<noteq> t \<longrightarrow> tables w' u = tables w u) \<and> table_ok E t w' \<and> as_stored E t w'"
proof -
  note ok = external_okD [OF ext]
  have iter: "rk_iter_ok (rocks E) (db w)" using ok(2) by (simp add: rocks_reliable_def)
  obtain vs where get: "Storage_GetAllValueByPrefix (rocks E) (table_prefix t) [] (db w) = (True, vs)"
    and vs: "set vs = {v. \<exists>k. has_prefix (table_prefix t) k \<and> rk_map (rocks E) (db w) k = Some v}"
    using GetAllValueByPrefix_spec [OF ok(1) iter] by blast
  have own: "\<exists>m. plain_info m \<and> v = pb_serialize E m \<and> rk_map (rocks E) (db w) (dbkey t (crosstxid m)) = Some v"
    if v: "v \<in> set vs" for v
  proof -
    from v vs obtain k where k: "has_prefix (table_prefix t) k" "rk_map (rocks E) (db w) k = Some v" by auto
    from stored k(2) obtain u m where m: "plain_info m" "k = dbkey u (crosstxid m)" "v = pb_serialize E m"
      unfolding stored_ok_def by blast
    moreover have "u = t" using k(1) m agent_keys.prefix_of_key [OF plain_info_id [OF m(1)]] by auto
    ultimately show ?thesis using k(2) by blast
  qed
  have parse: "pb_parse E (pb_serialize E m) = (True, m)" if "plain_info m" for m
    using ok(3) that by (simp add: protobuf_ok_def)
  obtain w' where w': "load_entries E t (ack_table t) vs w = Done () w'" "db w' = db w"
    "\<forall>u. u \<noteq> t \<longrightarrow> tables w' u = tables w u" "sorted_map (tables w' t)"
    "set (keys (tables w' t)) = (crosstxid \<circ> snd \<circ> pb_parse E) ` set vs"
    "\<forall>i e. map_of (tables w' t) i = Some e \<longrightarrow> entry_ok E t i e"
    using load_entries_result [OF ok(3) refl, where t = t and vs = vs and w = w] own empty by fastforce
  have "i \<in> set (keys (tables w' t)) \<longleftrightarrow> rk_map (rocks E) (db w') (dbkey t i) \<noteq> None" if i: "plain i" for i
  proof
    assume "i \<in> set (keys (tables w' t))"
    then obtain v where "v \<in> set vs" "i = crosstxid (snd (pb_parse E v))" using w'(5) by auto
    with own [of v] parse w'(2) show "rk_map (rocks E) (db w') (dbkey t i) \<noteq> None" by force
  next
    assume "rk_map (rocks E) (db w') (dbkey t i) \<noteq> None"
    then obtain v where v: "rk_map (rocks E) (db w) (dbkey t i) = Some v" using w'(2) by auto
    with stored obtain u m where m: "plain_info m" "dbkey t i = dbkey u (crosstxid m)" "v = pb_serialize E m"
      unfolding stored_ok_def by blast
    then have "i = crosstxid m" using agent_keys.key_inject [OF i plain_info_id [OF m(1)]] by auto
    moreover have "v \<in> set vs" using v i vs agent_keys.prefix_of_key [OF i] by auto
    ultimately show "i \<in> set (keys (tables w' t))" using w'(5) m parse by force
  qed
  then have table: "table_ok E t w'" using w' by (simp add: table_ok_def)
  have "as_stored E t w'"
    unfolding as_stored_def
  proof (intro allI impI)
    fix i e assume e: "map_of (tables w' t) i = Some e"
    have "cross_tx_info e \<in> {} \<union> set vs"
      by (rule load_entries_info [OF _ _ _ w'(1) e]) (use own parse empty in fastforce)+
    then obtain m where m: "plain_info m" "cross_tx_info e = pb_serialize E m"
      "rk_map (rocks E) (db w) (dbkey t (crosstxid m)) = Some (cross_tx_info e)"
      using own by fastforce
    have "entry_ok E t i e" using w'(6) e by blast
    then obtain n where n: "pb_parse E (cross_tx_info e) = (True, n)" "crosstxid n = i"
      using entry_ok_parse [OF ok(3)] by metis
    with m parse have "crosstxid m = i" by simp
    with m(3) w'(2) show "rk_map (rocks E) (db w') (dbkey t i) = Some (cross_tx_info e)" by simp
  qed
  moreover have "load_table E t (ack_table t) w = Done () w'"
    using w'(1) get by (simp add: load_table_def prog_simps GetAllValueByPrefix_def)
  ultimately show ?thesis using w' table by blast
qed

fun load_tables :: "('d, 'j) env \<Rightarrow> table list \<Rightarrow> (unit, 'd) agent" where
  "load_tables E [] = ret ()"
| "load_tables E (t # ts) = andThen (load_table E t (ack_table t)) (\<lambda>_. load_tables E ts)"

lemma table_ok_cong:
  "tables w' t = tables w t \<Longrightarrow> db w' = db w \<Longrightarrow>
   table_ok E t w' = table_ok E t w \<and> as_stored E t w' = as_stored E t w"
  by (simp add: table_ok_def as_stored_def)

lemma load_tables_result:
  assumes "external_ok E" and "stored_ok E (db w)" and "distinct ts" and "\<forall>t \<in> set ts. tables w t = []"
  shows "\<exists>w'. load_tables E ts w = Done () w' \<and> db w' = db w \<and>
    (\<forall>u. u \<notin> set ts \<longrightarrow> tables w' u = tables w u) \<and> (\<forall>t \<in> set ts. table_ok E t w' \<and> as_stored E t w')"
  using assms(2-4)
proof (induction ts arbitrary: w)
  case (Cons t ts)
  obtain w1 where w1: "load_table E t (ack_table t) w = Done () w1" "db w1 = db w"
    "\<forall>u. u \<noteq> t \<longrightarrow> tables w1 u = tables w u" "table_ok E t w1" "as_stored E t w1"
    using load_table_result [OF assms(1) Cons.prems(1), of t] Cons.prems(3) by auto
  have "\<forall>u \<in> set ts. tables w1 u = []" using w1(3) Cons.prems by auto
  then obtain w' where w': "load_tables E ts w1 = Done () w'" "db w' = db w1"
    "\<forall>u. u \<notin> set ts \<longrightarrow> tables w' u = tables w1 u" "\<forall>u \<in> set ts. table_ok E u w' \<and> as_stored E u w'"
    using Cons.IH [of w1] Cons.prems w1(2) by auto
  have "table_ok E t w' \<and> as_stored E t w'" using w1(4,5) w'(2,3) Cons.prems(2) table_ok_cong [of w' t w1 E] by simp
  with w1 w' have "load_tables E (t # ts) w = Done () w' \<and> db w' = db w \<and>
    (\<forall>u. u \<notin> set (t # ts) \<longrightarrow> tables w' u = tables w u) \<and> (\<forall>t \<in> set (t # ts). table_ok E t w' \<and> as_stored E t w')"
    by (simp add: prog_simps)
  then show ?case by blast
qed (simp add: prog_simps)

definition all_tables :: "table list" where
  "all_tables = [L1_send_tx_info_map, L1_send_ack_info_map, L1_reply_ack_info_map,
     L2_start_tx_info_map, L2_send_tx_info_map, L2_send_ack_info_map, L2_reply_ack_info_map]"

lemma in_all_tables: "t \<in> set all_tables"
  by (cases t) (simp_all add: all_tables_def)

lemma Initialize_both:
  "andThen (A_Initialize E) (\<lambda>_. andThen (B_Initialize E) (\<lambda>_. ret True)) =
   andThen (load_tables E all_tables) (\<lambda>_. ret True)"
  by (simp add: A_Initialize_def B_Initialize_def all_tables_def andThen_assoc)

lemma Initialize_recovers:
  assumes "external_ok E" and "stored_ok E (db w)"
  shows "\<exists>w'. andThen (A_Initialize E) (\<lambda>_. andThen (B_Initialize E) (\<lambda>_. ret True)) (fresh_process w) = Done True w' \<and>
    db w' = db w \<and> coherent E w' \<and> (\<forall>t. as_stored E t w')"
proof -
  have "distinct all_tables" by (simp add: all_tables_def)
  then obtain w' where w': "load_tables E all_tables (fresh_process w) = Done () w'"
    "db w' = db (fresh_process w)" "\<forall>t \<in> set all_tables. table_ok E t w' \<and> as_stored E t w'"
    using load_tables_result [OF assms(1), of "fresh_process w" all_tables] assms(2)
    by (auto simp: fresh_process_def)
  then have "coherent E w'"
    unfolding coherent_tables using assms(2) in_all_tables by (auto simp: fresh_process_def)
  with w' in_all_tables show ?thesis unfolding Initialize_both by (simp add: prog_simps fresh_process_def)
qed

lemma only_trace_Done: "only_trace m \<Longrightarrow> m w = Done a w' \<Longrightarrow> db w' = db w \<and> tables w' = tables w"
  unfolding only_trace_def by (metis state_of.simps(1))

lemma only_trace_Check:
  "only_trace (CheckLayer1Balance E)" "only_trace (CheckLayer2Balance E)"
  unfolding CheckLayer1Balance_def CheckLayer2Balance_def min_balance_def Let_def
  by (intro only_trace_intros)+

lemma fresh_process_only_trace:
  "db w' = db w \<Longrightarrow> tables w' = tables w \<Longrightarrow> tables w = (\<lambda>_. []) \<Longrightarrow> fresh_process w' = w'"
  by (simp add: fresh_process_def)

lemma Manager_Initialize_recovers:
  assumes "external_ok E" and "stored_ok E (db w)" and "Manager_Initialize E (fresh_process w) = Done True w'"
  shows "coherent E w'" and "db w' = db w" and "as_stored E t w'"
proof -
  from assms(3) obtain w2 where w2: "db w2 = db w" "tables w2 = (\<lambda>_. [])"
    "andThen (A_Initialize E) (\<lambda>_. andThen (B_Initialize E) (\<lambda>_. ret True)) w2 = Done True w'"
    unfolding Manager_Initialize_def andThen_Done
    by (auto simp: andThen_Done ret_def fresh_process_def split: if_splits
        dest!: only_trace_Done [OF only_trace_Check(1)] only_trace_Done [OF only_trace_Check(2)])
  have "fresh_process w2 = w2" using w2(2) by (simp add: fresh_process_def)
  then show "coherent E w'" and "db w' = db w" and "as_stored E t w'"
    using Initialize_recovers [OF assms(1), of w2] assms(2) w2 by auto
qed

lemma agent_step_coherent:
  assumes "external_ok E" and "parsers_ok P" and "coherent E w" and "agent_step E P w w'"
  shows "coherent E w'"
  using assms(4)
proof (rule agent_stepE)
  fix ev
  show "react E P ev w = Done () w' \<Longrightarrow> coherent E w'"
    using keeps_Done [OF keeps_react [OF assms(1,2)] assms(3)] by blast
next
  show "Manager_Initialize E (fresh_process w) = Done True w' \<Longrightarrow> coherent E w'"
    using Manager_Initialize_recovers(1) [OF assms(1) coherent_stored [OF assms(3)]] .
next
  fix ev f w1
  assume "react E P ev w = Fault f w1"
  then have "coherent E w1" using keeps_Fault [OF keeps_react [OF assms(1,2)] assms(3)] by blast
  then show "Manager_Initialize E (fresh_process w1) = Done True w' \<Longrightarrow> coherent E w'"
    using Manager_Initialize_recovers(1) [OF assms(1) coherent_stored] by blast
qed

end
