(* ===== verification/Progress.thy ===== *)
theory Progress
  imports Handle_Manager
begin

text \<open>
  What the operations do to the sets of pending transactions: a successful send adds its
  transaction to one table, a clear removes one; the loops over a table end, and they end
  normally only when they removed nothing; a transaction that waits in one table is dropped
  from it only after it has entered the next.
\<close>

definition pending :: "'d world \<Rightarrow> table \<Rightarrow> string set" where
  "pending w t = set (keys (tables w t))"

lemma pending_cong: "tables w' = tables w \<Longrightarrow> pending w' = pending w"
  by (simp add: pending_def fun_eq_iff)

lemma pending_emplace [simp]:
  "pending (emplace_entry t e w) = (pending w)(t := insert (cross_tx_id e) (pending w t))"
  by (simp add: pending_def emplace_entry_def fun_eq_iff)

lemma pending_erase:
  "sorted_map (tables w t) \<Longrightarrow> pending (erase_entry t i w) = (pending w)(t := pending w t - {i})"
  by (simp add: pending_def erase_entry_def fun_eq_iff)

lemma pending_set_ack_timeout [simp]: "pending (set_ack_timeout t i v w) = pending w"
proof (cases "map_of (tables w t) i")
  case (Some e)
  then have "insert i (set (keys (tables w t))) = set (keys (tables w t))"
    by (simp add: insert_absorb map_of_Some_keys)
  with Some show ?thesis by (simp add: set_ack_timeout_def pending_def fun_eq_iff)
qed (simp add: set_ack_timeout_def)

lemma pending_db [simp]: "pending (w\<lparr>db := d\<rparr>) = pending w" "pending (log_io e w) = pending w"
  by (simp_all add: pending_def fun_eq_iff)

section \<open>Effects of a run\<close>

text \<open>\<open>adds t i m\<close>: when \<open>m\<close> returns true, \<open>i\<close> has been added to table \<open>t\<close>; otherwise the
  pending sets are as before. \<open>drops t i m\<close>: \<open>m\<close> returns, and \<open>i\<close> is gone from \<open>t\<close>.\<close>

definition adds :: "table \<Rightarrow> string \<Rightarrow> (bool, 'd) agent \<Rightarrow> bool" where
  "adds t i m \<longleftrightarrow> (\<forall>w. (\<forall>f w'. m w = Fault f w' \<longrightarrow> pending w' = pending w \<and> f \<noteq> OutOfFuel) \<and>
     (\<forall>r w'. m w = Done r w' \<longrightarrow>
        pending w' = (if r then (pending w)(t := insert i (pending w t)) else pending w)))"

definition drops :: "table \<Rightarrow> string \<Rightarrow> (bool, 'd) agent \<Rightarrow> bool" where
  "drops t i m \<longleftrightarrow> (\<forall>w. sorted_map (tables w t) \<longrightarrow>
     (\<exists>w'. m w = Done True w' \<and> pending w' = (pending w)(t := pending w t - {i})))"

lemma save_runs:
  "\<exists>w'. save_entry E t (Some e) w = Done True w' \<and>
     pending w' = (pending w)(t := insert (cross_tx_id e) (pending w t))"
  "\<exists>w'. save_then_stamp E t (Some e) w = Done True w' \<and>
     pending w' = (pending w)(t := insert (cross_tx_id e) (pending w t))"
  "\<exists>w'. stamp_then_save E t (Some e) w = Done True w' \<and>
     pending w' = (pending w)(t := insert (cross_tx_id e) (pending w t))"
  by (auto simp: save_entry_def save_then_stamp_def stamp_then_save_def DBPut_def HighResolution_def
      prog_simps split: prod.splits)

lemma drops_clear_entry: "drops t i (clear_entry E t i)"
  by (auto simp: drops_def clear_entry_def DBDelete_def prog_simps pending_erase split: prod.splits)

lemma only_trace_pending:
  "only_trace m \<Longrightarrow> m w = Done a w' \<Longrightarrow> pending w' = pending w"
  "only_trace m \<Longrightarrow> m w = Fault f w' \<Longrightarrow> pending w' = pending w"
  "only_trace m \<Longrightarrow> m w \<noteq> Fault OutOfFuel w'"
  unfolding only_trace_def by (metis pending_cong state_of.simps)+

lemma adds_send_and_save:
  assumes "\<And>h w. \<exists>w'. save h w = Done True w' \<and> pending w' = (pending w)(t := insert i (pending w t))"
  shows "adds t i (andThen (send_transaction E cfg fresh input amt) (\<lambda>r.
      case r of None \<Rightarrow> ret False | Some txhash \<Rightarrow> andThen (save txhash) (\<lambda>_. ret True)))"
proof -
  have tail: "\<exists>w'. (case r of None \<Rightarrow> ret False | Some txhash \<Rightarrow> andThen (save txhash) (\<lambda>_. ret True)) w
      = Done (r \<noteq> None) w' \<and> pending w' = (if r \<noteq> None then (pending w)(t := insert i (pending w t)) else pending w)"
    for r w
  proof (cases r)
    case (Some h)
    obtain w' where "save h w = Done True w'" "pending w' = (pending w)(t := insert i (pending w t))"
      using assms by blast
    with Some show ?thesis by (simp add: prog_simps)
  qed (simp add: prog_simps)
  have step: "pending w' = (if b then (pending w)(t := insert i (pending w t)) else pending w)"
    if "(case r of None \<Rightarrow> ret False | Some txhash \<Rightarrow> andThen (save txhash) (\<lambda>_. ret True)) w = Done b w'" for r w b w'
    using that tail [of r w] by auto
  have nofault: "(case r of None \<Rightarrow> ret False | Some txhash \<Rightarrow> andThen (save txhash) (\<lambda>_. ret True)) w \<noteq> Fault f w'"
    for r w f w'
    using tail [of r w] by auto
  show ?thesis
    unfolding adds_def andThen_Done andThen_Fault
    using only_trace_pending [OF only_trace_send_transaction [of E cfg fresh input amt]] step nofault
    by metis
qed

lemma adds_sends:
  "adds L1_send_tx_info_map (crosstxid m) (A_SendTxToLayer2 E m)"
  "adds L1_send_ack_info_map (crosstxid m) (A_SendAckToLayer1 E m)"
  "adds L1_reply_ack_info_map (crosstxid m) (A_ReplyAckToLayer2 E m)"
  "adds L2_send_tx_info_map (crosstxid m) (B_SendTxToLayer1 E m)"
  "adds L2_send_ack_info_map (crosstxid m) (B_SendAckToLayer2 E m)"
  "adds L2_reply_ack_info_map (crosstxid m) (B_ReplyAckToLayer1 E m)"
  unfolding A_SendTxToLayer2_def A_SendAckToLayer1_def A_ReplyAckToLayer2_def
    B_SendTxToLayer1_def B_SendAckToLayer2_def B_ReplyAckToLayer1_def
    A_sendTransactionToLayer1_def A_sendTransactionToLayer2_def
    B_sendTransactionToLayer1_def B_sendTransactionToLayer2_def
    A_SaveSendTxInfo_def A_SaveSendAckInfo_def A_SaveReplyAckInfo_def
    B_SaveSendTxInfo_def B_SaveSendAckInfo_def B_SaveReplyAckInfo_def
  by (rule adds_send_and_save, use save_runs in fastforce)+

lemma drops_clears:
  "drops L1_send_tx_info_map i (A_ClearSendTxInfo E i)"
  "drops L1_send_ack_info_map i (A_ClearSendAckInfo E i)"
  "drops L1_reply_ack_info_map i (A_ClearReplyAckInfo E i)"
  "drops L2_start_tx_info_map i (B_ClearStartTxInfo E i)"
  "drops L2_send_tx_info_map i (B_ClearSendTxInfo E i)"
  "drops L2_send_ack_info_map i (B_ClearSendAckInfo E i)"
  "drops L2_reply_ack_info_map i (B_ClearReplyAckInfo E i)"
  unfolding A_ClearSendTxInfo_def A_ClearSendAckInfo_def A_ClearReplyAckInfo_def B_ClearStartTxInfo_def
    B_ClearSendTxInfo_def B_ClearSendAckInfo_def B_ClearReplyAckInfo_def
  by (rule drops_clear_entry)+

section \<open>The loops\<close>

text \<open>What a body may do to the table it is called from.\<close>

definition keeps_or_erases :: "('d, 'j) env \<Rightarrow> table \<Rightarrow> string \<Rightarrow> (unit, 'd) agent \<Rightarrow> bool" where
  "keeps_or_erases E t k m \<longleftrightarrow> (\<forall>w. coherent E w \<longrightarrow> k \<in> pending w t \<longrightarrow>
     coherent E (state_of (m w)) \<and>
     (pending (state_of (m w)) t = pending w t \<or> pending (state_of (m w)) t = pending w t - {k}) \<and>
     (\<forall>w'. m w \<noteq> Fault OutOfFuel w'))"

lemma find_entry_run:
  "k \<in> pending w t \<Longrightarrow> \<exists>e. find_entry t k w = Done e w \<and> map_of (tables w t) k = Some e"
  "k \<notin> pending w t \<Longrightarrow> find_entry t k w = Fault IteratorInvalid w"
  by (auto simp: find_entry_def pending_def keys_map_of split: option.splits)

text \<open>One round of the loop at a key that is there.\<close>

lemma iterate_round:
  assumes "coherent E w" and "k \<in> pending w t"
    and e: "map_of (tables w t) k = Some e" and body: "keeps_or_erases E t k (body k e)"
  shows "(\<exists>f w'. iterate (Suc n) t body (Some k) w = Fault f w' \<and> f \<noteq> OutOfFuel) \<or>
    (\<exists>w'. body k e w = Done () w' \<and> coherent E w' \<and> pending w' t = pending w t \<and>
       iterate (Suc n) t body (Some k) w = iterate n t body (m_next k (tables w' t)) w')"
proof (cases "body k e w")
  case (Fault f w')
  moreover have "f \<noteq> OutOfFuel" using body assms(1,2) Fault unfolding keeps_or_erases_def by blast
  ultimately show ?thesis
    using e by (simp add: prog_simps find_entry_def)
next
  case (Done a w')
  have a: "a = ()" by simp
  have eff: "coherent E w'" "pending w' t = pending w t \<or> pending w' t = pending w t - {k}"
    using body assms(1,2) Done unfolding keeps_or_erases_def by (metis state_of.simps(1))+
  show ?thesis
  proof (cases "k \<in> pending w' t")
    case True
    then have "pending w' t = pending w t" using eff(2) by auto
    moreover obtain e' where "find_entry t k w' = Done e' w'" using find_entry_run(1) [OF True] by blast
    ultimately show ?thesis
      using e Done eff(1) by (simp add: prog_simps find_entry_def)
  next
    case False
    then show ?thesis
      using e Done find_entry_run(2) [OF False] by (simp add: prog_simps find_entry_def)
  qed
qed

text \<open>The loop is never cut short by the bound, and it returns only with the table's keys as they
  were.\<close>

lemma iterate_result:
  assumes body: "\<And>k e. entry_ok E t k e \<Longrightarrow> keeps_or_erases E t k (body k e)"
  shows "coherent E w \<Longrightarrow> (case ko of None \<Rightarrow> True | Some k \<Rightarrow> k \<in> pending w t \<and>
      card {q \<in> pending w t. k \<le> q} \<le> n) \<Longrightarrow>
    (\<forall>w'. iterate n t body ko w \<noteq> Fault OutOfFuel w') \<and>
    (\<forall>w'. iterate n t body ko w = Done () w' \<longrightarrow> pending w' t = pending w t)"
proof (induction n arbitrary: ko w)
  case 0
  show ?case
  proof (cases ko)
    case (Some k)
    have "finite {q \<in> pending w t. k \<le> q}" by (simp add: pending_def)
    moreover have "k \<in> {q \<in> pending w t. k \<le> q}" using 0 Some by simp
    ultimately have "card {q \<in> pending w t. k \<le> q} > 0" by (metis card_gt_0_iff empty_iff)
    with 0 Some show ?thesis by simp
  qed (simp add: prog_simps)
next
  case (Suc n)
  show ?case
  proof (cases ko)
    case (Some k)
    with Suc.prems have k: "k \<in> pending w t" "card {q \<in> pending w t. k \<le> q} \<le> Suc n" by simp_all
    obtain e where e: "map_of (tables w t) k = Some e" using find_entry_run(1) [OF k(1)] by blast
    from iterate_round [where n = n and body = body, OF Suc.prems(1) k(1) e body [OF coherent_entry [OF Suc.prems(1) e]]]
    consider f w' where "iterate (Suc n) t body (Some k) w = Fault f w'" "f \<noteq> OutOfFuel"
      | w' where "coherent E w'" "pending w' t = pending w t"
          "iterate (Suc n) t body (Some k) w = iterate n t body (m_next k (tables w' t)) w'"
      by blast
    then show ?thesis
    proof cases
      case 1
      then show ?thesis using Some by auto
    next
      case 2
      have "case m_next k (tables w' t) of None \<Rightarrow> True | Some k' \<Rightarrow> k' \<in> pending w' t \<and>
          card {q \<in> pending w' t. k' \<le> q} \<le> n"
      proof (cases "m_next k (tables w' t)")
        case (Some k')
        have nxt: "k' \<in> pending w' t" "k < k'"
          using m_next_Some [OF coherent_sorted [OF 2(1)] Some] by (auto simp: pending_def)
        have "{q \<in> pending w' t. k' \<le> q} \<subseteq> {q \<in> pending w t. k \<le> q} - {k}"
          using nxt(2) 2(2) by (auto simp: less_le_not_le intro: order_trans less_imp_le)
        moreover have "finite {q \<in> pending w t. k \<le> q}" by (simp add: pending_def)
        moreover have "k \<in> {q \<in> pending w t. k \<le> q}" using k(1) by simp
        ultimately have "card {q \<in> pending w' t. k' \<le> q} < card {q \<in> pending w t. k \<le> q}"
          by (intro psubset_card_mono) auto
        with k(2) nxt(1) Some show ?thesis by simp
      qed simp
      from Suc.IH [OF 2(1) this] 2 Some show ?thesis by simp
    qed
  qed (simp add: prog_simps)
qed

lemma for_each_result:
  assumes "\<And>k e. entry_ok E t k e \<Longrightarrow> keeps_or_erases E t k (body k e)" and "coherent E w"
  shows "for_each t body w \<noteq> Fault OutOfFuel w'"
    and "for_each t body w = Done () w' \<Longrightarrow> pending w' t = pending w t"
proof -
  have "case m_first (tables w t) of None \<Rightarrow> True | Some k \<Rightarrow> k \<in> pending w t \<and>
      card {q \<in> pending w t. k \<le> q} \<le> Suc (length (tables w t))"
  proof (cases "m_first (tables w t)")
    case (Some k)
    then obtain v m where "tables w t = (k, v) # m" by (cases "tables w t" rule: m_first.cases) auto
    then have "k \<in> pending w t" by (simp add: pending_def)
    moreover have "card {q \<in> pending w t. k \<le> q} \<le> card (pending w t)"
      by (rule card_mono) (auto simp: pending_def)
    moreover have "card (pending w t) \<le> length (tables w t)"
      by (metis card_length keys_def length_map pending_def)
    ultimately show ?thesis using Some by simp
  qed simp
  from iterate_result [OF assms(1,2) this]
  show "for_each t body w \<noteq> Fault OutOfFuel w'"
    and "for_each t body w = Done () w' \<Longrightarrow> pending w' t = pending w t"
    by (simp_all add: for_each_def del: iterate.simps)
qed

section \<open>The bodies\<close>

text \<open>\<open>same t k m\<close>: as long as \<open>k\<close> is pending in \<open>t\<close>, \<open>m\<close> leaves the keys of \<open>t\<close> alone;
  \<open>may_erase t k m\<close>: it may take \<open>k\<close> out of it.\<close>

definition same :: "table \<Rightarrow> string \<Rightarrow> ('a, 'd) agent \<Rightarrow> bool" where
  "same t k m \<longleftrightarrow> (\<forall>w. k \<in> pending w t \<longrightarrow>
     pending (state_of (m w)) t = pending w t \<and> (\<forall>w'. m w \<noteq> Fault OutOfFuel w'))"

definition may_erase :: "('d, 'j) env \<Rightarrow> table \<Rightarrow> string \<Rightarrow> ('a, 'd) agent \<Rightarrow> bool" where
  "may_erase E t k m \<longleftrightarrow> (\<forall>w. coherent E w \<longrightarrow> k \<in> pending w t \<longrightarrow>
     (pending (state_of (m w)) t = pending w t \<or> pending (state_of (m w)) t = pending w t - {k}) \<and>
     (\<forall>w'. m w \<noteq> Fault OutOfFuel w'))"

named_theorems same_intros \<open>programs that leave the keys of a table alone\<close>

lemma same_only_trace: "only_trace m \<Longrightarrow> same t k m"
  unfolding same_def only_trace_def by (metis pending_cong)

lemma same_adds_other: "adds u i m \<Longrightarrow> u \<noteq> t \<Longrightarrow> same t k m"
  unfolding same_def adds_def
  by (metis (no_types, lifting) fun_upd_other outcome.exhaust outcome.inject(2) outcome.distinct(1) state_of.simps)

lemma same_adds_again: "adds t k m \<Longrightarrow> same t k m"
  unfolding same_def adds_def
  by (metis (no_types, lifting) fun_upd_apply insert_absorb outcome.exhaust outcome.inject(2) outcome.distinct(1) state_of.simps)

lemma same_restamp [same_intros]: "same t k (change (set_ack_timeout t i v))"
  by (simp add: same_def change_def)

lemma same_ret [same_intros]: "same t k (ret a)"
  by (simp add: same_def ret_def)

lemma same_run:
  assumes "same t k m" and "k \<in> pending w t"
  shows "m w = Done a w' \<Longrightarrow> pending w' t = pending w t"
    and "m w = Fault f w' \<Longrightarrow> pending w' t = pending w t \<and> f \<noteq> OutOfFuel"
  using assms(1) [unfolded same_def, rule_format, OF assms(2)] by auto

lemma same_andThen [same_intros]:
  fixes m :: "('a, 'd) agent"
  assumes "same t k m" and "\<And>a. same t k (h a)"
  shows "same t k (andThen m h)"
  unfolding same_def
proof (intro allI impI)
  fix w :: "'d world" assume k: "k \<in> pending w t"
  show "pending (state_of (andThen m h w)) t = pending w t \<and> (\<forall>w'. andThen m h w \<noteq> Fault OutOfFuel w')"
  proof (cases "m w")
    case (Done a w1)
    have eq: "pending w1 t = pending w t" using same_run(1) [OF assms(1) k Done] .
    with k have "k \<in> pending w1 t" by simp
    from assms(2) [of a, unfolded same_def, rule_format, OF this] eq Done
    show ?thesis by (simp add: andThen_def)
  next
    case (Fault f w1)
    with same_run(2) [OF assms(1) k Fault] show ?thesis by (simp add: andThen_def)
  qed
qed

lemma may_erase_same: "same t k m \<Longrightarrow> may_erase E t k m"
  by (simp add: same_def may_erase_def)

lemma may_erase_yields:
  fixes m :: "('a, 'd) agent"
  assumes "same t k m" and y: "yields (coherent E) m Q" and "\<And>a. Q a \<Longrightarrow> may_erase E t k (h a)"
  shows "may_erase E t k (andThen m h)"
  unfolding may_erase_def
proof (intro allI impI)
  fix w assume co: "coherent E w" and k: "k \<in> pending w t"
  show "(pending (state_of (andThen m h w)) t = pending w t \<or>
      pending (state_of (andThen m h w)) t = pending w t - {k}) \<and> (\<forall>w'. andThen m h w \<noteq> Fault OutOfFuel w')"
  proof (cases "m w")
    case (Done a w1)
    have eq: "pending w1 t = pending w t" using same_run(1) [OF assms(1) k Done] .
    with k have k1: "k \<in> pending w1 t" by simp
    from y [unfolded yields_def, rule_format, OF co] Done have "coherent E w1" "Q a" by simp_all
    from assms(3) [OF this(2), unfolded may_erase_def, rule_format, OF this(1) k1] eq Done
    show ?thesis by (simp add: andThen_def)
  next
    case (Fault f w1)
    with same_run(2) [OF assms(1) k Fault] show ?thesis by (simp add: andThen_def)
  qed
qed

lemma may_erase_andThen:
  assumes "same t k m" and "keeps (coherent E) m" and "\<And>a. may_erase E t k (h a)"
  shows "may_erase E t k (andThen m h)"
  by (rule may_erase_yields [OF assms(1) yields_top [OF assms(2)] assms(3)])

lemma may_erase_drops:
  assumes "drops t k m"
  shows "may_erase E t k (andThen m (\<lambda>_. ret a))"
  unfolding may_erase_def
proof (intro allI impI)
  fix w assume "coherent E w" "k \<in> pending w t"
  then obtain w' where "m w = Done True w'" "pending w' = (pending w)(t := pending w t - {k})"
    using assms coherent_sorted unfolding drops_def by metis
  then show "(pending (state_of (andThen m (\<lambda>_. ret a) w)) t = pending w t \<or>
      pending (state_of (andThen m (\<lambda>_. ret a) w)) t = pending w t - {k}) \<and>
      (\<forall>w'. andThen m (\<lambda>_. ret a) w \<noteq> Fault OutOfFuel w')"
    by (simp add: prog_simps)
qed

lemma may_erase_then_ret:
  assumes "may_erase E t k m"
  shows "may_erase E t k (andThen m (\<lambda>_. ret a))"
  unfolding may_erase_def
proof (intro allI impI)
  fix w assume "coherent E w" "k \<in> pending w t"
  from assms [unfolded may_erase_def, rule_format, OF this]
  show "(pending (state_of (andThen m (\<lambda>_. ret a) w)) t = pending w t \<or>
      pending (state_of (andThen m (\<lambda>_. ret a) w)) t = pending w t - {k}) \<and>
      (\<forall>w'. andThen m (\<lambda>_. ret a) w \<noteq> Fault OutOfFuel w')"
    by (cases "m w") (simp_all add: prog_simps)
qed

lemma may_erase_if:
  "may_erase E t k m \<Longrightarrow> may_erase E t k n \<Longrightarrow> may_erase E t k (if b then m else n)"
  by simp

lemma may_erase_option:
  "may_erase E t k m \<Longrightarrow> (\<And>a. may_erase E t k (h a)) \<Longrightarrow> may_erase E t k (case x of None \<Rightarrow> m | Some a \<Rightarrow> h a)"
  by (cases x) simp_all

lemma may_erase_ret: "may_erase E t k (ret a)"
  by (rule may_erase_same) (rule same_ret)

lemma keeps_or_erasesI:
  "keeps (coherent E) m \<Longrightarrow> may_erase E t k m \<Longrightarrow> keeps_or_erases E t k m"
  by (auto simp: keeps_or_erases_def may_erase_def keeps_def)

lemma same_sends_A:
  "t \<noteq> L1_send_tx_info_map \<Longrightarrow> same t k (A_SendTxToLayer2 E m)"
  "t \<noteq> L1_send_ack_info_map \<or> crosstxid m = k \<Longrightarrow> same t k (A_SendAckToLayer1 E m)"
  "t \<noteq> L1_reply_ack_info_map \<or> crosstxid m = k \<Longrightarrow> same t k (A_ReplyAckToLayer2 E m)"
  using adds_sends(1-3) [of m E] by (blast intro: same_adds_other same_adds_again)+

lemma same_sends_B:
  "t \<noteq> L2_send_tx_info_map \<Longrightarrow> same t k (B_SendTxToLayer1 E m)"
  "t \<noteq> L2_send_ack_info_map \<or> crosstxid m = k \<Longrightarrow> same t k (B_SendAckToLayer2 E m)"
  "t \<noteq> L2_reply_ack_info_map \<or> crosstxid m = k \<Longrightarrow> same t k (B_ReplyAckToLayer1 E m)"
  using adds_sends(4-6) [of m E] by (blast intro: same_adds_other same_adds_again)+

lemma only_trace_makeCrossTxInfo [only_trace_intros]:
  "only_trace (A_makeCrossTxInfo m info1 info2)" "only_trace (B_makeCrossTxInfo m info1 info2)"
  unfolding A_makeCrossTxInfo_def B_makeCrossTxInfo_def Let_def by (intro only_trace_intros)+

lemma may_erase_message:
  assumes get: "only_trace get" "yields (coherent E) get plain_pair"
    and mk: "\<And>i j. only_trace (mk i j)"
      "\<And>i j. plain i \<Longrightarrow> plain j \<Longrightarrow> yields (coherent E) (mk i j) plain_msg"
    and h: "\<And>m. plain_info m \<Longrightarrow> may_erase E t k (h m)"
  shows "may_erase E t k (andThen get (\<lambda>infos. case infos of None \<Rightarrow> ret False | Some (info1, info2) \<Rightarrow>
       andThen (mk info1 info2) (\<lambda>r. case r of None \<Rightarrow> ret False | Some m \<Rightarrow> h m)))"
proof (rule may_erase_yields [OF same_only_trace [OF get(1)] get(2)])
  fix infos assume pp: "plain_pair infos"
  show "may_erase E t k (case infos of None \<Rightarrow> ret False | Some (info1, info2) \<Rightarrow>
       andThen (mk info1 info2) (\<lambda>r. case r of None \<Rightarrow> ret False | Some m \<Rightarrow> h m))"
  proof (cases infos)
    case (Some p)
    obtain i j where p: "p = (i, j)" by fastforce
    with Some pp have "plain i" "plain j" by (simp_all add: plain_pair_def)
    from may_erase_yields [OF same_only_trace [OF mk(1)] mk(2) [OF this], where h = "\<lambda>r. case r of None \<Rightarrow> ret False | Some m \<Rightarrow> h m"]
    show ?thesis
      unfolding Some p option.case prod.case using h by (auto simp: plain_msg_def may_erase_ret split: option.splits)
  qed (simp add: may_erase_ret)
qed

lemma may_erase_handleSendTxEvent:
  assumes "external_ok E"
  shows "may_erase E L1_send_tx_info_map k (A_handleSendTxEvent E k st)"
    and "may_erase E L2_send_tx_info_map k (B_handleSendTxEvent E k st)"
  unfolding A_handleSendTxEvent_def B_handleSendTxEvent_def
  by (intro may_erase_message only_trace_intros yields_infos assms yields_A_makeCrossTxInfo yields_B_makeCrossTxInfo
      may_erase_andThen keeps_A_Send keeps_B_Send may_erase_if may_erase_drops drops_clears may_erase_ret
      same_sends_A same_sends_B plain_new_CrossTxInfo plain_info_hashes fits32_i32; simp)+

lemma drops_c_str: "plain k \<Longrightarrow> c_str k = k"
  by simp

lemma may_erase_bodies_A:
  assumes ext: "external_ok E"
  shows "entry_ok E L1_send_tx_info_map k e \<Longrightarrow>
      may_erase E L1_send_tx_info_map k (A_SendTxToLayer2TimeOut_body E now k e)"
    and "entry_ok E L1_send_ack_info_map k e \<Longrightarrow>
      may_erase E L1_send_ack_info_map k (A_SendAckToLayer1TimeOut_body E now k e)"
    and "entry_ok E L1_reply_ack_info_map k e \<Longrightarrow>
      may_erase E L1_reply_ack_info_map k (A_ReplyAckToLayer2TimeOut_body E now k e)"
proof -
  show "may_erase E L1_send_tx_info_map k (A_SendTxToLayer2TimeOut_body E now k e)"
    if e: "entry_ok E L1_send_tx_info_map k e"
  proof -
    let ?m = "(snd (pb_parse E (cross_tx_info e)))\<lparr>status := CROSS_RESULT_TIMEOUT\<rparr>"
    have m: "plain_info ?m" "crosstxid ?m = k" "c_str (crosstxid ?m) = k"
      using entry_ok_message [OF ext e] entry_ok_plain [OF e] by simp_all
    have resend: "may_erase E L1_send_tx_info_map k (andThen (A_SendAckToLayer1 E ?m)
        (\<lambda>sent. if sent then andThen (A_ClearSendTxInfo E k) (\<lambda>_. ret ()) else ret ()))"
      by (intro may_erase_andThen may_erase_if may_erase_drops [OF drops_clears(1)] may_erase_ret
          same_sends_A keeps_A_Send [OF ext] m(1)) simp
    show ?thesis
      unfolding A_SendTxToLayer2TimeOut_body_def Let_def m(3) entry_ok_id [OF e]
      by (rule may_erase_if [OF may_erase_andThen [OF same_only_trace keeps_coherent_only_trace may_erase_if] may_erase_ret])
         (intro only_trace_intros may_erase_then_ret may_erase_handleSendTxEvent [OF ext] resend)+
  qed
  show "may_erase E L1_send_ack_info_map k (A_SendAckToLayer1TimeOut_body E now k e)"
    if e: "entry_ok E L1_send_ack_info_map k e"
    using entry_ok_message [OF ext e]
    unfolding A_SendAckToLayer1TimeOut_body_def Let_def
    by (auto intro!: may_erase_if may_erase_ret may_erase_andThen same_only_trace only_trace_intros
        keeps_coherent_only_trace same_sends_A keeps_A_Send [OF ext] may_erase_drops [OF drops_clears(2)]
        may_erase_same [OF same_restamp])
  show "may_erase E L1_reply_ack_info_map k (A_ReplyAckToLayer2TimeOut_body E now k e)"
    if e: "entry_ok E L1_reply_ack_info_map k e"
    using entry_ok_message [OF ext e]
    unfolding A_ReplyAckToLayer2TimeOut_body_def Let_def
    by (auto intro!: may_erase_if may_erase_ret may_erase_andThen same_only_trace only_trace_intros
        keeps_coherent_only_trace same_sends_A keeps_A_Send [OF ext] may_erase_drops [OF drops_clears(3)]
        may_erase_same [OF same_restamp])
qed

lemma may_erase_bodies_B:
  assumes ext: "external_ok E"
  shows "entry_ok E L2_send_tx_info_map k e \<Longrightarrow>
      may_erase E L2_send_tx_info_map k (B_SendTxToLayer1TimeOut_body E now k e)"
    and "entry_ok E L2_start_tx_info_map k e \<Longrightarrow>
      may_erase E L2_start_tx_info_map k (B_HandleConfirmSeqEvent_body E n k e)"
    and "entry_ok E L2_start_tx_info_map k e \<Longrightarrow>
      may_erase E L2_start_tx_info_map k (B_StartTxTimeOut_body E now k e)"
    and "entry_ok E L2_send_ack_info_map k e \<Longrightarrow>
      may_erase E L2_send_ack_info_map k (B_SendAckToLayer2TimeOut_body E now k e)"
    and "entry_ok E L2_reply_ack_info_map k e \<Longrightarrow>
      may_erase E L2_reply_ack_info_map k (B_ReplyAckToLayer1TimeOut_body E now k e)"
proof -
  show "may_erase E L2_send_tx_info_map k (B_SendTxToLayer1TimeOut_body E now k e)"
    if e: "entry_ok E L2_send_tx_info_map k e"
  proof -
    let ?m = "(snd (pb_parse E (cross_tx_info e)))\<lparr>status := CROSS_RESULT_TIMEOUT\<rparr>"
    have m: "plain_info ?m" "crosstxid ?m = k" "c_str (crosstxid ?m) = k"
      using entry_ok_message [OF ext e] entry_ok_plain [OF e] by simp_all
    have resend: "may_erase E L2_send_tx_info_map k (andThen (B_SendAckToLayer2 E ?m)
        (\<lambda>sent. if sent then andThen (B_ClearSendTxInfo E k) (\<lambda>_. ret ()) else ret ()))"
      by (intro may_erase_andThen may_erase_if may_erase_drops [OF drops_clears(5)] may_erase_ret
          same_sends_B keeps_B_Send [OF ext] m(1)) simp
    show ?thesis
      unfolding B_SendTxToLayer1TimeOut_body_def Let_def m(3) entry_ok_id [OF e]
      by (rule may_erase_if [OF may_erase_andThen [OF same_only_trace keeps_coherent_only_trace may_erase_if] may_erase_ret])
         (intro only_trace_intros may_erase_then_ret may_erase_handleSendTxEvent [OF ext] resend)+
  qed
  show "may_erase E L2_start_tx_info_map k (B_HandleConfirmSeqEvent_body E n k e)"
    if e: "entry_ok E L2_start_tx_info_map k e"
    using entry_ok_message [OF ext e]
    unfolding B_HandleConfirmSeqEvent_body_def Let_def
    by (auto intro!: may_erase_if may_erase_ret may_erase_andThen same_only_trace only_trace_intros
        keeps_coherent_only_trace same_sends_B keeps_B_Send [OF ext] may_erase_drops [OF drops_clears(4)])
  show "may_erase E L2_start_tx_info_map k (B_StartTxTimeOut_body E now k e)"
    if e: "entry_ok E L2_start_tx_info_map k e"
    using entry_ok_message [OF ext e]
    unfolding B_StartTxTimeOut_body_def Let_def
    by (auto intro!: may_erase_if may_erase_ret may_erase_andThen same_only_trace only_trace_intros
        keeps_coherent_only_trace same_sends_B keeps_B_Send [OF ext] may_erase_drops [OF drops_clears(4)])
  show "may_erase E L2_send_ack_info_map k (B_SendAckToLayer2TimeOut_body E now k e)"
    if e: "entry_ok E L2_send_ack_info_map k e"
    using entry_ok_message [OF ext e]
    unfolding B_SendAckToLayer2TimeOut_body_def Let_def
    by (auto intro!: may_erase_if may_erase_ret may_erase_andThen same_only_trace only_trace_intros
        keeps_coherent_only_trace same_sends_B keeps_B_Send [OF ext] may_erase_drops [OF drops_clears(6)]
        may_erase_same [OF same_restamp])
  show "may_erase E L2_reply_ack_info_map k (B_ReplyAckToLayer1TimeOut_body E now k e)"
    if e: "entry_ok E L2_reply_ack_info_map k e"
    using entry_ok_message [OF ext e]
    unfolding B_ReplyAckToLayer1TimeOut_body_def Let_def
    by (auto intro!: may_erase_if may_erase_ret may_erase_andThen same_only_trace only_trace_intros
        keeps_coherent_only_trace same_sends_B keeps_B_Send [OF ext] may_erase_drops [OF drops_clears(7)]
        may_erase_same [OF same_restamp])
qed

lemma keeps_or_erases_bodies:
  assumes "external_ok E"
  shows "entry_ok E L1_send_tx_info_map k e \<Longrightarrow>
      keeps_or_erases E L1_send_tx_info_map k (A_SendTxToLayer2TimeOut_body E now k e)"
    and "entry_ok E L1_send_ack_info_map k e \<Longrightarrow>
      keeps_or_erases E L1_send_ack_info_map k (A_SendAckToLayer1TimeOut_body E now k e)"
    and "entry_ok E L1_reply_ack_info_map k e \<Longrightarrow>
      keeps_or_erases E L1_reply_ack_info_map k (A_ReplyAckToLayer2TimeOut_body E now k e)"
    and "entry_ok E L2_start_tx_info_map k e \<Longrightarrow>
      keeps_or_erases E L2_start_tx_info_map k (B_HandleConfirmSeqEvent_body E n k e)"
    and "entry_ok E L2_start_tx_info_map k e \<Longrightarrow>
      keeps_or_erases E L2_start_tx_info_map k (B_StartTxTimeOut_body E now k e)"
    and "entry_ok E L2_send_tx_info_map k e \<Longrightarrow>
      keeps_or_erases E L2_send_tx_info_map k (B_SendTxToLayer1TimeOut_body E now k e)"
    and "entry_ok E L2_send_ack_info_map k e \<Longrightarrow>
      keeps_or_erases E L2_send_ack_info_map k (B_SendAckToLayer2TimeOut_body E now k e)"
    and "entry_ok E L2_reply_ack_info_map k e \<Longrightarrow>
      keeps_or_erases E L2_reply_ack_info_map k (B_ReplyAckToLayer1TimeOut_body E now k e)"
  by (intro keeps_or_erasesI keeps_A_bodies keeps_B_bodies may_erase_bodies_A may_erase_bodies_B assms;
      assumption)+

section \<open>Only the looped table loses keys\<close>

definition grown :: "('d, 'j) env \<Rightarrow> table \<Rightarrow> (table \<Rightarrow> string set) \<Rightarrow> 'd world \<Rightarrow> bool" where
  "grown E t S w \<longleftrightarrow> coherent E w \<and> (\<forall>u. u \<noteq> t \<longrightarrow> S u \<subseteq> pending w u)"

lemma trace_free_grown: "trace_free (grown E t S)"
  using trace_free_coherent [of E] unfolding trace_free_def grown_def by (metis pending_cong)

lemma keeps_grown_only_trace: "only_trace m \<Longrightarrow> keeps (grown E t S) m"
  by (rule only_trace_keeps [OF _ trace_free_grown])

lemma keeps_grown_adds:
  fixes m :: "(bool, 'd) agent"
  assumes "keeps (coherent E) m" and "adds u i m"
  shows "keeps (grown E t S) m"
  unfolding keeps_def
proof (intro allI impI)
  fix w :: "'d world" assume g: "grown E t S w"
  then have "coherent E (state_of (m w))" using assms(1) by (simp add: grown_def keeps_def)
  moreover have "pending w v \<subseteq> pending (state_of (m w)) v" for v
    using assms(2) by (cases "m w") (auto simp: adds_def)
  ultimately show "grown E t S (state_of (m w))" using g unfolding grown_def by blast
qed

lemma keeps_grown_drops:
  fixes m :: "(bool, 'd) agent"
  assumes "keeps (coherent E) m" and "drops t i m"
  shows "keeps (grown E t S) m"
  unfolding keeps_def
proof (intro allI impI)
  fix w :: "'d world" assume g: "grown E t S w"
  then have co: "coherent E w" by (simp add: grown_def)
  obtain w' where w': "m w = Done True w'" "pending w' = (pending w)(t := pending w t - {i})"
    using assms(2) coherent_sorted [OF co] unfolding drops_def by blast
  then have "coherent E w'" using keeps_Done [OF assms(1) co] by blast
  with g w' show "grown E t S (state_of (m w))" by (simp add: grown_def)
qed

lemma keeps_grown_restamp: "keeps (grown E t S) (change (set_ack_timeout u i v))"
  by (rule keeps_change) (simp add: grown_def coherent_set_ack_timeout)

lemma keeps_grown_handleSendTxEvent:
  assumes "external_ok E" and "plain txid"
  shows "keeps (grown E L1_send_tx_info_map S) (A_handleSendTxEvent E txid st)"
    and "keeps (grown E L2_send_tx_info_map S) (B_handleSendTxEvent E txid st)"
  unfolding A_handleSendTxEvent_def B_handleSendTxEvent_def
  by (intro keeps_A_message keeps_B_message yields_GetCrossTxInfo external_okD(4) [OF assms(1)] trace_free_grown keeps_andThen keeps_if keeps_ret
      keeps_grown_adds [OF _ adds_sends(2)] keeps_grown_adds [OF _ adds_sends(5)]
      keeps_grown_drops [OF _ drops_clears(1)] keeps_grown_drops [OF _ drops_clears(5)]
      keeps_A_Send keeps_B_Send keeps_A_Clear keeps_B_Clear assms plain_info_hashes fits32_i32; assumption)+

lemmas keeps_grown_sends =
  keeps_grown_adds [OF keeps_A_Send(1) adds_sends(1)] keeps_grown_adds [OF keeps_A_Send(2) adds_sends(2)]
  keeps_grown_adds [OF keeps_A_Send(3) adds_sends(3)] keeps_grown_adds [OF keeps_B_Send(1) adds_sends(4)]
  keeps_grown_adds [OF keeps_B_Send(2) adds_sends(5)] keeps_grown_adds [OF keeps_B_Send(3) adds_sends(6)]

lemmas keeps_grown_clears =
  keeps_grown_drops [OF keeps_A_Clear(1) drops_clears(1)] keeps_grown_drops [OF keeps_A_Clear(2) drops_clears(2)]
  keeps_grown_drops [OF keeps_A_Clear(3) drops_clears(3)] keeps_grown_drops [OF keeps_B_Clear(1) drops_clears(4)]
  keeps_grown_drops [OF keeps_B_Clear(2) drops_clears(5)] keeps_grown_drops [OF keeps_B_Clear(3) drops_clears(6)]
  keeps_grown_drops [OF keeps_B_Clear(4) drops_clears(7)]

lemma keeps_grown_bodies:
  assumes ext: "external_ok E" and e: "entry_ok E t k e"
  shows "t = L1_send_tx_info_map \<Longrightarrow> keeps (grown E t S) (A_SendTxToLayer2TimeOut_body E now k e)"
    and "t = L1_send_ack_info_map \<Longrightarrow> keeps (grown E t S) (A_SendAckToLayer1TimeOut_body E now k e)"
    and "t = L1_reply_ack_info_map \<Longrightarrow> keeps (grown E t S) (A_ReplyAckToLayer2TimeOut_body E now k e)"
    and "t = L2_start_tx_info_map \<Longrightarrow> keeps (grown E t S) (B_StartTxTimeOut_body E now k e)"
    and "t = L2_send_tx_info_map \<Longrightarrow> keeps (grown E t S) (B_SendTxToLayer1TimeOut_body E now k e)"
    and "t = L2_send_ack_info_map \<Longrightarrow> keeps (grown E t S) (B_SendAckToLayer2TimeOut_body E now k e)"
    and "t = L2_reply_ack_info_map \<Longrightarrow> keeps (grown E t S) (B_ReplyAckToLayer1TimeOut_body E now k e)"
proof -
  note message = entry_ok_message [OF ext e] entry_ok_plain [OF e] entry_ok_id [OF e]
  note calls = keeps_andThen keeps_ret keeps_orFault keeps_grown_only_trace [OF only_trace_GetTxResult]
    keeps_grown_only_trace [OF only_trace_GetCrossTxStatus] keeps_grown_handleSendTxEvent [OF ext]
    keeps_grown_sends keeps_grown_clears keeps_grown_restamp ext plain_info_hashes fits32_results
  show "keeps (grown E t S) (A_SendTxToLayer2TimeOut_body E now k e)" if "t = L1_send_tx_info_map"
    unfolding A_SendTxToLayer2TimeOut_body_def Let_def that using message by (auto intro!: calls)
  show "keeps (grown E t S) (A_SendAckToLayer1TimeOut_body E now k e)" if "t = L1_send_ack_info_map"
    unfolding A_SendAckToLayer1TimeOut_body_def Let_def that using message by (auto intro!: calls)
  show "keeps (grown E t S) (A_ReplyAckToLayer2TimeOut_body E now k e)" if "t = L1_reply_ack_info_map"
    unfolding A_ReplyAckToLayer2TimeOut_body_def Let_def that using message by (auto intro!: calls)
  show "keeps (grown E t S) (B_StartTxTimeOut_body E now k e)" if "t = L2_start_tx_info_map"
    unfolding B_StartTxTimeOut_body_def Let_def that using message by (auto intro!: calls)
  show "keeps (grown E t S) (B_SendTxToLayer1TimeOut_body E now k e)" if "t = L2_send_tx_info_map"
    unfolding B_SendTxToLayer1TimeOut_body_def Let_def that using message by (auto intro!: calls)
  show "keeps (grown E t S) (B_SendAckToLayer2TimeOut_body E now k e)" if "t = L2_send_ack_info_map"
    unfolding B_SendAckToLayer2TimeOut_body_def Let_def that using message by (auto intro!: calls)
  show "keeps (grown E t S) (B_ReplyAckToLayer1TimeOut_body E now k e)" if "t = L2_reply_ack_info_map"
    unfolding B_ReplyAckToLayer1TimeOut_body_def Let_def that using message by (auto intro!: calls)
qed

lemma grown_loop:
  assumes "external_ok E" and "coherent E w" and "for_each t body w = Done () w'"
    and grown: "\<And>k e. entry_ok E t k e \<Longrightarrow> keeps (grown E t (pending w)) (body k e)"
    and erases: "\<And>k e. entry_ok E t k e \<Longrightarrow> keeps_or_erases E t k (body k e)"
  shows "coherent E w' \<and> (\<forall>u. pending w u \<subseteq> pending w' u)"
proof -
  have "keeps (grown E t (pending w)) (for_each t body)"
    by (rule keeps_for_each [OF grown]) (auto simp: grown_def dest: coherent_entry)
  then have "grown E t (pending w) w'"
    using assms(2,3) keeps_Done by (metis grown_def order_refl)
  moreover have "pending w' t = pending w t" using for_each_result(2) [OF erases assms(2,3)] .
  ultimately show ?thesis unfolding grown_def by (metis order_refl)
qed

text \<open>\<open>clean E m\<close>: a run of \<open>m\<close> that completes has taken nothing out of any table, and the bound
  of the loops does not stop it.\<close>

definition clean :: "('d, 'j) env \<Rightarrow> ('a, 'd) agent \<Rightarrow> bool" where
  "clean E m \<longleftrightarrow> (\<forall>w. coherent E w \<longrightarrow>
     (\<forall>r w'. m w = Done r w' \<longrightarrow> coherent E w' \<and> (\<forall>u. pending w u \<subseteq> pending w' u)) \<and>
     (\<forall>w'. m w \<noteq> Fault OutOfFuel w'))"

lemma clean_only_trace: "only_trace m \<Longrightarrow> clean E m"
  unfolding clean_def
  by (metis keeps_Done keeps_coherent_only_trace only_trace_pending(1,3) order_refl)

lemma cleanD:
  assumes "clean E m" and "coherent E w"
  shows "m w = Done r w' \<Longrightarrow> coherent E w'" "m w = Done r w' \<Longrightarrow> pending w u \<subseteq> pending w' u"
    "m w \<noteq> Fault OutOfFuel w'"
  using assms unfolding clean_def by blast+

lemma clean_andThen:
  assumes m: "clean E m" and k: "\<And>a. clean E (k a)"
  shows "clean E (andThen m k)"
  unfolding clean_def
proof (intro allI impI conjI)
  fix w w' r u
  assume co: "coherent E w"
  show "andThen m k w \<noteq> Fault OutOfFuel w'"
    unfolding andThen_Fault using cleanD [OF m co] cleanD(3) [OF k] by blast
  assume "andThen m k w = Done r w'"
  then obtain a w1 where run: "m w = Done a w1" "k a w1 = Done r w'" unfolding andThen_Done by blast
  note co1 = cleanD(1) [OF m co run(1)]
  show "coherent E w'" using cleanD(1) [OF k co1 run(2)] .
  show "pending w u \<subseteq> pending w' u"
    using cleanD(2) [OF m co run(1)] cleanD(2) [OF k co1 run(2)] by (rule order_trans)
qed

lemma clean_for_each:
  assumes "external_ok E"
    and "\<And>k e S. entry_ok E t k e \<Longrightarrow> keeps (grown E t S) (body k e)"
    and "\<And>k e. entry_ok E t k e \<Longrightarrow> keeps_or_erases E t k (body k e)"
  shows "clean E (for_each t body)"
  unfolding clean_def
proof (intro allI impI conjI)
  fix w w' r u
  assume co: "coherent E w"
  show "for_each t body w \<noteq> Fault OutOfFuel w'" using for_each_result(1) [OF assms(3) co] .
  assume "for_each t body w = Done r w'"
  then have "coherent E w' \<and> (\<forall>u. pending w u \<subseteq> pending w' u)"
    using grown_loop [OF assms(1) co _ assms(2,3)] by simp
  then show "coherent E w'" "pending w u \<subseteq> pending w' u" by simp_all
qed

lemma clean_timeouts:
  assumes ext: "external_ok E"
  shows "clean E (A_SendTxToLayer2TimeOut E)" "clean E (A_SendAckToLayer1TimeOut E)"
    "clean E (A_ReplyAckToLayer2TimeOut E)" "clean E (B_StartTxTimeOut E)" "clean E (B_SendTxToLayer1TimeOut E)"
    "clean E (B_SendAckToLayer2TimeOut E)" "clean E (B_ReplyAckToLayer1TimeOut E)"
  unfolding A_SendTxToLayer2TimeOut_def A_SendAckToLayer1TimeOut_def A_ReplyAckToLayer2TimeOut_def
    B_StartTxTimeOut_def B_SendTxToLayer1TimeOut_def B_SendAckToLayer2TimeOut_def B_ReplyAckToLayer1TimeOut_def
  by (intro clean_andThen clean_for_each clean_only_trace only_trace_intros ext keeps_or_erases_bodies [OF ext]
      keeps_grown_bodies [OF ext] refl; assumption)+

lemma clean_OnTimer: "external_ok E \<Longrightarrow> clean E (Manager_OnTimer E now)"
  unfolding Manager_OnTimer_def A_OnTimer_def B_OnTimer_def
  by (intro clean_andThen clean_timeouts clean_only_trace only_trace_intros)

section \<open>Handing over\<close>

text \<open>The transactions of \<open>S\<close> are in table \<open>t\<close> or have entered one of the tables \<open>U\<close>.\<close>

definition handed :: "('d, 'j) env \<Rightarrow> table \<Rightarrow> table set \<Rightarrow> string set \<Rightarrow> 'd world \<Rightarrow> bool" where
  "handed E t U S w \<longleftrightarrow> coherent E w \<and> S \<subseteq> pending w t \<union> (\<Union>u \<in> U. pending w u)"

lemma keeps_handed_only_trace: "only_trace m \<Longrightarrow> keeps (handed E t U S) m"
proof (rule only_trace_keeps)
  show "trace_free (handed E t U S)"
    using trace_free_coherent [of E] unfolding trace_free_def handed_def by (metis pending_cong)
qed

lemma keeps_handed_adds:
  fixes m :: "(bool, 'd) agent"
  assumes "keeps (coherent E) m" and "adds u i m"
  shows "keeps (handed E t U S) m"
  unfolding keeps_def
proof (intro allI impI)
  fix w :: "'d world" assume g: "handed E t U S w"
  then have "coherent E (state_of (m w))" using assms(1) by (simp add: handed_def keeps_def)
  moreover have "pending w v \<subseteq> pending (state_of (m w)) v" for v
    using assms(2) by (cases "m w") (auto simp: adds_def)
  ultimately show "handed E t U S (state_of (m w))" using g unfolding handed_def by blast
qed

text \<open>A send that succeeds, followed by the clear, hands its transaction over.\<close>

lemma keeps_handover:
  fixes m :: "(bool, 'd) agent"
  assumes m: "keeps (coherent E) m" "adds u i m" and c: "keeps (coherent E) c" "drops t i c"
    and u: "u \<in> U" "t \<notin> U"
  shows "keeps (handed E t U S) (andThen m (\<lambda>sent. if sent then andThen c (\<lambda>_. ret ()) else ret ()))"
  unfolding keeps_def
proof (intro allI impI)
  fix w :: "'d world" assume h: "handed E t U S w"
  show "handed E t U S (state_of (andThen m (\<lambda>sent. if sent then andThen c (\<lambda>_. ret ()) else ret ()) w))"
  proof (cases "m w")
    case (Fault f w')
    then show ?thesis
      using keepsD [OF keeps_handed_adds [OF m, of t U S] h] by (simp add: prog_simps)
  next
    case (Done r w1)
    then have h1: "handed E t U S w1" using keepsD [OF keeps_handed_adds [OF m, of t U S] h] by simp
    then have co: "coherent E w1" by (simp add: handed_def)
    show ?thesis
    proof (cases r)
      case True
      have i: "i \<in> pending w1 u" using m(2) Done True by (auto simp: adds_def)
      obtain w2 where w2: "c w1 = Done True w2" "pending w2 = (pending w1)(t := pending w1 t - {i})"
        using c(2) coherent_sorted [OF co] unfolding drops_def by blast
      have "coherent E w2" using keeps_Done [OF c(1) co w2(1)] .
      moreover have "\<forall>v \<in> U. pending w2 v = pending w1 v" using w2(2) u(2) by auto
      then have "S \<subseteq> pending w2 t \<union> (\<Union>v \<in> U. pending w2 v)"
        using h1 i u w2(2) by (auto simp: handed_def)
      ultimately show ?thesis using Done True w2(1) by (simp add: prog_simps handed_def)
    next
      case False
      with Done h1 show ?thesis by (simp add: prog_simps)
    qed
  qed
qed

definition start_targets :: "table set" where
  "start_targets = {L2_send_tx_info_map, L2_send_ack_info_map}"

lemma keeps_handed_start_bodies:
  assumes ext: "external_ok E" and e: "entry_ok E L2_start_tx_info_map k e"
  shows "keeps (handed E L2_start_tx_info_map start_targets S) (B_HandleConfirmSeqEvent_body E n k e)"
    and "keeps (handed E L2_start_tx_info_map start_targets S) (B_StartTxTimeOut_body E now k e)"
proof -
  note message = entry_ok_message [OF ext e] entry_ok_plain [OF e] entry_ok_id [OF e]
  let ?m = "snd (pb_parse E (cross_tx_info e))"
  have targets: "L2_send_tx_info_map \<in> start_targets" "L2_send_ack_info_map \<in> start_targets"
    "L2_start_tx_info_map \<notin> start_targets" by (simp_all add: start_targets_def)
  have adds: "adds L2_send_tx_info_map k (B_SendTxToLayer1 E ?m)"
    "adds L2_send_ack_info_map k (B_SendAckToLayer2 E (?m\<lparr>status := s\<rparr>))" for s
    using adds_sends(4) [of ?m E] adds_sends(5) [of "?m\<lparr>status := s\<rparr>" E] message by simp_all
  have sends: "keeps (coherent E) (B_SendTxToLayer1 E ?m)"
    "fits32 s \<Longrightarrow> keeps (coherent E) (B_SendAckToLayer2 E (?m\<lparr>status := s\<rparr>))" for s
    using message by (auto intro!: keeps_B_Send ext)
  have clear: "keeps (coherent E) (B_ClearStartTxInfo E k)" using message by (intro keeps_B_Clear ext)
  show "keeps (handed E L2_start_tx_info_map start_targets S) (B_HandleConfirmSeqEvent_body E n k e)"
    unfolding B_HandleConfirmSeqEvent_body_def Let_def message(2)
    by (intro keeps_andThen keeps_if keeps_ret keeps_handed_only_trace only_trace_intros
        keeps_handed_adds [OF sends(2) adds(2)]
        keeps_handover [OF sends(1) adds(1) clear drops_clears(4) targets(1,3)] fits32_results)
  show "keeps (handed E L2_start_tx_info_map start_targets S) (B_StartTxTimeOut_body E now k e)"
    unfolding B_StartTxTimeOut_body_def Let_def
    by (intro keeps_if keeps_ret keeps_handover [OF sends(2) adds(2) clear drops_clears(4) targets(2,3)] fits32_results)
qed

lemma handed_start_loops:
  assumes "external_ok E"
  shows "keeps (handed E L2_start_tx_info_map start_targets S) (B_HandleConfirmSeqEvent E n)"
    and "keeps (handed E L2_start_tx_info_map start_targets S) (B_StartTxTimeOut E)"
  unfolding B_HandleConfirmSeqEvent_def B_StartTxTimeOut_def
  by (intro keeps_andThen keeps_ret keeps_for_each keeps_handed_start_bodies assms keeps_handed_only_trace
      only_trace_intros; auto simp: handed_def dest: coherent_entry)+

section \<open>Runs of single steps\<close>

text \<open>An entry whose body is over at once leaves the loop as it is.\<close>

lemma iterate_quiet:
  assumes "sorted_map (tables w t)" and "tables w t = pre @ post" and "length post \<le> n"
    and "\<And>k e w'. (k, e) \<in> set post \<Longrightarrow> tables w' = tables w \<Longrightarrow> body k e w' = Done () (log_io ClockRead w')"
  shows "\<exists>w'. iterate n t body (m_first post) w = Done () w' \<and> db w' = db w \<and> tables w' = tables w \<and>
    trace w' = trace w @ replicate (length post) ClockRead"
  using assms
proof (induction post arbitrary: pre n w)
  case (Cons x post)
  obtain k e where x: "x = (k, e)" by fastforce
  obtain n' where n: "n = Suc n'" using Cons.prems(3) by (cases n) simp_all
  let ?w = "log_io ClockRead w"
  have at: "map_of (tables w t) k = Some e"
    using Cons.prems(1,2) map_of_sorted [of "tables w t" k e] x by auto
  have nxt: "m_next k (tables ?w t) = m_first post"
    using m_next_append [of pre k e post] Cons.prems(1,2) x by simp
  have tail: "\<exists>w'. iterate n' t body (m_first post) ?w = Done () w' \<and> db w' = db ?w \<and> tables w' = tables ?w \<and>
      trace w' = trace ?w @ replicate (length post) ClockRead"
    by (rule Cons.IH [where pre = "pre @ [x]"]) (use Cons.prems n in auto)
  have "body k e w = Done () ?w" using Cons.prems(4) x by simp
  then have "iterate n t body (m_first (x # post)) w = iterate n' t body (m_first post) ?w"
    using at nxt by (simp add: x n prog_simps find_entry_def)
  then show ?case using tail by simp
qed (simp add: prog_simps)

lemma for_each_quiet:
  assumes "sorted_map (tables w t)"
    and "\<And>k e w'. (k, e) \<in> set (tables w t) \<Longrightarrow> tables w' = tables w \<Longrightarrow> body k e w' = Done () (log_io ClockRead w')"
  shows "\<exists>w'. for_each t body w = Done () w' \<and> db w' = db w \<and> tables w' = tables w \<and>
    trace w' = trace w @ replicate (length (tables w t)) ClockRead"
  unfolding for_each_def
  by (rule iterate_quiet [where pre = "[]"]) (use assms in auto)

text \<open>When the body takes the first entry out of the table, the loop ends in a fault.\<close>

lemma for_each_erased:
  assumes "tables w t = (k, e) # rest" and "body k e w = Done () w1" and "k \<notin> pending w1 t"
  shows "for_each t body w = Fault IteratorInvalid w1"
  using assms(1,2) find_entry_run(2) [OF assms(3)]
  by (simp add: for_each_def prog_simps find_entry_def)

end
