(* ===== verification/Relay.thy ===== *)
theory Relay
  imports Progress
begin

text \<open>
  The step both handles take four times: read a transaction back from a chain, send a message
  about it to the other one, and only then take it out of the table it waited in. The locale
  \<open>relay\<close> states this step over the operations it is made of, and is interpreted on the four
  event handlers. The second half is about what is submitted: which programs submit nothing, and
  what exactly a submission consists of.
\<close>

section \<open>One step of a transaction\<close>

text \<open>A transaction left table \<open>src\<close>, and the one the chain reports entered table \<open>dst\<close>.\<close>

definition moved :: "table \<Rightarrow> table \<Rightarrow> string \<Rightarrow> 'd world \<Rightarrow> 'd world \<Rightarrow> bool" where
  "moved src dst txid w w' \<longleftrightarrow>
     (\<exists>i. pending w' = (pending w)(src := pending w src - {txid}, dst := insert i (pending w dst)))"

text \<open>The outcome of a handler: true after such a move, otherwise nothing has moved.\<close>

fun moves_or_stays :: "table \<Rightarrow> table \<Rightarrow> string \<Rightarrow> 'd world \<Rightarrow> (bool, 'd world) outcome \<Rightarrow> bool" where
  "moves_or_stays src dst txid w (Done r w') \<longleftrightarrow> (if r then moved src dst txid w w' else pending w' = pending w)"
| "moves_or_stays src dst txid w (Fault f w') \<longleftrightarrow> pending w' = pending w"

definition sorted_tables :: "'d world \<Rightarrow> bool" where
  "sorted_tables w \<longleftrightarrow> (\<forall>t. sorted_map (tables w t))"

lemma coherent_sorted_tables: "coherent E w \<Longrightarrow> sorted_tables w"
  by (simp add: sorted_tables_def coherent_sorted)

lemma keeps_sorted_save:
  "keeps sorted_tables (save_entry E t p)" "keeps sorted_tables (save_then_stamp E t p)"
  "keeps sorted_tables (stamp_then_save E t p)"
  by (auto simp: keeps_def save_entry_def save_then_stamp_def stamp_then_save_def prog_simps DBPut_def
      HighResolution_def sorted_tables_def emplace_entry_def split: option.splits prod.splits)

lemma keeps_sorted_only_trace: "only_trace m \<Longrightarrow> keeps sorted_tables m"
  by (simp add: keeps_def only_trace_def sorted_tables_def)

lemma keeps_sorted_sends:
  "keeps sorted_tables (A_SendAckToLayer1 E m)" "keeps sorted_tables (A_ReplyAckToLayer2 E m)"
  "keeps sorted_tables (B_SendAckToLayer2 E m)" "keeps sorted_tables (B_ReplyAckToLayer1 E m)"
  unfolding A_SendAckToLayer1_def A_ReplyAckToLayer2_def B_SendAckToLayer2_def B_ReplyAckToLayer1_def
    A_sendTransactionToLayer1_def A_sendTransactionToLayer2_def
    B_sendTransactionToLayer1_def B_sendTransactionToLayer2_def
    A_SaveSendAckInfo_def A_SaveReplyAckInfo_def B_SaveSendAckInfo_def B_SaveReplyAckInfo_def
  by (intro keeps_andThen keeps_option keeps_ret keeps_sorted_save keeps_sorted_only_trace only_trace_intros)+

locale relay =
  fixes src dst :: table
    and fetch :: "('d, 'j) env \<Rightarrow> string \<Rightarrow> (CrossTxInfo option, 'd) agent"
    and send :: "('d, 'j) env \<Rightarrow> CrossTxInfo \<Rightarrow> (bool, 'd) agent"
    and clear :: "('d, 'j) env \<Rightarrow> string \<Rightarrow> (bool, 'd) agent"
    and handler :: "('d, 'j) env \<Rightarrow> string \<Rightarrow> (bool, 'd) agent"
  assumes apart: "src \<noteq> dst"
    and fetch_reads: "only_trace (fetch E txid)"
    and send_adds: "adds dst (crosstxid m) (send E m)"
    and send_sorted: "keeps sorted_tables (send E m)"
    and clear_drops: "drops src txid (clear E txid)"
    and handler_steps: "handler E txid =
       andThen (fetch E txid) (\<lambda>r. case r of None \<Rightarrow> ret False | Some m \<Rightarrow>
         andThen (send E m) (\<lambda>sent.
         if sent then andThen (clear E txid) (\<lambda>_. ret True) else ret False))"
begin

lemma fetched:
  assumes "fetch E txid w = Done r w1" and "sorted_tables w"
  shows "pending w1 = pending w" and "sorted_tables w1"
  using only_trace_pending(1) [OF fetch_reads assms(1)] keeps_Done [OF keeps_sorted_only_trace [OF fetch_reads] assms(2,1)]
  by simp_all

lemma cleared:
  assumes "sorted_tables w"
  obtains w' where "clear E txid w = Done True w'" "pending w' = (pending w)(src := pending w src - {txid})"
  using clear_drops [of txid E] assms unfolding drops_def sorted_tables_def by blast

lemma returned:
  assumes "handler E txid w = Done r w'" and "sorted_tables w"
  shows "if r then moved src dst txid w w' else pending w' = pending w"
proof -
  from assms(1) obtain x w1 where w1: "fetch E txid w = Done x w1"
    and rest: "(case x of None \<Rightarrow> ret False | Some m \<Rightarrow> andThen (send E m) (\<lambda>sent.
         if sent then andThen (clear E txid) (\<lambda>_. ret True) else ret False)) w1 = Done r w'"
    unfolding handler_steps andThen_Done by blast
  note start = fetched [OF w1 assms(2)]
  show ?thesis
  proof (cases x)
    case None
    with rest start show ?thesis by (auto simp: ret_Done)
  next
    case (Some m)
    with rest obtain s w2 where w2: "send E m w1 = Done s w2"
      and fin: "(if s then andThen (clear E txid) (\<lambda>_. ret True) else ret False) w2 = Done r w'"
      by (auto simp: andThen_Done)
    have p2: "pending w2 = (if s then (pending w1)(dst := insert (crosstxid m) (pending w1 dst)) else pending w1)"
      using send_adds [of m E] w2 unfolding adds_def by blast
    have "sorted_tables w2" using keeps_Done [OF send_sorted start(2) w2] .
    then obtain w3 where "clear E txid w2 = Done True w3" "pending w3 = (pending w2)(src := pending w2 src - {txid})"
      by (rule cleared)
    with fin p2 start apart show ?thesis
      by (cases s) (auto simp: ret_Done andThen_Done moved_def fun_upd_twist intro!: exI [of _ "crosstxid m"])
  qed
qed

lemma stopped:
  assumes "handler E txid w = Fault f w'" and "sorted_tables w"
  shows "pending w' = pending w \<and> f \<noteq> OutOfFuel"
proof -
  have nofault: "(if s then andThen (clear E txid) (\<lambda>_. ret True) else ret False) v \<noteq> Fault f w'"
    if "sorted_tables v" for s v
    by (rule cleared [OF that, of E txid]) (cases s; simp add: ret_Fault andThen_Fault)
  have sent: "pending w' = pending w1 \<and> f \<noteq> OutOfFuel"
    if "send E m w1 = Fault f w'" for m w1
    using send_adds [of m E] that unfolding adds_def by blast
  from assms(1) show ?thesis
    unfolding handler_steps andThen_Fault
    using only_trace_pending(2,3) [OF fetch_reads] fetched [OF _ assms(2)] sent nofault keeps_Done [OF send_sorted]
    by (auto simp: andThen_Fault ret_Fault split: option.splits) metis+
qed

lemma outcome: "sorted_tables w \<Longrightarrow> moves_or_stays src dst txid w (handler E txid w)"
  using returned stopped by (cases "handler E txid w") simp_all

end

text \<open>What is read back, with the status that a send event puts into it.\<close>

definition read_back ::
  "((string \<times> string) option, 'd) agent \<Rightarrow> (string \<Rightarrow> string \<Rightarrow> (CrossTxInfo option, 'd) agent) \<Rightarrow>
   (CrossTxInfo \<Rightarrow> CrossTxInfo) \<Rightarrow> (CrossTxInfo option, 'd) agent" where
  "read_back get mk adjust =
     andThen get (\<lambda>infos. case infos of None \<Rightarrow> ret None | Some (info1, info2) \<Rightarrow>
       andThen (mk info1 info2) (\<lambda>r. ret (map_option adjust r)))"

lemma read_back_then:
  "andThen (read_back get mk adjust) (\<lambda>r. case r of None \<Rightarrow> ret False | Some m \<Rightarrow> k m) =
   andThen get (\<lambda>infos. case infos of None \<Rightarrow> ret False | Some (info1, info2) \<Rightarrow>
     andThen (mk info1 info2) (\<lambda>r. case r of None \<Rightarrow> ret False | Some m \<Rightarrow> k (adjust m)))"
  by (auto simp: fun_eq_iff read_back_def andThen_def ret_def split: outcome.splits option.splits)

lemma only_trace_read_back:
  "only_trace get \<Longrightarrow> (\<And>i j. only_trace (mk i j)) \<Longrightarrow> only_trace (read_back get mk adjust)"
  unfolding read_back_def by (auto intro!: only_trace_intros split: option.splits)

definition A_ack_fetch :: "('d, 'j) env \<Rightarrow> string \<Rightarrow> (CrossTxInfo option, 'd) agent" where
  "A_ack_fetch E txid = read_back (GetLayer2CrossTxInfo E (http_endpoint (layer2 E)) txid)
     (A_makeCrossTxInfo new_CrossTxInfo) (\<lambda>m. m\<lparr>status := i32 CROSS_RESULT_SUCCESS\<rparr>)"

definition A_reply_fetch :: "('d, 'j) env \<Rightarrow> string \<Rightarrow> (CrossTxInfo option, 'd) agent" where
  "A_reply_fetch E txid = read_back (GetLayer1CrossTxInfo E (http_endpoint (layer1 E)) txid)
     (A_makeCrossTxInfo new_CrossTxInfo) id"

definition B_ack_fetch :: "('d, 'j) env \<Rightarrow> string \<Rightarrow> (CrossTxInfo option, 'd) agent" where
  "B_ack_fetch E txid = read_back (GetLayer1CrossTxInfo E (http_endpoint (layer1 E)) txid)
     (B_makeCrossTxInfo new_CrossTxInfo) (\<lambda>m. m\<lparr>status := i32 CROSS_RESULT_SUCCESS\<rparr>)"

definition B_reply_fetch :: "('d, 'j) env \<Rightarrow> string \<Rightarrow> (CrossTxInfo option, 'd) agent" where
  "B_reply_fetch E txid = read_back (GetLayer2CrossTxInfo E (http_endpoint (layer2 E)) txid)
     (B_makeCrossTxInfo new_CrossTxInfo) id"

lemmas fetch_defs = A_ack_fetch_def A_reply_fetch_def B_ack_fetch_def B_reply_fetch_def

lemma fetched_events:
  "A_HandleSendTxEvent E txid = andThen (A_ack_fetch E txid) (\<lambda>r. case r of None \<Rightarrow> ret False | Some m \<Rightarrow>
     andThen (A_SendAckToLayer1 E m) (\<lambda>sent.
     if sent then andThen (A_ClearSendTxInfo E txid) (\<lambda>_. ret True) else ret False))"
  "A_HandleSendAckdTxEvent E txid = andThen (A_reply_fetch E txid) (\<lambda>r. case r of None \<Rightarrow> ret False | Some m \<Rightarrow>
     andThen (A_ReplyAckToLayer2 E m) (\<lambda>sent.
     if sent then andThen (A_ClearSendAckInfo E txid) (\<lambda>_. ret True) else ret False))"
  "B_HandleSendTxEvent E txid = andThen (B_ack_fetch E txid) (\<lambda>r. case r of None \<Rightarrow> ret False | Some m \<Rightarrow>
     andThen (B_SendAckToLayer2 E m) (\<lambda>sent.
     if sent then andThen (B_ClearSendTxInfo E txid) (\<lambda>_. ret True) else ret False))"
  "B_HandleSendAckdTxEvent E txid = andThen (B_reply_fetch E txid) (\<lambda>r. case r of None \<Rightarrow> ret False | Some m \<Rightarrow>
     andThen (B_ReplyAckToLayer1 E m) (\<lambda>sent.
     if sent then andThen (B_ClearSendAckInfo E txid) (\<lambda>_. ret True) else ret False))"
  unfolding fetch_defs read_back_then id_apply A_HandleSendTxEvent_def A_handleSendTxEvent_def
    B_HandleSendTxEvent_def B_handleSendTxEvent_def A_HandleSendAckdTxEvent_def B_HandleSendAckdTxEvent_def
  by (rule refl)+

lemma only_trace_fetch:
  "only_trace (A_ack_fetch E txid)" "only_trace (A_reply_fetch E txid)"
  "only_trace (B_ack_fetch E txid)" "only_trace (B_reply_fetch E txid)"
  unfolding fetch_defs by (intro only_trace_read_back only_trace_intros)+

interpretation A_sent: relay L1_send_tx_info_map L1_send_ack_info_map A_ack_fetch A_SendAckToLayer1
  A_ClearSendTxInfo A_HandleSendTxEvent
  by unfold_locales (simp, (rule only_trace_fetch adds_sends keeps_sorted_sends drops_clears fetched_events)+)

interpretation A_acked: relay L1_send_ack_info_map L1_reply_ack_info_map A_reply_fetch A_ReplyAckToLayer2
  A_ClearSendAckInfo A_HandleSendAckdTxEvent
  by unfold_locales (simp, (rule only_trace_fetch adds_sends keeps_sorted_sends drops_clears fetched_events)+)

interpretation B_sent: relay L2_send_tx_info_map L2_send_ack_info_map B_ack_fetch B_SendAckToLayer2
  B_ClearSendTxInfo B_HandleSendTxEvent
  by unfold_locales (simp, (rule only_trace_fetch adds_sends keeps_sorted_sends drops_clears fetched_events)+)

interpretation B_acked: relay L2_send_ack_info_map L2_reply_ack_info_map B_reply_fetch B_ReplyAckToLayer1
  B_ClearSendAckInfo B_HandleSendAckdTxEvent
  by unfold_locales (simp, (rule only_trace_fetch adds_sends keeps_sorted_sends drops_clears fetched_events)+)

section \<open>What is submitted\<close>

fun submission :: "io \<Rightarrow> (string \<times> string) list" where
  "submission (HttpPost url req body) = (if req = ''/submitTransaction'' then [(url, body)] else [])"
| "submission _ = []"

definition submissions :: "io list \<Rightarrow> (string \<times> string) list" where
  "submissions tr = concat (map submission tr)"

lemma submissions_append [simp]: "submissions (tr @ tr') = submissions tr @ submissions tr'"
  by (simp add: submissions_def)

text \<open>A program that submits nothing, whatever its outcome.\<close>

definition silent :: "('a, 'd) agent \<Rightarrow> bool" where
  "silent m \<longleftrightarrow> (\<forall>w. submissions (trace (state_of (m w))) = submissions (trace w))"

named_theorems silent_intros \<open>programs that submit nothing\<close>

lemma silentD: "silent m \<Longrightarrow> submissions (trace (state_of (m w))) = submissions (trace w)"
  by (simp add: silent_def)

lemma silent_basic [silent_intros]:
  "silent (ret a)" "silent (fault f)" "silent (read_state g)" "silent (orFault f x)" "silent (HighResolution E)"
  "silent (makeGetRequest E url req)" "silent (DBPut E key val)" "silent (DBDelete E key)"
  "silent (find_entry t k)" "silent (change (emplace_entry t e))" "silent (change (erase_entry t i))"
  by (auto simp: silent_def ret_def fault_def read_state_def orFault_def HighResolution_def makeGetRequest_def
      DBPut_def DBDelete_def find_entry_def change_def emplace_entry_def erase_entry_def submissions_def
      split: option.splits prod.splits)

lemma silent_post [silent_intros]: "req \<noteq> ''/submitTransaction'' \<Longrightarrow> silent (makePostRequest E url req body)"
  by (simp add: silent_def makePostRequest_def submissions_def)

lemma silent_andThen [silent_intros]: "silent m \<Longrightarrow> (\<And>a. silent (k a)) \<Longrightarrow> silent (andThen m k)"
  unfolding silent_def andThen_def by (auto split: outcome.splits) (metis state_of.simps)+

lemma silent_if [silent_intros]: "silent m \<Longrightarrow> silent n \<Longrightarrow> silent (if b then m else n)"
  by simp

lemma silent_option [silent_intros]:
  "silent m \<Longrightarrow> (\<And>a. silent (k a)) \<Longrightarrow> silent (case x of None \<Rightarrow> m | Some a \<Rightarrow> k a)"
  by (cases x) simp_all

lemma silent_prod [silent_intros]: "(\<And>a b. silent (k a b)) \<Longrightarrow> silent (case p of (a, b) \<Rightarrow> k a b)"
  by (cases p) simp

lemma silent_json [silent_intros]:
  "silent (jget E j key)" "silent (jmember E j key)" "silent (jint64 E j)" "silent (jint E j)"
  "silent (jstring E j)" "silent (jat E j i)" "silent (list_at l i)"
  by (simp_all add: jget_def jmember_def jint64_def jint_def jstring_def jat_def list_at_def silent_intros)

lemma silent_queries [silent_intros]:
  "silent (GetLayerSeq E url)" "silent (query_data E r)"
  unfolding GetLayerSeq_def query_data_def by (intro silent_intros)+

lemma silent_GetCrossTxInfo [silent_intros]:
  "silent (GetLayer1CrossTxInfo E url txid)" "silent (GetLayer2CrossTxInfo E url txid)"
  unfolding GetLayer1CrossTxInfo_def GetLayer2CrossTxInfo_def getCrossTxInfo1_def getCrossTxInfo2_def
  by (intro silent_intros; simp)+

lemma silent_makeCrossTxInfo [silent_intros]:
  "silent (A_makeCrossTxInfo m i j)" "silent (B_makeCrossTxInfo m i j)"
  unfolding A_makeCrossTxInfo_def B_makeCrossTxInfo_def Let_def by (intro silent_intros)+

lemma silent_save_entry [silent_intros]: "silent (save_entry E t p)"
  unfolding save_entry_def by (intro silent_intros)

lemma silent_checkTxResponse [silent_intros]: "silent (checkTxResponse E r)"
proof -
  have "silent (check_results E rs h)" for rs h
    by (induction E rs h rule: check_results.induct) (auto intro!: silent_intros)
  then show ?thesis
    unfolding checkTxResponse_def by (intro silent_intros)
qed

lemma silent_B_HandleStartTxEvent: "silent (B_HandleStartTxEvent E txid)"
  unfolding B_HandleStartTxEvent_def B_SaveStartTxInfo_def by (intro silent_intros)

text \<open>The one request a submission makes: the blob is the hexadecimal text of the bytes of the
  transaction, and the signature is over those bytes.\<close>

definition signed_request :: "('d, 'j) env \<Rightarrow> string \<Rightarrow> string \<Rightarrow> string" where
  "signed_request E key bytes =
     js_toStyledString (json E) (JObj [(''items'', JArr [JObj [
        (''transaction_blob'', JStr (BinToHexString bytes)),
        (''signatures'', JArr [JObj [
           (''public_key'', JStr (enc_public_key E key)),
           (''sign_data'', JStr (BinToHexString (sign E key bytes)))]])]])])"

lemma submit_body_signed: "submit_body E key (encode_b16 bytes) = signed_request E key bytes"
  by (simp add: submit_body_def signed_request_def encode_b16_hex HexStringToBin_BinToHexString Let_def)

lemma GetLayerSeq_silent: "GetLayerSeq E url w = Done r w1 \<Longrightarrow> submissions (trace w1) = submissions (trace w)"
  using silentD [OF silent_queries(1), of E url w] by simp

lemma send_transaction_request:
  assumes "GetLayerSeq E (http_endpoint cfg) w = Done (Some n) w1" and "fits64 (n + 200)" and "nonce fresh = 0"
  shows "submissions (trace (state_of (send_transaction E cfg fresh input amt w))) = submissions (trace w) @
    [(http_endpoint cfg, signed_request E (private_key cfg) (pb_transaction E
       ((AddTransactionOperation cfg input amt fresh)
         \<lparr>nonce := system_millis E (trace w1), max_ledger_seq := n + 200\<rparr>)))]"
proof -
  let ?tx = "AddTransactionOperation cfg input amt fresh"
  let ?blob = "encode_b16 (pb_transaction E (?tx\<lparr>nonce := system_millis E (trace w1), max_ledger_seq := n + 200\<rparr>))"
  let ?body = "submit_body E (private_key cfg) ?blob"
  let ?w2 = "log_io SystemClockRead w1"
  let ?w3 = "log_io (HttpPost (http_endpoint cfg) ''/submitTransaction'' ?body) ?w2"
  have "nonce ?tx = 0" using assms(3) by (simp add: AddTransactionOperation_def)
  then have run: "send_transaction E cfg fresh input amt w =
      (case http_post E (trace ?w2) (http_endpoint cfg) ''/submitTransaction'' ?body of
         None \<Rightarrow> ret None | Some body \<Rightarrow> checkTxResponse E body) ?w3"
    using assms(1,2)
    by (simp add: send_transaction_def prog_simps GetTransactionBlob_def SetRandomNonce_def makePostRequest_def
        log_io_def)
  have "silent (case r of None \<Rightarrow> ret None | Some body \<Rightarrow> checkTxResponse E body)" for r
    by (intro silent_intros)
  then have "submissions (trace (state_of (send_transaction E cfg fresh input amt w))) = submissions (trace ?w3)"
    unfolding run by (rule silentD)
  also have "\<dots> = submissions (trace w) @ [(http_endpoint cfg, ?body)]"
    using GetLayerSeq_silent [OF assms(1)] by (simp add: submissions_def)
  finally show ?thesis by (simp add: submit_body_signed)
qed

text \<open>Without a block height, or with one too high for the deadline, nothing is submitted.\<close>

lemma send_transaction_no_request:
  assumes "\<nexists>n w1. GetLayerSeq E (http_endpoint cfg) w = Done (Some n) w1 \<and> fits64 (n + 200)"
  shows "submissions (trace (state_of (send_transaction E cfg fresh input amt w))) = submissions (trace w)"
proof (cases "GetLayerSeq E (http_endpoint cfg) w")
  case (Done r w1)
  with assms GetLayerSeq_silent [OF Done] show ?thesis
    by (cases r) (simp_all add: send_transaction_def prog_simps)
next
  case (Fault f w1)
  then show ?thesis
    using silentD [OF silent_queries(1), of E "http_endpoint cfg" w] by (simp add: send_transaction_def prog_simps)
qed

section \<open>The first step of a transaction\<close>

lemma A_start_returned:
  assumes "A_HandleStartTxEvent E txid w = Done r w'"
  shows "if r then \<exists>i. pending w' = (pending w)(L1_send_tx_info_map := insert i (pending w L1_send_tx_info_map))
    else pending w' = pending w \<or>
      (\<exists>i. pending w' = (pending w)(L1_send_ack_info_map := insert i (pending w L1_send_ack_info_map)))"
proof -
  let ?fetch = "read_back (GetLayer1CrossTxInfo E (http_endpoint (layer1 E)) txid) (A_makeCrossTxInfo new_CrossTxInfo) id"
  have "A_HandleStartTxEvent E txid = andThen ?fetch (\<lambda>r. case r of None \<Rightarrow> ret False | Some m \<Rightarrow>
      andThen (A_SendTxToLayer2 E m) (\<lambda>sent.
      if \<not> sent then andThen (A_SendAckToLayer1 E (m\<lparr>status := CROSS_RESULT_FAILED\<rparr>)) (\<lambda>_. ret sent) else ret sent))"
    unfolding read_back_then id_apply A_HandleStartTxEvent_def by (rule refl)
  with assms obtain x w1 where w1: "?fetch w = Done x w1"
    and rest: "(case x of None \<Rightarrow> ret False | Some m \<Rightarrow> andThen (A_SendTxToLayer2 E m) (\<lambda>sent.
      if \<not> sent then andThen (A_SendAckToLayer1 E (m\<lparr>status := CROSS_RESULT_FAILED\<rparr>)) (\<lambda>_. ret sent) else ret sent)) w1
      = Done r w'"
    by (auto simp: andThen_Done)
  have p1: "pending w1 = pending w"
    by (rule only_trace_pending(1) [OF only_trace_read_back w1]) (intro only_trace_intros)+
  show ?thesis
  proof (cases x)
    case None
    with rest p1 show ?thesis by (auto simp: ret_Done)
  next
    case (Some m)
    with rest obtain s w2 where w2: "A_SendTxToLayer2 E m w1 = Done s w2"
      and fin: "(if \<not> s then andThen (A_SendAckToLayer1 E (m\<lparr>status := CROSS_RESULT_FAILED\<rparr>)) (\<lambda>_. ret s) else ret s) w2
        = Done r w'"
      by (auto simp: andThen_Done)
    have p2: "pending w2 = (if s then (pending w1)(L1_send_tx_info_map := insert (crosstxid m) (pending w1 L1_send_tx_info_map))
        else pending w1)"
      using adds_sends(1) [of m E] w2 unfolding adds_def by blast
    have "A_SendAckToLayer1 E (m\<lparr>status := CROSS_RESULT_FAILED\<rparr>) w2 = Done q v \<Longrightarrow> pending v = (if q
        then (pending w2)(L1_send_ack_info_map := insert (crosstxid m) (pending w2 L1_send_ack_info_map)) else pending w2)" for q v
      using adds_sends(2) [of "m\<lparr>status := CROSS_RESULT_FAILED\<rparr>" E] unfolding adds_def by simp
    with fin p1 p2 show ?thesis by (cases s) (auto simp: ret_Done andThen_Done split: if_splits)
  qed
qed

definition B_start_fetch :: "('d, 'j) env \<Rightarrow> string \<Rightarrow> (CrossTxInfo option, 'd) agent" where
  "B_start_fetch E txid =
     andThen (read_back (GetLayer2CrossTxInfo E (http_endpoint (layer2 E)) txid) (B_makeCrossTxInfo new_CrossTxInfo) id)
       (\<lambda>r. case r of None \<Rightarrow> ret None | Some m \<Rightarrow>
         andThen (GetLayerSeq E (http_endpoint (layer2 E))) (\<lambda>seq. ret (map_option (\<lambda>n. m\<lparr>confirmseq := n\<rparr>) seq)))"

lemma B_start_steps:
  "B_HandleStartTxEvent E txid = andThen (B_start_fetch E txid) (\<lambda>r. case r of None \<Rightarrow> ret False | Some m \<Rightarrow>
     andThen (save_entry E L2_start_tx_info_map (Some (make_CrossTx (pb_serialize E) m))) (\<lambda>_. ret True))"
  unfolding B_HandleStartTxEvent_def B_start_fetch_def B_SaveStartTxInfo_def read_back_def
  by (auto simp: fun_eq_iff andThen_def ret_def split: outcome.splits option.splits)

lemma only_trace_B_start_fetch: "only_trace (B_start_fetch E txid)"
  unfolding B_start_fetch_def by (intro only_trace_intros only_trace_read_back)

lemma B_start_fetch_seq: "B_start_fetch E txid w = Done (Some m) w' \<Longrightarrow> \<exists>m' n. m = m'\<lparr>confirmseq := n\<rparr>"
  by (auto simp: B_start_fetch_def andThen_Done ret_Done map_option_case split: option.splits)

lemma B_start_returned:
  assumes "external_ok E" and "B_HandleStartTxEvent E txid w = Done r w'"
  shows "if r then \<exists>m n. pending w' =
        (pending w)(L2_start_tx_info_map := insert (crosstxid m) (pending w L2_start_tx_info_map)) \<and>
      rk_map (rocks E) (db w') (dbkey L2_start_tx_info_map (crosstxid m)) = Some (pb_serialize E (m\<lparr>confirmseq := n\<rparr>))
    else pending w' = pending w"
proof -
  note ok = external_okD [OF assms(1)]
  from assms(2) obtain x w1 where w1: "B_start_fetch E txid w = Done x w1"
    and rest: "(case x of None \<Rightarrow> ret False | Some m \<Rightarrow>
       andThen (save_entry E L2_start_tx_info_map (Some (make_CrossTx (pb_serialize E) m))) (\<lambda>_. ret True)) w1 = Done r w'"
    unfolding B_start_steps andThen_Done by blast
  have p1: "pending w1 = pending w" by (rule only_trace_pending(1) [OF only_trace_B_start_fetch w1])
  show ?thesis
  proof (cases x)
    case None
    with rest p1 show ?thesis by (auto simp: ret_Done)
  next
    case (Some m)
    with B_start_fetch_seq w1 obtain m' n where m: "m = m'\<lparr>confirmseq := n\<rparr>" by blast
    obtain k d' where put: "Manager_DBPut (rocks E) (dbkey L2_start_tx_info_map (crosstxid m)) (pb_serialize E m) (db w1) = (k, d')"
      by fastforce
    have "rk_map (rocks E) d' (dbkey L2_start_tx_info_map (crosstxid m)) = Some (pb_serialize E m)"
      using DBPut_map [OF ok(1) put] DBPut_ok [OF ok(2)] put by (metis fst_conv fun_upd_same)
    with rest Some put p1 m show ?thesis
      by (auto simp: save_entry_def prog_simps DBPut_def emplace_entry_def pending_def fun_eq_iff
          intro!: exI [of _ m'] exI [of _ n])
  qed
qed

lemma B_start_stopped:
  assumes "B_HandleStartTxEvent E txid w = Fault f w'"
  shows "pending w' = pending w"
proof -
  have "(case r of None \<Rightarrow> ret False | Some m \<Rightarrow>
      andThen (save_entry E L2_start_tx_info_map (Some (make_CrossTx (pb_serialize E) m))) (\<lambda>_. ret True)) v \<noteq> Fault f w'" for r v
    by (auto simp: save_entry_def DBPut_def prog_simps split: option.splits prod.splits)
  then show ?thesis
    using assms only_trace_pending(2) [OF only_trace_B_start_fetch] unfolding B_start_steps andThen_Fault by blast
qed

section \<open>Sending the same acknowledgement again\<close>

text \<open>A save of a transaction that is already in the table writes the new message to the database
  and leaves the old entry in the table.\<close>

lemma resave:
  assumes "external_ok E" and "coherent E w" and "map_of (tables w t) (cross_tx_id e') = Some e"
  shows "\<exists>w'. save_then_stamp E t (Some e') w = Done True w' \<and> tables w' = tables w \<and>
    rk_map (rocks E) (db w') = (rk_map (rocks E) (db w))(dbkey t (cross_tx_id e') \<mapsto> cross_tx_info e')"
proof -
  note ok = external_okD [OF assms(1)]
  obtain k d' where put: "Manager_DBPut (rocks E) (dbkey t (cross_tx_id e')) (cross_tx_info e') (db w) = (k, d')"
    by fastforce
  have "rk_map (rocks E) d' = (rk_map (rocks E) (db w))(dbkey t (cross_tx_id e') \<mapsto> cross_tx_info e')"
    using DBPut_map [OF ok(1) put] DBPut_ok [OF ok(2)] put by (metis fst_conv)
  moreover have "m_emplace (cross_tx_id e') v (tables w t) = tables w t" for v
    by (rule emplace_present [OF coherent_sorted [OF assms(2)] map_of_Some_keys [OF assms(3)]])
  ultimately show ?thesis
    using put by (simp add: save_then_stamp_def prog_simps DBPut_def HighResolution_def emplace_entry_def)
qed

lemma resend_ack:
  assumes "external_ok E" and "coherent E w" and "map_of (tables w L1_send_ack_info_map) (crosstxid m) = Some e"
    and "A_SendAckToLayer1 E m w = Done True w'"
  shows "tables w' = tables w \<and> (\<exists>h. rk_map (rocks E) (db w') (dbkey L1_send_ack_info_map (crosstxid m)) =
    Some (pb_serialize E (m\<lparr>sendacktol1hash := h\<rparr>)))"
proof -
  from assms(4) obtain h w1 where sent: "A_sendTransactionToLayer1 E (send_ack_input E m (A_error_desc m)) 0 w = Done (Some h) w1"
    and saved: "andThen (A_SaveSendAckInfo E (Some (make_CrossTx (pb_serialize E) (m\<lparr>sendacktol1hash := h\<rparr>)))) (\<lambda>_. ret True) w1
      = Done True w'"
    unfolding A_SendAckToLayer1_def by (auto simp: andThen_Done ret_Done split: option.splits)
  have same: "db w1 = db w" "tables w1 = tables w"
    using only_trace_Done [OF only_trace_send_transaction sent [unfolded A_sendTransactionToLayer1_def]] by simp_all
  then have "coherent E w1" using assms(2) by (simp add: coherent_def)
  from resave [OF assms(1) this, of L1_send_ack_info_map "make_CrossTx (pb_serialize E) (m\<lparr>sendacktol1hash := h\<rparr>)" e]
  show ?thesis using saved same assms(3) by (auto simp: A_SaveSendAckInfo_def andThen_Done ret_Done)
qed

section \<open>Reading the answers of the chains\<close>

definition comma_free :: "string \<Rightarrow> bool" where
  "comma_free s \<longleftrightarrow> CHR '','' \<notin> set s"

lemma comma_items_field: "comma_free x \<Longrightarrow> comma_items item (x @ CHR '','' # s) = (rev item @ x) # comma_items [] s"
  by (induction x arbitrary: item) (auto simp: comma_free_def)

lemma comma_items_last: "comma_free x \<Longrightarrow> comma_items item x = (if rev item @ x = [] then [] else [rev item @ x])"
  by (induction x arbitrary: item) (auto simp: comma_free_def)

lemma comma_free_ToString: "comma_free (ToString n)"
proof -
  have "CHR '','' \<noteq> c" if "IS_DIGIT c" for c using that by (auto simp: IS_DIGIT_def in_range_def byte_def)
  then show ?thesis using dec_nat_digits by (auto simp: comma_free_def ToString_def)
qed

lemma strip_brackets_text: "strip_brackets (CHR ''['' # s @ '']'') = Some s"
  by (simp add: strip_brackets_def substr_def)

text \<open>What the contracts answer with.\<close>

definition contract_info1 :: "string \<Rightarrow> string \<Rightarrow> CrossTxInfo \<Rightarrow> string" where
  "contract_info1 a b m = CHR ''['' # (a @ '','' @ b @ '','' @ crosstxid m @ '','' @ ToString (amount m) @ '','' @
     srcbid m @ '','' @ destbid m) @ '']''"

definition contract_info2 :: "CrossTxInfo \<Rightarrow> string" where
  "contract_info2 m = CHR ''['' # (ToString (status m) @ '','' @ ToString (refunded m) @ '','' @
     ToString (createtimestamp m) @ '','' @ ToString (executetimestamp m) @ '','' @ ToString (timeout m) @ '','' @
     errordesc m) @ '']''"

lemma contract_items1:
  assumes "comma_free a" "comma_free b" "comma_free (crosstxid m)" "comma_free (srcbid m)" "comma_free (destbid m)" "destbid m \<noteq> []"
  shows "\<exists>i. strip_brackets (contract_info1 a b m) = Some i \<and>
    comma_items [] i = [a, b, crosstxid m, ToString (amount m), srcbid m, destbid m]"
  using assms unfolding contract_info1_def strip_brackets_text
  by (simp add: comma_items_field comma_items_last comma_free_ToString)

lemma contract_items2:
  assumes "comma_free (errordesc m)"
  shows "\<exists>i. strip_brackets (contract_info2 m) = Some i \<and> comma_items [] i =
      [ToString (status m), ToString (refunded m), ToString (createtimestamp m), ToString (executetimestamp m),
       ToString (timeout m)] @ (if errordesc m = [] then [] else [errordesc m])"
  using assms unfolding contract_info2_def strip_brackets_text
  by (simp add: comma_items_field comma_items_last comma_free_ToString)

definition chain_part :: "CrossTxInfo \<Rightarrow> CrossTxInfo" where
  "chain_part m = m\<lparr>confirmseq := 0, sendtxhash := [], sendacktol1hash := [], sendacktol2hash := []\<rparr>"

lemma contract_read_back:
  assumes "comma_free a" "comma_free b" "comma_free (crosstxid m)" "comma_free (srcbid m)" "comma_free (destbid m)"
    "comma_free (errordesc m)" "destbid m \<noteq> []" and "plain_info m"
  shows "A_makeCrossTxInfo new_CrossTxInfo (contract_info1 a b m) (contract_info2 m) w = Done (Some (chain_part m)) w \<and>
    B_makeCrossTxInfo new_CrossTxInfo (contract_info1 a b m) (contract_info2 m) w = Done (Some (chain_part m)) w"
proof -
  have ne: "contract_info1 a b m \<noteq> []" "contract_info2 m \<noteq> []" by (simp_all add: contract_info1_def contract_info2_def)
  obtain i1 i2 where items: "strip_brackets (contract_info1 a b m) = Some i1" "strip_brackets (contract_info2 m) = Some i2"
    "comma_items [] i1 = [a, b, crosstxid m, ToString (amount m), srcbid m, destbid m]"
    "comma_items [] i2 = [ToString (status m), ToString (refunded m), ToString (createtimestamp m),
      ToString (executetimestamp m), ToString (timeout m)] @ (if errordesc m = [] then [] else [errordesc m])"
    using contract_items1 [OF assms(1-5,7)] contract_items2 [OF assms(6)] by blast
  have fits: "fits64 (amount m)" "fits32 (status m)" "fits32 (refunded m)" "fits64 (createtimestamp m)"
    "fits64 (executetimestamp m)" "fits64 (timeout m)"
    using assms(8) by (simp_all add: plain_info_def)
  have same: "new_CrossTxInfo\<lparr>crosstxid := crosstxid m, amount := amount m, srcbid := srcbid m, destbid := destbid m,
      status := status m, refunded := refunded m, createtimestamp := createtimestamp m,
      executetimestamp := executetimestamp m, timeout := timeout m, errordesc := errordesc m\<rparr> = chain_part m"
    by (simp add: chain_part_def new_CrossTxInfo_def)
  show ?thesis
    using fits
    by (cases "errordesc m = []")
       (simp_all add: A_makeCrossTxInfo_def B_makeCrossTxInfo_def ne items prog_simps list_at_def Let_def
         Stol_ToString Stoi_ToString flip: same)
qed

text \<open>Programs that only look at values they were given.\<close>

definition quiet :: "('a, 'd) agent \<Rightarrow> bool" where
  "quiet m \<longleftrightarrow> (\<forall>w. state_of (m w) = w)"

lemma quiet_andThen: "quiet m \<Longrightarrow> (\<And>a. quiet (k a)) \<Longrightarrow> quiet (andThen m k)"
  unfolding quiet_def andThen_def by (auto split: outcome.splits) (metis state_of.simps)+

lemma quiet_basic: "quiet (ret a)" "quiet (orFault f x)" "quiet (list_at l i)" "quiet (jget E j key)" "quiet (jmember E j key)"
  "quiet (jstring E j)" "quiet (jat E j n)"
  by (auto simp: quiet_def ret_def fault_def orFault_def list_at_def jget_def jmember_def jstring_def jat_def split: option.splits)

lemma quiet_cases: "quiet m \<Longrightarrow> quiet n \<Longrightarrow> quiet (if b then m else n)"
  "quiet m \<Longrightarrow> (\<And>a. quiet (k a)) \<Longrightarrow> quiet (case x of None \<Rightarrow> m | Some a \<Rightarrow> k a)"
  by (auto split: option.splits)

lemmas quiet_intros = quiet_andThen quiet_basic quiet_cases

lemma quiet_query_data: "quiet (query_data E r)"
  unfolding query_data_def by (intro quiet_intros)

text \<open>The one question a status query asks.\<close>

definition status_question :: "('d, 'j) env \<Rightarrow> string \<Rightarrow> string \<Rightarrow> io" where
  "status_question E url txid = HttpPost url ''/callContract''
     (call_contract_body E (cross_contract (layer2 E)) ''GetCrossTxInfo2(bytes)''
        ''returns(uint8,uint8,uint256,uint256,uint256,string)'' txid)"

fun unanswered :: "('d, 'j) env \<Rightarrow> io list \<Rightarrow> io \<Rightarrow> bool" where
  "unanswered E tr (HttpPost url req body) \<longleftrightarrow> http_post E tr url req body = None"
| "unanswered E tr (HttpGet url req) \<longleftrightarrow> http_get E tr url req = None"
| "unanswered E tr _ \<longleftrightarrow> False"

lemma GetCrossTxStatus_asks:
  "state_of (GetCrossTxStatus E url txid w) = log_io (status_question E url txid) w \<and>
   (unanswered E (trace w) (status_question E url txid) \<longrightarrow>
     value_of (GetCrossTxStatus E url txid w) = Some CROSS_RESULT_INIT)"
proof -
  let ?rest = "\<lambda>i2. case i2 of None \<Rightarrow> ret 0 | Some crossTxInfo2 \<Rightarrow>
       andThen (orFault Thrown (strip_brackets crossTxInfo2)) (\<lambda>info2.
       andThen (list_at (comma_items [] info2) 0) (\<lambda>s. ret (Stoi s)))"
  let ?body = "call_contract_body E (cross_contract (layer2 E)) ''GetCrossTxInfo2(bytes)''
        ''returns(uint8,uint8,uint256,uint256,uint256,string)'' txid"
  have run: "GetCrossTxStatus E url txid w = andThen (query_data E (http_post E (trace w) url ''/callContract'' ?body)) ?rest
      (log_io (status_question E url txid) w)"
    unfolding GetCrossTxStatus_def getCrossTxInfo2_def andThen_assoc
    by (subst andThen_app) (simp add: makePostRequest_def contract_of_def status_question_def)
  have "quiet (andThen (query_data E r) ?rest)" for r
    by (intro quiet_intros quiet_query_data)
  then have "state_of (GetCrossTxStatus E url txid w) = log_io (status_question E url txid) w"
    unfolding run quiet_def by blast
  then show ?thesis
    by (auto simp: run status_question_def query_data_def prog_simps cross_results)
qed

text \<open>An element of the results of a submission, with its error code and its hash.\<close>

definition result_is :: "('d, 'j) env \<Rightarrow> 'j \<Rightarrow> int \<times> string \<Rightarrow> bool" where
  "result_is E r p \<longleftrightarrow> (\<exists>c h d s. js_get (json E) r ''error_code'' = Some c \<and> js_asInt (json E) c = Some (fst p) \<and>
     js_get (json E) r ''hash'' = Some h \<and> js_asString (json E) h = Some (snd p) \<and>
     js_get (json E) r ''error_desc'' = Some d \<and> js_asString (json E) d = Some s)"

lemma check_results_spec:
  "list_all2 (result_is E) rs ps \<Longrightarrow>
   check_results E rs h w = Done (if \<forall>p \<in> set ps. fst p = 0 then Some (last (h # map snd ps)) else None) w"
proof (induction rs ps arbitrary: h rule: list_all2_induct)
  case (Cons r rs p ps)
  then show ?case by (auto simp: result_is_def jget_def jint_def jstring_def prog_simps) force
qed (simp add: prog_simps)

lemma checkTxResponse_spec:
  assumes "js_fromString (json E) response = Some j" and "js_get (json E) j ''results'' = Some res"
    and "list_all2 (result_is E) (if js_isArray (json E) res then js_elems (json E) res else []) ps"
  shows "checkTxResponse E response w =
    Done (if \<forall>p \<in> set ps. fst p = 0 then Some (last ([] # map snd ps)) else None) w"
proof (cases "js_isArray (json E) res \<and> js_elems (json E) res \<noteq> []")
  case True
  with assms check_results_spec [of E "js_elems (json E) res" ps "[]" w] show ?thesis
    by (simp add: checkTxResponse_def jget_def prog_simps)
next
  case False
  with assms(3) have "ps = []" by (auto split: if_splits)
  with False assms(1,2) show ?thesis by (auto simp: checkTxResponse_def jget_def prog_simps)
qed

end
