(* ===== verification/Sample_Json.thy ===== *)
theory Sample_Json
  imports Environment
begin

text \<open>
  Small JSON values on which the theorems are applied.
\<close>

section \<open>JSON values\<close>

text \<open>An answer is found by its name in a list of answers.\<close>

datatype answer = ANull | ANum int | AText string | AList "answer list" | AObj "(string \<times> answer) list"

definition sample_json :: "(string \<times> answer) list \<Rightarrow> answer json_lib" where
  "sample_json answers = \<lparr>
     js_fromString = map_of answers,
     js_get = (\<lambda>j k. case j of AObj fs \<Rightarrow> Some (case map_of fs k of Some v \<Rightarrow> v | None \<Rightarrow> ANull)
                              | ANull \<Rightarrow> Some ANull | _ \<Rightarrow> None),
     js_at = (\<lambda>j i. case j of AList l \<Rightarrow> Some (if i < length l then l ! i else ANull) | ANull \<Rightarrow> Some ANull | _ \<Rightarrow> None),
     js_isMember = (\<lambda>j k. case j of AObj fs \<Rightarrow> Some (map_of fs k \<noteq> None) | ANull \<Rightarrow> Some False | _ \<Rightarrow> None),
     js_isArray = (\<lambda>j. case j of AList l \<Rightarrow> True | _ \<Rightarrow> False),
     js_isNull = (\<lambda>j. case j of ANull \<Rightarrow> True | _ \<Rightarrow> False),
     js_elems = (\<lambda>j. case j of AList l \<Rightarrow> l | _ \<Rightarrow> []),
     js_asInt = (\<lambda>j. case j of ANum n \<Rightarrow> if fits32 n then Some n else None | ANull \<Rightarrow> Some 0 | _ \<Rightarrow> None),
     js_asInt64 = (\<lambda>j. case j of ANum n \<Rightarrow> if fits64 n then Some n else None | ANull \<Rightarrow> Some 0 | _ \<Rightarrow> None),
     js_asUInt = (\<lambda>j. case j of ANum n \<Rightarrow> if 0 \<le> n \<and> n < 2 ^ 32 then Some (nat n) else None | ANull \<Rightarrow> Some 0 | _ \<Rightarrow> None),
     js_asString = (\<lambda>j. case j of AText s \<Rightarrow> if plain s then Some s else None | ANull \<Rightarrow> Some [] | _ \<Rightarrow> None),
     js_toStyledString = (\<lambda>t. ''json'')\<rparr>"

end
