(* ===== verification/Sample.thy ===== *)
theory Sample
  imports Relay Sample_Json
begin

text \<open>
  A concrete outside world, on which the theorems are applied: a sorted key-value store, a
  message coding that writes the fields one after the other with NUL between them, and small
  JSON values. It satisfies the named hypotheses of \<open>Environment\<close>, so they can hold together.
\<close>

section \<open>A store\<close>

definition tidy :: "(string, string) smap \<Rightarrow> (string, string) smap" where
  "tidy d = foldr (\<lambda>(k, v) m. m_put k v m) d []"

fun batch_store :: "batch_op list \<Rightarrow> (string, string) smap \<Rightarrow> (string, string) smap" where
  "batch_store [] d = d"
| "batch_store (BPut k v # b) d = batch_store b (m_put k v d)"
| "batch_store (BDelete k # b) d = batch_store b (m_erase k d)"

definition sample_rocks :: "(string, string) smap rocks" where
  "sample_rocks = \<lparr>
     rk_put = (\<lambda>d k v. (True, m_put k v (tidy d))),
     rk_delete = (\<lambda>d k. (True, m_erase k (tidy d))),
     rk_get = (\<lambda>d k. Some (map_of (tidy d) k)),
     rk_write = (\<lambda>d b. (True, batch_store b (tidy d))),
     rk_iter_ok = (\<lambda>d. True),
     rk_seek = (\<lambda>d p. dropWhile (\<lambda>(k, _). k < p) (tidy d))\<rparr>"

lemma sorted_tidy: "sorted_map (tidy d)"
  by (induction d) (auto simp: tidy_def)

lemma m_put_below: "\<forall>q \<in> set (keys m). k < q \<Longrightarrow> m_put k v m = (k, v) # m"
  by (cases m) auto

lemma tidy_sorted: "sorted_map d \<Longrightarrow> tidy d = d"
proof (induction d)
  case (Cons e d)
  obtain k v where e: "e = (k, v)" by fastforce
  with Cons have "tidy d = d" and "\<forall>q \<in> set (keys d). k < q" by auto
  then show ?case using e by (simp add: tidy_def m_put_below)
qed (simp add: tidy_def)

lemma sorted_batch_store: "sorted_map d \<Longrightarrow> sorted_map (batch_store b d)"
  by (induction b d rule: batch_store.induct) auto

lemma map_of_batch_store: "sorted_map d \<Longrightarrow> map_of (batch_store b d) = apply_batch b (map_of d)"
  by (induction b d rule: batch_store.induct) (auto simp: map_of_put map_of_erase)

lemma seek_all: "rk_seek sample_rocks d [] = tidy d"
proof -
  have "dropWhile (\<lambda>(k, _). k < ([] :: string)) es = es" for es :: "(string, string) smap"
    by (cases es) auto
  then show ?thesis by (simp add: sample_rocks_def)
qed

lemma rk_map_sample: "rk_map sample_rocks d = map_of (tidy d)"
  by (rule ext) (simp add: rk_map_def seek_all)

lemma sample_rocks_ok: "rocks_ok sample_rocks"
  unfolding rocks_ok_def rk_map_sample seek_all
  by (auto simp: sample_rocks_def sorted_tidy tidy_sorted map_of_put map_of_erase
      sorted_batch_store map_of_batch_store)

lemma sample_rocks_reliable: "rocks_reliable sample_rocks"
  by (simp add: rocks_reliable_def sample_rocks_def)

section \<open>A message coding\<close>

fun unjoin :: "string \<Rightarrow> string \<Rightarrow> string list" where
  "unjoin item [] = [rev item]"
| "unjoin item (c # s) = (if c = CHR 0x00 then rev item # unjoin [] s else unjoin (c # item) s)"

fun join0 :: "string list \<Rightarrow> string" where
  "join0 [] = []"
| "join0 (f # fs) = f @ CHR 0x00 # join0 fs"

definition sample_serialize :: "CrossTxInfo \<Rightarrow> string" where
  "sample_serialize m = join0 [crosstxid m, srcbid m, destbid m, ToString (amount m), ToString (status m),
     ToString (refunded m), ToString (createtimestamp m), ToString (executetimestamp m), ToString (timeout m),
     errordesc m, ToString (confirmseq m), sendtxhash m, sendacktol1hash m, sendacktol2hash m]"

definition sample_parse :: "string \<Rightarrow> bool \<times> CrossTxInfo" where
  "sample_parse s = (let f = unjoin [] s in
     if length f \<noteq> 15 then (False, new_CrossTxInfo)
     else (True, \<lparr>crosstxid = f ! 0, srcbid = f ! 1, destbid = f ! 2, amount = Stol (f ! 3), status = Stoi (f ! 4),
       refunded = Stoi (f ! 5), createtimestamp = Stol (f ! 6), executetimestamp = Stol (f ! 7),
       timeout = Stol (f ! 8), errordesc = f ! 9, confirmseq = Stol (f ! 10), sendtxhash = f ! 11,
       sendacktol1hash = f ! 12, sendacktol2hash = f ! 13\<rparr>))"

lemma unjoin_field: "nul_free f \<Longrightarrow> unjoin item (f @ CHR 0x00 # s) = (rev item @ f) # unjoin [] s"
  by (induction f arbitrary: item) (auto simp: nul_free_def)

lemma unjoin_join0: "\<forall>f \<in> set fs. nul_free f \<Longrightarrow> unjoin [] (join0 fs) = fs @ [[]]"
  by (induction fs) (simp_all add: unjoin_field)

lemma nul_free_ToString: "nul_free (ToString n)"
  using digits_nul_free [OF dec_nat_digits]
  by (auto simp: ToString_def nul_free_def)

lemma sample_round_trip: "plain_info m \<Longrightarrow> sample_parse (sample_serialize m) = (True, m)"
proof -
  assume m: "plain_info m"
  let ?fs = "[crosstxid m, srcbid m, destbid m, ToString (amount m), ToString (status m),
     ToString (refunded m), ToString (createtimestamp m), ToString (executetimestamp m), ToString (timeout m),
     errordesc m, ToString (confirmseq m), sendtxhash m, sendacktol1hash m, sendacktol2hash m]"
  have "unjoin [] (sample_serialize m) = ?fs @ [[]]"
    unfolding sample_serialize_def
    by (rule unjoin_join0) (use m in \<open>auto simp: plain_info_def plain_nul_free nul_free_ToString\<close>)
  with m show ?thesis
    by (simp add: sample_parse_def plain_info_def Stol_ToString Stoi_ToString)
qed

section \<open>The outside world\<close>

definition sample_layer1 :: Layer1Configure where
  "sample_layer1 = \<lparr>http_endpoint = ''http1'', ws_endpoint = ''ws1'', cross_contract = ''cross1'',
     private_key = ''pri1'', agent_address = ''agent1'', start_tx_topic = ''start1'', send_tx_topic = ''send1'',
     ack_tx_topic = ''ack1'', cfg_fee_limit = 20000, cfg_gas_price = 1, manager_contract = ''manager1'', topics = []\<rparr>"

definition sample_layer2 :: Layer2Configure where
  "sample_layer2 = \<lparr>http_endpoint = ''http2'', ws_endpoint = ''ws2'', cross_contract = ''cross2'',
     private_key = ''pri2'', agent_address = ''agent2'', start_tx_topic = ''start2'', send_tx_topic = ''send2'',
     ack_tx_topic = ''ack2'', cfg_fee_limit = 20000, cfg_gas_price = 1, layer2_id = 7\<rparr>"

text \<open>\<open>sample_env answers gets posts now\<close>: the JSON texts that can come, the answers to requests
  by path, and the clock.\<close>

definition sample_env ::
  "(string \<times> answer) list \<Rightarrow> (string \<Rightarrow> string option) \<Rightarrow> (string \<Rightarrow> string option) \<Rightarrow> int \<Rightarrow>
   ((string, string) smap, answer) env" where
  "sample_env answers gets posts now = \<lparr>
     layer1 = sample_layer1, layer2 = sample_layer2, rocks = sample_rocks, json = sample_json answers,
     http_get = (\<lambda>tr url req. gets req), http_post = (\<lambda>tr url req body. posts req),
     high_resolution = (\<lambda>tr. now), system_millis = (\<lambda>tr. 1),
     pb_serialize = sample_serialize, pb_parse = sample_parse, pb_transaction = (\<lambda>tx. ''tx''),
     enc_public_key = (\<lambda>k. ''pub''), sign = (\<lambda>k d. ''sig'')\<rparr>"

lemma sample_env_ok: "external_ok (sample_env answers gets posts now)"
proof -
  have "js_asInt64 (sample_json answers) j = Some n \<Longrightarrow> fits64 n" for j n
    by (cases j) (auto simp: sample_json_def fits64_def split: if_splits)
  moreover have "js_asString (sample_json answers) j = Some s \<Longrightarrow> plain s" for j s
    by (cases j) (auto simp: sample_json_def split: if_splits)
  ultimately show ?thesis
    by (simp add: external_ok_def sample_env_def sample_rocks_ok sample_rocks_reliable protobuf_ok_def
        sample_round_trip plain_env_def)
qed

definition empty_world :: "(string, string) smap world" where
  "empty_world = \<lparr>trace = [], db = [], tables = (\<lambda>_. [])\<rparr>"

definition sample_parsers :: parsers where
  "sample_parsers = \<lparr>parse_subscribe = (\<lambda>msg. None), parse_manager = (\<lambda>msg. None)\<rparr>"

lemma sample_parsers_ok: "parsers_ok sample_parsers"
  by (simp add: parsers_ok_def sample_parsers_def)

lemma coherent_empty: "coherent (sample_env answers gets posts now) empty_world"
  by (simp add: coherent_def empty_world_def sample_env_def rk_map_sample tidy_def)

text \<open>A world with one entry, in the table and in the database.\<close>

definition one_entry :: "table \<Rightarrow> CrossTxInfo \<Rightarrow> int option \<Rightarrow> (string, string) smap world" where
  "one_entry t m due = \<lparr>trace = [], db = [(dbkey t (crosstxid m), sample_serialize m)],
     tables = (\<lambda>u. if u = t then [(crosstxid m, (make_CrossTx sample_serialize m)\<lparr>send_ack_timeout := due\<rparr>)] else [])\<rparr>"

lemma coherent_one_entry:
  assumes m: "plain_info m" and due: "ack_table t \<longrightarrow> due \<noteq> None"
  shows "coherent (sample_env answers gets posts now) (one_entry t m due)"
proof -
  let ?E = "sample_env answers gets posts now"
  have map: "rk_map (rocks ?E) (db (one_entry t m due)) = [dbkey t (crosstxid m) \<mapsto> sample_serialize m]"
    by (simp add: sample_env_def rk_map_sample one_entry_def tidy_def)
  have "entry_ok ?E t (crosstxid m) ((make_CrossTx sample_serialize m)\<lparr>send_ack_timeout := due\<rparr>)"
    using m due by (auto simp: entry_ok_def sample_env_def)
  then show ?thesis
    using m agent_keys.key_inject [OF _ plain_info_id [OF m], of _ _ t]
    unfolding coherent_def map
    by (auto simp: one_entry_def sample_env_def)
qed

definition sample_msg :: CrossTxInfo where
  "sample_msg = new_CrossTxInfo\<lparr>crosstxid := ''id1'', srcbid := ''src'', destbid := ''dst'', amount := 10,
     timeout := 100, confirmseq := 3\<rparr>"

lemma sample_msg_plain: "plain_info sample_msg"
  by (simp add: sample_msg_def new_CrossTxInfo_def plain_info_def plain_def fits32_def fits64_def byte_def)

text \<open>Answers of a chain that works: a block height, and a submitted transaction with its hash.\<close>

definition chain_answers :: "(string \<times> answer) list" where
  "chain_answers =
     [(''ledger'', AObj [(''error_code'', ANum 0), (''result'', AObj [(''header'', AObj [(''seq'', ANum 7)])])]),
      (''sent'', AObj [(''results'', AList [AObj [(''error_code'', ANum 0), (''hash'', AText ''h1'')]])])]"

definition chain_gets :: "string \<Rightarrow> string option" where
  "chain_gets req = (if req = ''/getLedger'' then Some ''ledger'' else None)"

definition chain_posts :: "string \<Rightarrow> string option" where
  "chain_posts req = (if req = ''/submitTransaction'' then Some ''sent'' else None)"

definition chain_env :: "((string, string) smap, answer) env" where
  "chain_env = sample_env chain_answers chain_gets chain_posts 5"

lemma chain_env_ok: "external_ok chain_env"
  by (simp add: chain_env_def sample_env_ok)

lemma chain_coherent: "ack_table t \<longrightarrow> due \<noteq> None \<Longrightarrow> coherent chain_env (one_entry t sample_msg due)"
  by (simp add: chain_env_def coherent_one_entry sample_msg_plain)

section \<open>Chains that answer about a transaction\<close>

lemma external_ok_http [simp]: "external_ok (E\<lparr>http_get := g, http_post := p\<rparr>) = external_ok E"
  by (simp add: external_ok_def protobuf_ok_def plain_env_def)

lemma coherent_http [simp]: "coherent (E\<lparr>http_get := g, http_post := p\<rparr>) w = coherent E w"
  by (simp add: coherent_def entry_ok_def)

definition contract_answer :: "string \<Rightarrow> answer" where
  "contract_answer data = AObj [(''result'', AObj [(''query_rets'', AList [AObj [
     (''error'', AObj [(''data'', ANull)]), (''result'', AObj [(''data'', AText data)])]])])]"

text \<open>The first question about a transaction is answered with the parties, the second with the
  state; every submission gets the hash \<open>h1\<close>.\<close>

definition talk_post :: "io list \<Rightarrow> string \<Rightarrow> string \<Rightarrow> string \<Rightarrow> string option" where
  "talk_post tr url req body =
     (if req = ''/submitTransaction'' then Some ''sent''
      else if even (length (filter (\<lambda>e. case e of HttpPost u r b \<Rightarrow> r = ''/callContract'' | _ \<Rightarrow> False) tr))
      then Some ''info1'' else Some ''info2'')"

definition talk_env :: "((string, string) smap, answer) env" where
  "talk_env = (sample_env (chain_answers @
       [(''info1'', contract_answer ''[0,1,id1,10,src,dst]''), (''info2'', contract_answer ''[0,0,1,2,100]'')])
     chain_gets chain_posts 5)\<lparr>http_get := (\<lambda>tr url req. chain_gets req), http_post := talk_post\<rparr>"

lemma talk_env_ok: "external_ok talk_env"
  by (simp add: talk_env_def sample_env_ok)

lemma talk_coherent: "ack_table t \<longrightarrow> due \<noteq> None \<Longrightarrow> coherent talk_env (one_entry t sample_msg due)"
  by (simp add: talk_env_def coherent_one_entry sample_msg_plain)

lemma sorted_one_entry: "sorted_tables (one_entry t m due)"
  by (simp add: sorted_tables_def one_entry_def)

text \<open>A run whose value is known, as a run.\<close>

lemma value_of_Done: "value_of x = Some a \<Longrightarrow> \<exists>w. x = Done a w"
  by (cases x) simp_all

text \<open>Chains on which the agent has enough money.\<close>

definition rich_env :: "((string, string) smap, answer) env" where
  "rich_env = sample_env [(''rich'', AObj [(''error_code'', ANum 0), (''result'', AObj [(''balance'', ANum 9000000)])])]
     (\<lambda>_. Some ''rich'') (\<lambda>_. None) 5"

end
