(* ===== verification/Stream_Hash.thy ===== *)
theory Stream_Hash
  imports Prelude
begin

text \<open>
  What the two hash functions of the repository have in common: a message is taken in pieces of
  any size, whole blocks of 64 bytes are processed at once and the rest waits in a buffer.
  \<open>chain\<close> runs a compression function over the whole blocks of a message, \<open>copy_to\<close> is
  \<open>memcpy\<close> into a buffer, and the locale \<open>stream_hash\<close> is the contract: the digest depends on
  the bytes only, not on how they were cut into pieces.
\<close>

unbundle bit_operations_syntax

section \<open>Blocks\<close>

function chain :: "('h \<Rightarrow> string \<Rightarrow> 'h) \<Rightarrow> 'h \<Rightarrow> string \<Rightarrow> 'h" where
  "chain p h m = (if length m < 64 then h else chain p (p h (take 64 m)) (drop 64 m))"
  by pat_completeness auto
termination by (relation "measure (\<lambda>(p, h, m). length m)") auto

declare chain.simps [simp del]

text \<open>What is left after the whole blocks.\<close>

definition tail_block :: "string \<Rightarrow> string" where
  "tail_block m = drop (64 * (length m div 64)) m"

lemma chain_short [simp]: "length m < 64 \<Longrightarrow> chain p h m = h"
  by (subst chain.simps) simp

lemma chain_block: "length b = 64 \<Longrightarrow> chain p h (b @ m) = chain p (p h b) m"
  by (subst chain.simps) simp

lemma length_tail_block [simp]: "length (tail_block m) = length m mod 64"
  by (simp add: tail_block_def minus_mult_div_eq_mod)

lemma tail_block_short [simp]: "length m < 64 \<Longrightarrow> tail_block m = m"
  by (simp add: tail_block_def)

lemma tail_block_block: "length b = 64 \<Longrightarrow> tail_block (b @ m) = tail_block m"
proof -
  assume b: "length b = 64"
  have "(64 + length m) div 64 = Suc (length m div 64)" by simp
  with b show ?thesis by (simp add: tail_block_def)
qed

lemma block_cases:
  obtains (short) "length m < 64" | (block) b m' where "m = b @ m'" "length b = 64"
proof (cases "length m < 64")
  case False
  then have "m = take 64 m @ drop 64 m" "length (take 64 m) = 64" by simp_all
  then show thesis by (rule block)
qed (rule short)

lemma block_induct [case_names short block]:
  assumes "\<And>m. length m < 64 \<Longrightarrow> P m" and "\<And>b m. length b = 64 \<Longrightarrow> P m \<Longrightarrow> P (b @ m)"
  shows "P m"
proof (induction m rule: length_induct)
  case (1 m)
  show ?case
  proof (cases m rule: block_cases)
    case (block b m')
    then have "length m' < length m" by simp
    with 1 block assms(2) show ?thesis by blast
  qed (rule assms(1))
qed

text \<open>More data: the tail goes in front of it.\<close>

lemma chain_append: "chain p h (m @ x) = chain p (chain p h m) (tail_block m @ x)"
proof (induction m arbitrary: h rule: block_induct)
  case (block b m)
  then show ?case by (simp add: chain_block tail_block_block)
qed simp

lemma tail_block_append: "tail_block (m @ x) = tail_block (tail_block m @ x)"
  by (induction m rule: block_induct) (simp_all add: tail_block_block)

text \<open>\<open>memcpy(buffer + at, data, data.size())\<close>\<close>

definition copy_to :: "nat \<Rightarrow> string \<Rightarrow> string \<Rightarrow> string" where
  "copy_to at data buf = take at buf @ data @ drop (at + length data) buf"

lemma length_copy_to [simp]: "at + length data \<le> length buf \<Longrightarrow> length (copy_to at data buf) = length buf"
  by (simp add: copy_to_def)

lemma take_copy_to: "at + length data \<le> length buf \<Longrightarrow> take (at + length data) (copy_to at data buf) = take at buf @ data"
  by (simp add: copy_to_def)

section \<open>The contract\<close>

locale stream_hash =
  fixes ok_memory :: "'u \<Rightarrow> bool"
    and start :: "'u \<Rightarrow> 'c"
    and update :: "'c \<Rightarrow> string \<Rightarrow> 'c"
    and final :: "'c \<Rightarrow> string"
    and small :: "string \<Rightarrow> bool"
    and absorbed :: "'c \<Rightarrow> string \<Rightarrow> bool"
    and digest :: "string \<Rightarrow> string"
  assumes absorbed_start: "ok_memory u \<Longrightarrow> absorbed (start u) []"
    and absorbed_update: "absorbed c m \<Longrightarrow> small x \<Longrightarrow> absorbed (update c x) (m @ x)"
    and final_digest: "absorbed c m \<Longrightarrow> final c = digest m"
begin

lemma absorbed_pieces: "absorbed c m \<Longrightarrow> \<forall>x \<in> set xs. small x \<Longrightarrow> absorbed (foldl update c xs) (m @ concat xs)"
proof (induction xs arbitrary: c m)
  case (Cons x xs)
  then show ?case using absorbed_update [of c m x] Cons.IH [of "update c x" "m @ x"] by simp
qed simp

lemma pieces: "ok_memory u \<Longrightarrow> \<forall>x \<in> set xs. small x \<Longrightarrow> final (foldl update (start u) xs) = digest (concat xs)"
  using absorbed_pieces [OF absorbed_start, of u xs] final_digest by simp

lemma cut_does_not_matter:
  "ok_memory u \<Longrightarrow> ok_memory v \<Longrightarrow> \<forall>x \<in> set xs \<union> set ys. small x \<Longrightarrow> concat xs = concat ys \<Longrightarrow>
   final (foldl update (start u) xs) = final (foldl update (start v) ys)"
  by (simp add: pieces)

end

end
