(* ===== verification/Sm3.thy ===== *)
theory Sm3
  imports Stream_Hash
begin

text \<open>
  \<open>utils/sm3.cpp\<close>: the hash function SM3 with its streaming interface and HMAC. \<open>total\<close> and
  \<open>state\<close> are \<open>unsigned long\<close>, 64 bits; the working variables are \<open>uint32_t\<close>. The macro \<open>ROTL\<close>
  shifts by 32 and more where the C++ standard leaves the result open; the shifts here take the
  count modulo 32, as the x86 instructions do. A context that is not initialised holds arbitrary
  bytes, an argument of the operations.

  \<open>sm3_spec\<close> is the hash function as the standard GB/T 32905 writes it down: padding, the message
  expansion as a recurrence, and the compression function folded over the blocks.
\<close>

section \<open>Bytes and words\<close>

definition word8 :: "char \<Rightarrow> 32 word" where
  "word8 c = of_nat (byte c)"

definition GET_ULONG_BE :: "string \<Rightarrow> nat \<Rightarrow> 32 word" where
  "GET_ULONG_BE b i = push_bit 24 (word8 (b ! i)) OR push_bit 16 (word8 (b ! (i + 1))) OR
     push_bit 8 (word8 (b ! (i + 2))) OR word8 (b ! (i + 3))"

definition uchar :: "64 word \<Rightarrow> char" where
  "uchar n = of_byte (unat (take_bit 8 n))"

definition PUT_ULONG_BE :: "64 word \<Rightarrow> string" where
  "PUT_ULONG_BE n = [uchar (drop_bit 24 n), uchar (drop_bit 16 n), uchar (drop_bit 8 n), uchar n]"

definition shl32 :: "32 word \<Rightarrow> int \<Rightarrow> 32 word" where
  "shl32 x n = push_bit (nat (n mod 32)) x"

definition shr32 :: "32 word \<Rightarrow> int \<Rightarrow> 32 word" where
  "shr32 x n = drop_bit (nat (n mod 32)) x"

definition ROTL :: "32 word \<Rightarrow> int \<Rightarrow> 32 word" where
  "ROTL x n = shl32 (x AND 0xFFFFFFFF) n OR shr32 x (32 - n)"

definition FF0 :: "32 word \<Rightarrow> 32 word \<Rightarrow> 32 word \<Rightarrow> 32 word" where "FF0 x y z = x XOR y XOR z"
definition FF1 :: "32 word \<Rightarrow> 32 word \<Rightarrow> 32 word \<Rightarrow> 32 word" where "FF1 x y z = (x AND y) OR (x AND z) OR (y AND z)"
definition GG0 :: "32 word \<Rightarrow> 32 word \<Rightarrow> 32 word \<Rightarrow> 32 word" where "GG0 x y z = x XOR y XOR z"
definition GG1 :: "32 word \<Rightarrow> 32 word \<Rightarrow> 32 word \<Rightarrow> 32 word" where "GG1 x y z = (x AND y) OR (NOT x AND z)"
definition P0 :: "32 word \<Rightarrow> 32 word" where "P0 x = x XOR ROTL x 9 XOR ROTL x 17"
definition P1 :: "32 word \<Rightarrow> 32 word" where "P1 x = x XOR ROTL x 15 XOR ROTL x 23"

section \<open>The context and its operations\<close>

record sm3_context =
  total0 :: "64 word"
  total1 :: "64 word"
  state :: "64 word list"
  buffer :: string
  ipad :: string
  opad :: string

definition sm3_starts :: "sm3_context \<Rightarrow> sm3_context" where
  "sm3_starts ctx = ctx\<lparr>total0 := 0, total1 := 0,
     state := [0x7380166F, 0x4914B2B9, 0x172442D7, 0xDA8A0600, 0xA96F30BC, 0x163138AA, 0xE38DEE4D, 0xB0FB0E4E]\<rparr>"

text \<open>\<open>for (j = 16; j < 68; j++) W[j] = ...\<close>, with \<open>j\<close> the number of words already there.\<close>

primrec expand :: "nat \<Rightarrow> 32 word list \<Rightarrow> 32 word list" where
  "expand 0 W = W"
| "expand (Suc n) W =
     (let j = length W;
          Temp1 = W ! (j - 16) XOR W ! (j - 9);
          Temp2 = ROTL (W ! (j - 3)) 15;
          Temp3 = Temp1 XOR Temp2;
          Temp4 = P1 Temp3;
          Temp5 = ROTL (W ! (j - 13)) 7 XOR W ! (j - 6)
      in expand n (W @ [Temp4 XOR Temp5]))"

type_synonym regs = "32 word \<times> 32 word \<times> 32 word \<times> 32 word \<times> 32 word \<times> 32 word \<times> 32 word \<times> 32 word"

definition sm3_round ::
  "(32 word \<Rightarrow> 32 word \<Rightarrow> 32 word \<Rightarrow> 32 word) \<Rightarrow> (32 word \<Rightarrow> 32 word \<Rightarrow> 32 word \<Rightarrow> 32 word) \<Rightarrow>
   32 word list \<Rightarrow> 32 word list \<Rightarrow> 32 word list \<Rightarrow> nat \<Rightarrow> regs \<Rightarrow> regs" where
  "sm3_round FF GG T W W1 j r =
     (case r of (A, B, C, D, E, F, G, H) \<Rightarrow>
      let SS1 = ROTL (ROTL A 12 + E + ROTL (T ! j) (int j)) 7;
          SS2 = SS1 XOR ROTL A 12;
          TT1 = FF A B C + D + SS2 + W1 ! j;
          TT2 = GG E F G + H + SS1 + W ! j
      in (TT1, A, ROTL B 9, C, P0 TT2, E, ROTL F 19, G))"

definition sm3_T :: "32 word list" where
  "sm3_T = replicate 16 0x79CC4519 @ replicate 48 0x7A879D8A"

definition sm3_process :: "sm3_context \<Rightarrow> string \<Rightarrow> sm3_context" where
  "sm3_process ctx data =
     (let T = sm3_T;
          W = map (\<lambda>i. GET_ULONG_BE data (4 * i)) [0..<16];
          W = expand 52 W;
          W1 = map (\<lambda>j. W ! j XOR W ! (j + 4)) [0..<64];
          s = (\<lambda>i. ucast (state ctx ! i) :: 32 word);
          r = (s 0, s 1, s 2, s 3, s 4, s 5, s 6, s 7);
          r = fold (sm3_round FF0 GG0 T W W1) [0..<16] r;
          (A, B, C, D, E, F, G, H) = fold (sm3_round FF1 GG1 T W W1) [16..<64] r
      in ctx\<lparr>state := map2 (\<lambda>x y. x XOR ucast y) (state ctx) [A, B, C, D, E, F, G, H]\<rparr>)"

text \<open>\<open>sm3_update\<close> gets a pointer and an \<open>int\<close>; \<open>input\<close> is what the pointer leads to.\<close>

function sm3_blocks :: "sm3_context \<Rightarrow> string \<Rightarrow> sm3_context \<times> string" where
  "sm3_blocks ctx input =
     (if length input \<ge> 64 then sm3_blocks (sm3_process ctx (take 64 input)) (drop 64 input) else (ctx, input))"
  by pat_completeness auto
termination by (relation "measure (\<lambda>(c, s). length s)") auto

declare sm3_blocks.simps [simp del]

text \<open>The buffered bytes are completed to a block when there is enough data.\<close>

definition sm3_fill :: "nat \<Rightarrow> sm3_context \<Rightarrow> string \<Rightarrow> sm3_context \<times> string \<times> nat" where
  "sm3_fill left ctx input =
     (let fill = 64 - left in
      if left \<noteq> 0 \<and> length input \<ge> fill then
        (let ctx = ctx\<lparr>buffer := copy_to left (take fill input) (buffer ctx)\<rparr>
         in (sm3_process ctx (buffer ctx), drop fill input, 0))
      else (ctx, input, left))"

definition sm3_update :: "sm3_context \<Rightarrow> string \<Rightarrow> int \<Rightarrow> sm3_context" where
  "sm3_update ctx input ilen =
     (if ilen \<le> 0 then ctx
      else
        (let left = unat (total0 ctx AND 0x3F);
             t0 = (total0 ctx + of_int ilen) AND 0xFFFFFFFF;
             ctx = ctx\<lparr>total0 := t0, total1 := (if t0 < of_int ilen then total1 ctx + 1 else total1 ctx)\<rparr>;
             input = take (nat ilen) input;
             (ctx, input, left) = sm3_fill left ctx input;
             (ctx, input) = sm3_blocks ctx input
         in if input \<noteq> [] then ctx\<lparr>buffer := copy_to left input (buffer ctx)\<rparr> else ctx))"

definition sm3_padding :: string where
  "sm3_padding = of_byte 0x80 # replicate 63 (of_byte 0)"

definition sm3_finish :: "sm3_context \<Rightarrow> string \<times> sm3_context" where
  "sm3_finish ctx =
     (let high = ucast (drop_bit 29 (total0 ctx) OR push_bit 3 (total1 ctx)) :: 32 word;
          low = ucast (push_bit 3 (total0 ctx)) :: 32 word;
          msglen = PUT_ULONG_BE (ucast high) @ PUT_ULONG_BE (ucast low);
          last = unat (total0 ctx AND 0x3F);
          padn = (if last < 56 then 56 - last else 120 - last);
          ctx = sm3_update ctx sm3_padding (int padn);
          ctx = sm3_update ctx msglen 8
      in (concat (map (\<lambda>i. PUT_ULONG_BE (state ctx ! i)) [0..<8]), ctx))"

definition sm3 :: "sm3_context \<Rightarrow> string \<Rightarrow> int \<Rightarrow> string" where
  "sm3 ctx input ilen = fst (sm3_finish (sm3_update (sm3_starts ctx) input ilen))"

text \<open>The class: \<open>input.size()\<close> is narrowed to the \<open>int\<close> of \<open>sm3_update\<close>.\<close>

definition Sm3_new :: "sm3_context \<Rightarrow> sm3_context" where
  "Sm3_new ctx = sm3_starts ctx"

definition Sm3_Update :: "sm3_context \<Rightarrow> string \<Rightarrow> sm3_context" where
  "Sm3_Update ctx input = sm3_update ctx input (i32 (int (length input)))"

definition Sm3_Final :: "sm3_context \<Rightarrow> string \<times> sm3_context" where
  "Sm3_Final ctx = sm3_finish ctx"

definition Sm3_Crypto :: "sm3_context \<Rightarrow> string \<Rightarrow> string" where
  "Sm3_Crypto ctx input = fst (sm3_finish (sm3_update (sm3_starts ctx) input (i32 (int (length input)))))"

text \<open>A file that \<open>fopen\<close> cannot open is \<open>None\<close>; an open one is the pieces \<open>fread\<close> delivers, at most
  1024 bytes each, with what \<open>ferror\<close> says at the end. The result is the return code with the
  bytes written to \<open>output\<close>, if any: also after a read error.\<close>

definition sm3_file :: "sm3_context \<Rightarrow> (string list \<times> bool) option \<Rightarrow> int \<times> string option" where
  "sm3_file ctx f =
     (case f of None \<Rightarrow> (1, None)
      | Some (pieces, ferror) \<Rightarrow>
          let out = fst (sm3_finish (foldl (\<lambda>c p. sm3_update c p (int (length p))) (sm3_starts ctx) pieces))
          in (if ferror then 2 else 0, Some out))"

section \<open>HMAC\<close>

definition xor_char :: "char \<Rightarrow> char \<Rightarrow> char" where
  "xor_char a b = of_byte (byte a XOR byte b)"

definition sm3_hmac_starts :: "sm3_context \<Rightarrow> sm3_context \<Rightarrow> string \<Rightarrow> int \<Rightarrow> sm3_context" where
  "sm3_hmac_starts scratch ctx key keylen =
     (let (key, keylen) = (if keylen > 64 then (sm3 scratch key keylen, 32) else (key, keylen));
          k = take (nat keylen) key;
          pad = (\<lambda>b. map2 xor_char (replicate (length k) (of_byte b)) k @ replicate (64 - length k) (of_byte b));
          ctx = ctx\<lparr>ipad := pad 0x36, opad := pad 0x5C\<rparr>;
          ctx = sm3_starts ctx
      in sm3_update ctx (ipad ctx) 64)"

definition sm3_hmac_update :: "sm3_context \<Rightarrow> string \<Rightarrow> int \<Rightarrow> sm3_context" where
  "sm3_hmac_update ctx input ilen = sm3_update ctx input ilen"

definition sm3_hmac_finish :: "sm3_context \<Rightarrow> string" where
  "sm3_hmac_finish ctx =
     (let (tmpbuf, ctx) = sm3_finish ctx;
          ctx = sm3_starts ctx;
          ctx = sm3_update ctx (opad ctx) 64;
          ctx = sm3_update ctx tmpbuf 32
      in fst (sm3_finish ctx))"

definition sm3_hmac :: "sm3_context \<Rightarrow> sm3_context \<Rightarrow> string \<Rightarrow> int \<Rightarrow> string \<Rightarrow> int \<Rightarrow> string" where
  "sm3_hmac scratch ctx key keylen input ilen =
     sm3_hmac_finish (sm3_hmac_update (sm3_hmac_starts scratch ctx key keylen) input ilen)"

section \<open>The standard\<close>

definition be_bytes :: "nat \<Rightarrow> nat \<Rightarrow> string" where
  "be_bytes k n = map (\<lambda>i. of_byte (n div 256 ^ (k - 1 - i) mod 256)) [0..<k]"

definition std_P0 :: "32 word \<Rightarrow> 32 word" where "std_P0 x = x XOR word_rotl 9 x XOR word_rotl 17 x"
definition std_P1 :: "32 word \<Rightarrow> 32 word" where "std_P1 x = x XOR word_rotl 15 x XOR word_rotl 23 x"

function std_W :: "(nat \<Rightarrow> 32 word) \<Rightarrow> nat \<Rightarrow> 32 word" where
  "std_W B j = (if j < 16 then B j
     else std_P1 (std_W B (j - 16) XOR std_W B (j - 9) XOR word_rotl 15 (std_W B (j - 3))) XOR
       word_rotl 7 (std_W B (j - 13)) XOR std_W B (j - 6))"
  by pat_completeness auto
termination by (relation "measure snd") auto

declare std_W.simps [simp del]

definition std_T :: "nat \<Rightarrow> 32 word" where
  "std_T j = (if j < 16 then 0x79CC4519 else 0x7A879D8A)"

definition std_FF :: "nat \<Rightarrow> 32 word \<Rightarrow> 32 word \<Rightarrow> 32 word \<Rightarrow> 32 word" where
  "std_FF j x y z = (if j < 16 then x XOR y XOR z else (x AND y) OR (x AND z) OR (y AND z))"

definition std_GG :: "nat \<Rightarrow> 32 word \<Rightarrow> 32 word \<Rightarrow> 32 word \<Rightarrow> 32 word" where
  "std_GG j x y z = (if j < 16 then x XOR y XOR z else (x AND y) OR (NOT x AND z))"

definition std_round :: "(nat \<Rightarrow> 32 word) \<Rightarrow> nat \<Rightarrow> regs \<Rightarrow> regs" where
  "std_round W j r =
     (case r of (A, B, C, D, E, F, G, H) \<Rightarrow>
      let SS1 = word_rotl 7 (word_rotl 12 A + E + word_rotl (j mod 32) (std_T j));
          SS2 = SS1 XOR word_rotl 12 A;
          TT1 = std_FF j A B C + D + SS2 + (W j XOR W (j + 4));
          TT2 = std_GG j E F G + H + SS1 + W j
      in (TT1, A, word_rotl 9 B, C, std_P0 TT2, E, word_rotl 19 F, G))"

definition xor_regs :: "regs \<Rightarrow> regs \<Rightarrow> regs" where
  "xor_regs r s = (case r of (A, B, C, D, E, F, G, H) \<Rightarrow> case s of (A', B', C', D', E', F', G', H') \<Rightarrow>
     (A XOR A', B XOR B', C XOR C', D XOR D', E XOR E', F XOR F', G XOR G', H XOR H'))"

definition std_compress :: "regs \<Rightarrow> string \<Rightarrow> regs" where
  "std_compress V block = xor_regs V (fold (std_round (std_W (\<lambda>i. GET_ULONG_BE block (4 * i)))) [0..<64] V)"

definition std_IV :: regs where
  "std_IV = (0x7380166F, 0x4914B2B9, 0x172442D7, 0xDA8A0600, 0xA96F30BC, 0x163138AA, 0xE38DEE4D, 0xB0FB0E4E)"

text \<open>One bit, zeros up to 56 modulo 64, and the length in bits.\<close>

definition std_pad :: "string \<Rightarrow> string" where
  "std_pad m = of_byte 0x80 # replicate ((119 - length m mod 64) mod 64) (of_byte 0) @ be_bytes 8 (8 * length m)"

definition regs_bytes :: "regs \<Rightarrow> string" where
  "regs_bytes r = (case r of (A, B, C, D, E, F, G, H) \<Rightarrow>
     concat (map (\<lambda>x. be_bytes 4 (unat x)) [A, B, C, D, E, F, G, H]))"

definition sm3_spec :: "string \<Rightarrow> string" where
  "sm3_spec m = regs_bytes (chain std_compress std_IV (m @ std_pad m))"

section \<open>The code computes the standard's function\<close>

lemma ROTL_word_rotl: "0 \<le> n \<Longrightarrow> ROTL x n = word_rotl (nat n mod 32) x"
proof -
  assume n: "0 \<le> n"
  define k where "k = nat n mod 32"
  have k: "k < 32" by (simp add: k_def)
  have c1: "nat (n mod 32) = k" using n by (simp add: k_def nat_mod_distrib)
  have c2: "nat ((32 - n) mod 32) = (32 - k) mod 32"
  proof -
    have "(32 - n) mod 32 = (32 - int k) mod 32" using n by (simp add: k_def zmod_int mod_minus_eq)
    also have "\<dots> = int ((32 - k) mod 32)" using k by (cases "k = 0") (simp_all add: of_nat_diff zmod_zminus1_eq_if)
    finally show ?thesis by simp
  qed
  have "(0xFFFFFFFF :: 32 word) = - 1" by simp
  then have mask: "x AND 0xFFFFFFFF = x" by (metis and.right_neutral)
  show ?thesis
    unfolding ROTL_def shl32_def shr32_def c1 c2 mask k_def [symmetric]
  proof (rule bit_word_eqI)
    fix i assume "i < LENGTH(32)"
    then have i: "i < 32" by simp
    have out: "\<not> bit x (i + 32 - k)" if "k \<le> i" using that bit_imp_le_length [of x "i + 32 - k"] by auto
    have rot: "(i + 32 - k) mod 32 = (if k \<le> i then i - k else i + 32 - k)" using i k by (simp add: mod_if)
    show "bit (push_bit k x OR drop_bit ((32 - k) mod 32) x) i = bit (word_rotl k x) i"
    proof (cases "k = 0")
      case False
      then have "(32 - k) mod 32 = 32 - k" by simp
      moreover have "bit (word_rotl k x) i = bit x (if k \<le> i then i - k else i + 32 - k)"
        using bit_word_rotl_iff [of k x i] i k rot by simp
      moreover have "32 - k + i = i + 32 - k" using k by simp
      ultimately show ?thesis
        using i out by (auto simp: bit_or_iff bit_push_bit_iff bit_drop_bit_eq)
    qed (use i in \<open>simp add: bit_simps\<close>)
  qed
qed

lemma std_P: "P0 = std_P0" "P1 = std_P1"
  by (simp_all add: fun_eq_iff P0_def P1_def std_P0_def std_P1_def ROTL_word_rotl)

lemma length_expand [simp]: "length (expand n W) = length W + n"
  by (induction n arbitrary: W) (simp_all add: Let_def)

lemma expand_std_W:
  "16 \<le> length W \<Longrightarrow> \<forall>i < length W. W ! i = std_W B i \<Longrightarrow> i < length W + n \<Longrightarrow> expand n W ! i = std_W B i"
proof (induction n arbitrary: W)
  case (Suc n)
  let ?j = "length W"
  let ?w = "std_P1 (W ! (?j - 16) XOR W ! (?j - 9) XOR word_rotl 15 (W ! (?j - 3))) XOR (word_rotl 7 (W ! (?j - 13)) XOR W ! (?j - 6))"
  have w: "?w = std_W B ?j"
    using Suc.prems(1,2) by (subst std_W.simps) (simp add: xor.assoc)
  have "\<forall>i < length (W @ [?w]). (W @ [?w]) ! i = std_W B i"
    using Suc.prems(2) w by (auto simp: nth_append less_Suc_eq)
  moreover have "expand (Suc n) W = expand n (W @ [?w])"
    by (simp only: expand.simps Let_def std_P xor.assoc) (simp add: ROTL_word_rotl)
  ultimately show ?case
    using Suc.prems Suc.IH [of "W @ [?w]"] by simp
qed simp

lemma round_std:
  assumes "\<forall>i < 68. W ! i = V i" and "j < 64"
  shows "j < 16 \<Longrightarrow> sm3_round FF0 GG0 sm3_T W (map (\<lambda>j. W ! j XOR W ! (j + 4)) [0..<64]) j r = std_round V j r"
    and "16 \<le> j \<Longrightarrow> sm3_round FF1 GG1 sm3_T W (map (\<lambda>j. W ! j XOR W ! (j + 4)) [0..<64]) j r = std_round V j r"
proof -
  have T: "sm3_T ! j = std_T j" using assms(2) by (simp add: sm3_T_def std_T_def nth_append)
  have W: "map (\<lambda>j. W ! j XOR W ! (j + 4)) [0..<64] ! j = V j XOR V (j + 4)" "W ! j = V j"
    using assms by simp_all
  show "j < 16 \<Longrightarrow> sm3_round FF0 GG0 sm3_T W (map (\<lambda>j. W ! j XOR W ! (j + 4)) [0..<64]) j r = std_round V j r"
    by (cases r) (simp add: sm3_round_def std_round_def T W std_P ROTL_word_rotl std_FF_def std_GG_def FF0_def GG0_def Let_def)
  show "16 \<le> j \<Longrightarrow> sm3_round FF1 GG1 sm3_T W (map (\<lambda>j. W ! j XOR W ! (j + 4)) [0..<64]) j r = std_round V j r"
    by (cases r) (simp add: sm3_round_def std_round_def T W std_P ROTL_word_rotl std_FF_def std_GG_def FF1_def GG1_def Let_def)
qed

definition regs_of :: "sm3_context \<Rightarrow> regs" where
  "regs_of ctx = (ucast (state ctx ! 0), ucast (state ctx ! 1), ucast (state ctx ! 2), ucast (state ctx ! 3),
     ucast (state ctx ! 4), ucast (state ctx ! 5), ucast (state ctx ! 6), ucast (state ctx ! 7))"

lemma process_std:
  assumes "length (state ctx) = 8"
  shows "regs_of (sm3_process ctx data) = std_compress (regs_of ctx) data"
    and "length (state (sm3_process ctx data)) = 8"
    and "sm3_process ctx data = ctx\<lparr>state := state (sm3_process ctx data)\<rparr>"
proof -
  define B where "B = (\<lambda>i. GET_ULONG_BE data (4 * i))"
  define W where "W = expand 52 (map B [0..<16])"
  have "\<forall>i < 16. map B [0..<16] ! i = std_W B i" by (simp add: std_W.simps)
  then have W: "\<forall>i < 68. W ! i = std_W B i"
    using expand_std_W [of "map B [0..<16]" B _ 52] by (simp add: W_def)
  let ?W1 = "map (\<lambda>j. W ! j XOR W ! (j + 4)) [0..<64]"
  define r where "r = fold (sm3_round FF1 GG1 sm3_T W ?W1) [16..<64] (fold (sm3_round FF0 GG0 sm3_T W ?W1) [0..<16] (regs_of ctx))"
  have "fold (sm3_round FF0 GG0 sm3_T W ?W1) [0..<16] x = fold (std_round (std_W B)) [0..<16] x"
    "fold (sm3_round FF1 GG1 sm3_T W ?W1) [16..<64] x = fold (std_round (std_W B)) [16..<64] x" for x
    by (rule fold_cong [OF refl refl], rule ext, rule round_std [OF W];
      simp only: set_upt atLeastLessThan_iff; simp)+
  moreover have "[0..<64] = [0..<16] @ [16..<64]" using upt_add_eq_append [of 0 16 48] by simp
  ultimately have r: "r = fold (std_round (std_W B)) [0..<64] (regs_of ctx)" by (simp add: r_def)
  obtain A B' C D E F G H where regs: "r = (A, B', C, D, E, F, G, H)" by (metis prod.exhaust)
  have run: "sm3_process ctx data =
      ctx\<lparr>state := map2 (\<lambda>x y. x XOR ucast y) (state ctx) [A, B', C, D, E, F, G, H]\<rparr>"
    using regs unfolding sm3_process_def Let_def r_def W_def B_def regs_of_def by simp
  then show "length (state (sm3_process ctx data)) = 8"
    and "sm3_process ctx data = ctx\<lparr>state := state (sm3_process ctx data)\<rparr>"
    using assms by simp_all
  have cast: "(ucast (x XOR ucast y :: 64 word) :: 32 word) = ucast x XOR y" for x y
    by (rule bit_word_eqI) (auto simp: bit_simps)
  have "regs_of (sm3_process ctx data) = xor_regs (regs_of ctx) r"
    unfolding run regs regs_of_def xor_regs_def using assms by (simp add: cast)
  then show "regs_of (sm3_process ctx data) = std_compress (regs_of ctx) data"
    by (simp add: r std_compress_def B_def)
qed

lemma blocks_std:
  assumes "length (state ctx) = 8"
  shows "\<exists>c. sm3_blocks ctx x = (c, tail_block x) \<and> regs_of c = chain std_compress (regs_of ctx) x \<and>
    length (state c) = 8 \<and> c = ctx\<lparr>state := state c\<rparr>"
  using assms
proof (induction x arbitrary: ctx rule: block_induct)
  case (short m)
  then show ?case by (subst sm3_blocks.simps) simp
next
  case (block b m)
  let ?c = "sm3_process ctx b"
  note p = process_std [OF block.prems, of b]
  obtain c where c: "sm3_blocks ?c m = (c, tail_block m)" "regs_of c = chain std_compress (regs_of ?c) m"
    "length (state c) = 8" "c = ?c\<lparr>state := state c\<rparr>"
    using block.IH [OF p(2)] by blast
  have "c = ctx\<lparr>state := state c\<rparr>" using c(4) p(3) by (metis sm3_context.surjective sm3_context.update_convs(3))
  moreover have "sm3_blocks ctx (b @ m) = sm3_blocks ?c m" using block.hyps by (subst sm3_blocks.simps) simp
  ultimately show ?case using c p(1) block.hyps by (simp add: chain_block tail_block_block)
qed

section \<open>Updates\<close>

definition sm3_absorbed :: "sm3_context \<Rightarrow> string \<Rightarrow> bool" where
  "sm3_absorbed ctx m \<longleftrightarrow>
     length (state ctx) = 8 \<and> regs_of ctx = chain std_compress std_IV m \<and>
     total0 ctx = of_nat (length m mod 2 ^ 32) \<and> total1 ctx = of_nat (length m div 2 ^ 32) \<and>
     length (buffer ctx) = 64 \<and> take (length m mod 64) (buffer ctx) = tail_block m"

lemma absorbed_starts: "length (buffer ctx) = 64 \<Longrightarrow> sm3_absorbed (sm3_starts ctx) []"
  by (simp add: sm3_absorbed_def sm3_starts_def regs_of_def std_IV_def)

text \<open>The counters: the number of bytes modulo \<open>2 ^ 32\<close> and the carries.\<close>

lemma counter_left: "unat ((of_nat (n mod 2 ^ 32) :: 64 word) AND 0x3F) = n mod 64"
proof -
  have "(of_nat (n mod 2 ^ 32) :: 64 word) AND 0x3F = take_bit 6 (of_nat (n mod 2 ^ 32))"
    by (simp add: take_bit_eq_mask mask_eq_exp_minus_1)
  also have "unat \<dots> = (n mod 2 ^ 32) mod 64"
    by (simp add: unsigned_take_bit_eq unat_of_nat take_bit_eq_mod [where 'a = nat])
  finally show ?thesis by (simp add: mod_mod_cancel)
qed

lemma counter_sum:
  assumes "k < 2 ^ 31"
  shows "((of_nat (n mod 2 ^ 32) :: 64 word) + of_nat k) AND 0xFFFFFFFF = of_nat ((n + k) mod 2 ^ 32)"
    and "(of_nat ((n + k) mod 2 ^ 32) :: 64 word) < of_nat k \<longleftrightarrow> (n + k) div 2 ^ 32 = Suc (n div 2 ^ 32)"
    and "\<not> (of_nat ((n + k) mod 2 ^ 32) :: 64 word) < of_nat k \<longleftrightarrow> (n + k) div 2 ^ 32 = n div 2 ^ 32"
proof -
  define a where "a = n mod 2 ^ 32"
  have a: "a < 2 ^ 32" by (simp add: a_def)
  have "(of_nat (a + k) :: 64 word) AND 0xFFFFFFFF = take_bit 32 (of_nat (a + k))"
    by (simp add: take_bit_eq_mask mask_eq_exp_minus_1)
  also have "\<dots> = of_nat ((a + k) mod 2 ^ 32)" by (simp only: take_bit_of_nat take_bit_eq_mod [where 'a = nat])
  also have "(a + k) mod 2 ^ 32 = (n + k) mod 2 ^ 32" by (simp add: a_def mod_add_left_eq)
  finally show "((of_nat (n mod 2 ^ 32) :: 64 word) + of_nat k) AND 0xFFFFFFFF = of_nat ((n + k) mod 2 ^ 32)"
    by (simp add: a_def)
  have div: "(n + k) div 2 ^ 32 = n div 2 ^ 32 + (a + k) div 2 ^ 32"
    using assms by (simp add: a_def div_add1_eq [of n k])
  have mod: "(n + k) mod 2 ^ 32 = (a + k) mod 2 ^ 32" by (simp add: a_def mod_add_left_eq)
  have less: "(of_nat ((n + k) mod 2 ^ 32) :: 64 word) < of_nat k \<longleftrightarrow> (a + k) mod 2 ^ 32 < k"
    unfolding mod using assms by (subst word_of_nat_less_iff) (simp add: take_bit_eq_mod)
  have carry: "(a + k) mod 2 ^ 32 < k \<longleftrightarrow> 2 ^ 32 \<le> a + k" and quot: "(a + k) div 2 ^ 32 = (if 2 ^ 32 \<le> a + k then 1 else 0)"
    using a assms by (auto simp: mod_if div_if)
  show "(of_nat ((n + k) mod 2 ^ 32) :: 64 word) < of_nat k \<longleftrightarrow> (n + k) div 2 ^ 32 = Suc (n div 2 ^ 32)"
    "\<not> (of_nat ((n + k) mod 2 ^ 32) :: 64 word) < of_nat k \<longleftrightarrow> (n + k) div 2 ^ 32 = n div 2 ^ 32"
    unfolding less carry div quot by auto
qed

text \<open>The middle of an update: the buffer is completed to a block and processed if there is enough
  data; what then is in the buffer and what is still to come make up the new tail.\<close>

lemma update_fill:
  assumes ab: "sm3_absorbed ctx m" and ctx': "state ctx' = state ctx" "buffer ctx' = buffer ctx"
    and left: "left = length m mod 64"
    and run: "sm3_fill left ctx' x = (c, y, l)"
  shows "chain std_compress (regs_of c) y = chain std_compress std_IV (m @ x)"
    and "take l (buffer c) @ tail_block y = tail_block (m @ x)"
    and "length (state c) = 8" and "length (buffer c) = 64" and "l + length (tail_block y) \<le> 64" and "l \<le> 64"
    and "c = ctx'\<lparr>state := state c, buffer := buffer c\<rparr>"
proof -
  have base: "length (state ctx) = 8" "regs_of ctx' = chain std_compress std_IV m" "length (buffer ctx) = 64"
    "take left (buffer ctx) = tail_block m" and lt: "left < 64"
    using ab ctx' left by (simp_all add: sm3_absorbed_def regs_of_def)
  have "chain std_compress (regs_of c) y = chain std_compress std_IV (m @ x) \<and>
     take l (buffer c) @ tail_block y = tail_block (m @ x) \<and> length (state c) = 8 \<and> length (buffer c) = 64 \<and>
     l + length (tail_block y) \<le> 64 \<and> l \<le> 64 \<and> c = ctx'\<lparr>state := state c, buffer := buffer c\<rparr>"
  proof (cases "left \<noteq> 0 \<and> length x \<ge> 64 - left")
    case True
    let ?b = "tail_block m @ take (64 - left) x"
    have copy: "copy_to left (take (64 - left) x) (buffer ctx') = ?b"
      using True lt base ctx'(2) by (simp add: copy_to_def)
    have b: "length ?b = 64" "tail_block m @ x = ?b @ drop (64 - left) x" using True lt left by simp_all
    let ?c = "ctx'\<lparr>buffer := ?b\<rparr>"
    have c: "c = sm3_process ?c ?b" "y = drop (64 - left) x" "l = 0"
      using run True by (simp_all add: copy Let_def sm3_fill_def)
    have st: "length (state ?c) = 8" "regs_of ?c = chain std_compress std_IV m"
      using base ctx' by (simp_all add: regs_of_def)
    note p = process_std [OF st(1), of ?b]
    have buf: "buffer c = ?b" "c = ctx'\<lparr>state := state c, buffer := buffer c\<rparr>"
      using p(3) c(1) by (metis sm3_context.select_convs(4) sm3_context.surjective sm3_context.update_convs(3,4))+
    show ?thesis
      using p(1,2) st c buf b
      by (simp add: chain_append [of _ _ m x] tail_block_append [of m x] chain_block tail_block_block
          del: append_assoc)
  next
    case False
    have tail: "tail_block m = []" if "left = 0" using that left by (metis length_0_conv length_tail_block)
    have c: "c = ctx'" "y = x" "l = left" using run False by (auto simp: sm3_fill_def Let_def)
    have short: "left = 0 \<or> length (tail_block m @ x) < 64" using False left by auto
    show ?thesis
    proof (cases "left = 0")
      case True
      then show ?thesis using c base ctx' tail
        by (simp add: chain_append [of _ _ m x] tail_block_append [of m x])
    next
      case nonzero: False
      then have "length (tail_block m @ x) < 64" "length x < 64" using short by auto
      then show ?thesis using c base ctx' lt left
        by (simp add: chain_append [of _ _ m x] tail_block_append [of m x])
    qed
  qed
  then show "chain std_compress (regs_of c) y = chain std_compress std_IV (m @ x)"
    "take l (buffer c) @ tail_block y = tail_block (m @ x)" "length (state c) = 8" "length (buffer c) = 64"
    "l + length (tail_block y) \<le> 64" "l \<le> 64" "c = ctx'\<lparr>state := state c, buffer := buffer c\<rparr>"
    by blast+
qed

lemma absorbed_update:
  assumes ab: "sm3_absorbed ctx m" and len: "length x < 2 ^ 31"
  shows "sm3_absorbed (sm3_update ctx (x @ rest) (int (length x))) (m @ x) \<and>
    ipad (sm3_update ctx (x @ rest) (int (length x))) = ipad ctx \<and> opad (sm3_update ctx (x @ rest) (int (length x))) = opad ctx"
proof (cases "x = []")
  case True
  then show ?thesis using ab by (simp add: sm3_update_def)
next
  case False
  define left where "left = length m mod 64"
  define t0 :: "64 word" where "t0 = of_nat (length (m @ x) mod 2 ^ 32)"
  define ctx' where "ctx' = ctx\<lparr>total0 := t0, total1 := of_nat (length (m @ x) div 2 ^ 32)\<rparr>"
  obtain c y l where cyl: "sm3_fill left ctx' x = (c, y, l)" by (metis prod.exhaust)
  have ctx'_eq: "state ctx' = state ctx" "buffer ctx' = buffer ctx" by (simp_all add: ctx'_def)
  note fill = update_fill [OF ab ctx'_eq left_def cyl]
  obtain d where d: "sm3_blocks c y = (d, tail_block y)" "regs_of d = chain std_compress (regs_of c) y"
    "length (state d) = 8" "d = c\<lparr>state := state d\<rparr>"
    using blocks_std [OF fill(3)] by blast
  have d_eq: "d = ctx'\<lparr>state := state d, buffer := buffer c\<rparr>"
    using d(4) fill(7) by (metis sm3_context.surjective sm3_context.update_convs(3,4))
  have count: "unat (total0 ctx AND 0x3F) = left" "total0 ctx + of_nat (length x) AND 0xFFFFFFFF = t0"
    "(if t0 < of_nat (length x) then total1 ctx + 1 else total1 ctx) = of_nat (length (m @ x) div 2 ^ 32)"
    using ab counter_left [of "length m"] counter_sum [OF len, of "length m"]
    by (auto simp: sm3_absorbed_def left_def t0_def)
  have run: "sm3_update ctx (x @ rest) (int (length x)) =
      (if tail_block y \<noteq> [] then d\<lparr>buffer := copy_to l (tail_block y) (buffer d)\<rparr> else d)"
    using False cyl [unfolded ctx'_def] d(1) by (simp add: sm3_update_def Let_def count)
  have bufd: "buffer d = buffer c" using d(4) by (metis sm3_context.select_convs(4) sm3_context.surjective sm3_context.update_convs(3))
  have n: "length (m @ x) mod 64 = l + length (tail_block y)"
    using fill(2,4,6) by (metis length_append length_tail_block length_take min_absorb2)
  let ?e = "if tail_block y \<noteq> [] then d\<lparr>buffer := copy_to l (tail_block y) (buffer d)\<rparr> else d"
  have "total0 d = t0" "total1 d = of_nat (length (m @ x) div 2 ^ 32)" "ipad d = ipad ctx" "opad d = opad ctx"
    by (subst d_eq, simp add: ctx'_def)+
  then have tot: "total0 ?e = t0" "total1 ?e = of_nat (length (m @ x) div 2 ^ 32)" "ipad ?e = ipad ctx" "opad ?e = opad ctx"
    by (cases "tail_block y = []"; simp)+
  have "take (l + length (tail_block y)) (buffer ?e) = take l (buffer c) @ tail_block y" "length (buffer ?e) = 64"
    using fill(4,5) bufd take_copy_to [of l "tail_block y" "buffer d"] by (auto simp del: length_tail_block)
  moreover have "regs_of ?e = chain std_compress std_IV (m @ x)" "length (state ?e) = 8"
    using d(2,3) fill(1) by (simp_all add: regs_of_def)
  ultimately show ?thesis
    unfolding run sm3_absorbed_def using n fill(2) tot by (simp only: t0_def)
qed

section \<open>The final step\<close>

lemma be_bytes_4: "be_bytes 4 n = [of_byte (n div 2 ^ 24 mod 256), of_byte (n div 2 ^ 16 mod 256),
    of_byte (n div 2 ^ 8 mod 256), of_byte (n mod 256)]"
proof -
  have "[0..<4] = [0, 1, 2, 3 :: nat]" by (simp add: upt_rec)
  then show ?thesis by (simp add: be_bytes_def)
qed

lemma be_bytes_8: "be_bytes 8 n = be_bytes 4 (n div 2 ^ 32) @ be_bytes 4 n"
proof -
  have "[0..<8] = [0, 1, 2, 3, 4, 5, 6, 7 :: nat]" by (simp add: upt_rec)
  then show ?thesis unfolding be_bytes_4 by (simp add: be_bytes_def div_mult2_eq [symmetric])
qed

lemma be_bytes_4_mod: "be_bytes 4 (n mod 2 ^ 32) = be_bytes 4 n"
proof -
  have "n mod 2 ^ 32 div 2 ^ k mod 256 = n div 2 ^ k mod 256" if "k + 8 \<le> 32" for k
  proof -
    have "n mod 2 ^ 32 div 2 ^ k mod 2 ^ 8 = take_bit 8 (drop_bit k (take_bit 32 n))"
      by (simp add: take_bit_eq_mod drop_bit_eq_div)
    also have "\<dots> = take_bit 8 (drop_bit k n)" using that by (simp add: drop_bit_take_bit)
    also have "\<dots> = n div 2 ^ k mod 2 ^ 8" by (simp add: take_bit_eq_mod drop_bit_eq_div)
    finally show ?thesis by simp
  qed
  from this [of 24] this [of 16] this [of 8] this [of 0] show ?thesis by (simp add: be_bytes_4)
qed

lemma uchar_drop: "uchar (drop_bit k w) = of_byte (unat w div 2 ^ k mod 256)"
proof -
  have "unat w < 2 ^ 64" using unsigned_less [of w] by simp
  then show ?thesis
    by (simp add: uchar_def unsigned_take_bit_eq unsigned_drop_bit_eq take_bit_eq_mod [where 'a = nat]
        drop_bit_eq_div [where 'a = nat])
qed

lemma PUT_be_bytes: "PUT_ULONG_BE w = be_bytes 4 (unat w)"
  using uchar_drop [of 24 w] uchar_drop [of 16 w] uchar_drop [of 8 w] uchar_drop [of 0 w]
  by (simp add: PUT_ULONG_BE_def be_bytes_4)

text \<open>The length in bits, from the two counters.\<close>

lemma be_bytes_ucast: "PUT_ULONG_BE (ucast (ucast (of_nat k :: 64 word) :: 32 word)) = be_bytes 4 k"
proof -
  have "unat (ucast (ucast (of_nat k :: 64 word) :: 32 word) :: 64 word) = k mod 2 ^ 32"
    by (simp add: unsigned_ucast_eq unsigned_of_nat take_bit_eq_mod [where 'a = nat] mod_mod_cancel)
  then show ?thesis unfolding PUT_be_bytes by (simp only: be_bytes_4_mod)
qed

lemma length_bytes:
  assumes "t0 = of_nat (n mod 2 ^ 32)" and "t1 = of_nat (n div 2 ^ 32)"
  shows "PUT_ULONG_BE (ucast (ucast (drop_bit 29 t0 OR push_bit 3 t1 :: 64 word) :: 32 word)) @
    PUT_ULONG_BE (ucast (ucast (push_bit 3 t0 :: 64 word) :: 32 word)) = be_bytes 8 (8 * n)"
proof -
  define a q where "a = n mod 2 ^ 32" and "q = n div 2 ^ 32"
  have a: "a < 2 ^ 32" by (simp add: a_def)
  have n: "n = q * 2 ^ 32 + a" by (simp add: a_def q_def)
  have "take_bit 64 a = a" using a by (simp add: take_bit_eq_mod)
  then have drop: "drop_bit 29 t0 = of_nat (a div 2 ^ 29)"
    unfolding assms(1) a_def [symmetric]
    by (simp add: word_eq_iff_unsigned [where ?'a = nat] unsigned_drop_bit_eq unsigned_of_nat
        drop_bit_eq_div [where 'a = nat] take_bit_eq_mod [where 'a = nat] less_imp_le)
  have push: "push_bit 3 (of_nat k :: 64 word) = of_nat (8 * k)" for k
    by (simp add: push_bit_eq_mult)
  have "a div 2 ^ 29 < 8" using a by (simp add: less_mult_imp_div_less)
  then have low3: "take_bit 3 (a div 2 ^ 29) = a div 2 ^ 29" by (simp add: take_bit_eq_mod)
  have "take_bit 3 (a div 2 ^ 29) + push_bit 3 q = take_bit 3 (a div 2 ^ 29) OR push_bit 3 q"
    by (rule disjunctive_add_eq_or) (simp add: bit_eq_iff bit_simps)
  then have or_nat: "a div 2 ^ 29 OR 8 * q = a div 2 ^ 29 + 8 * q"
    by (simp only: low3) (simp add: push_bit_eq_mult mult.commute)
  have high: "drop_bit 29 t0 OR push_bit 3 t1 = of_nat (a div 2 ^ 29 + 8 * q)"
    unfolding drop assms(2) q_def [symmetric] push or_nat [symmetric] by (simp only: of_nat_or_eq)
  have quot: "8 * n div 2 ^ 32 = a div 2 ^ 29 + 8 * q"
  proof -
    have "8 * n = 8 * a + (8 * q) * 2 ^ 32" using n by simp
    then have "8 * n div 2 ^ 32 = 8 * q + 8 * a div 2 ^ 32" by (simp only:) simp
    then show ?thesis using div_mult_mult1 [of 8 a "2 ^ 29"] by simp
  qed
  have low: "be_bytes 4 (8 * a) = be_bytes 4 (8 * n)"
  proof -
    have "8 * a mod 2 ^ 32 = 8 * n mod 2 ^ 32" unfolding a_def by (rule mod_mult_right_eq)
    then show ?thesis by (metis be_bytes_4_mod)
  qed
  have t0: "push_bit 3 t0 = of_nat (8 * a)" unfolding assms(1) a_def [symmetric] push ..
  show ?thesis
    unfolding high t0 be_bytes_ucast be_bytes_8 quot low ..
qed

lemma finish_absorbed:
  assumes ab: "sm3_absorbed ctx m"
  shows "fst (sm3_finish ctx) = sm3_spec m" and "length (buffer (snd (sm3_finish ctx))) = 64"
    and "opad (snd (sm3_finish ctx)) = opad ctx"
proof -
  define r where "r = length m mod 64"
  define padn where "padn = (if r < 56 then 56 - r else 120 - r)"
  define len where "len = be_bytes 8 (8 * length m)"
  have r: "r < 64" by (simp add: r_def)
  have padn: "padn \<le> 64" "0 < padn" "padn = Suc ((119 - r) mod 64)" using r by (auto simp: padn_def mod_if)
  have pad: "take padn sm3_padding = of_byte 0x80 # replicate ((119 - r) mod 64) (of_byte 0)"
    using padn by (simp add: sm3_padding_def)
  let ?c1 = "sm3_update ctx sm3_padding (int padn)"
  let ?c2 = "sm3_update ?c1 len 8"
  have "sm3_padding = take padn sm3_padding @ drop padn sm3_padding" "length (take padn sm3_padding) = padn"
    using padn(1) by (simp_all add: sm3_padding_def)
  then have c1: "sm3_absorbed ?c1 (m @ take padn sm3_padding)" "opad ?c1 = opad ctx"
    using absorbed_update [OF ab, of "take padn sm3_padding" "drop padn sm3_padding"] padn(1) by simp_all
  have len8: "length len = 8" by (simp add: len_def be_bytes_def)
  then have c2: "sm3_absorbed ?c2 ((m @ take padn sm3_padding) @ len)" "opad ?c2 = opad ?c1"
    using absorbed_update [OF c1(1), of len "[]"] by simp_all
  have total: "total0 ctx = of_nat (length m mod 2 ^ 32)" "total1 ctx = of_nat (length m div 2 ^ 32)"
    using ab by (simp_all add: sm3_absorbed_def)
  have last: "unat (total0 ctx AND 0x3F) = r" using counter_left [of "length m"] by (simp add: total r_def)
  have run: "sm3_finish ctx = (concat (map (\<lambda>i. PUT_ULONG_BE (state ?c2 ! i)) [0..<8]), ?c2)"
    unfolding sm3_finish_def Let_def last padn_def [symmetric] length_bytes [OF total] len_def [symmetric] ..
  have padded: "(m @ take padn sm3_padding) @ len = m @ std_pad m"
    by (simp add: std_pad_def pad len_def r_def)
  have out: "PUT_ULONG_BE w = be_bytes 4 (unat (ucast w :: 32 word))" for w
    using be_bytes_4_mod [of "unat w"]
    by (simp add: PUT_be_bytes unsigned_ucast_eq take_bit_eq_mod [where 'a = nat])
  have "[0..<8] = [0, 1, 2, 3, 4, 5, 6, 7 :: nat]" by (simp add: upt_rec)
  then have "concat (map (\<lambda>i. PUT_ULONG_BE (state ?c2 ! i)) [0..<8]) = regs_bytes (regs_of ?c2)"
    by (simp add: regs_bytes_def regs_of_def out)
  then show "fst (sm3_finish ctx) = sm3_spec m" using c2(1) padded by (simp add: run sm3_spec_def sm3_absorbed_def)
  show "length (buffer (snd (sm3_finish ctx))) = 64" using c2(1) by (simp add: run sm3_absorbed_def)
  show "opad (snd (sm3_finish ctx)) = opad ctx" using c1(2) c2(2) by (simp add: run)
qed

section \<open>The interfaces\<close>

text \<open>A piece fits when its length survives the narrowing to \<open>int\<close>.\<close>

definition fits_int :: "string \<Rightarrow> bool" where
  "fits_int x \<longleftrightarrow> int (length x) < 2 ^ 31"

lemma i32_length: "fits_int x \<Longrightarrow> i32 (int (length x)) = int (length x)"
  by (simp add: fits_int_def fits32_def)

lemma absorbed_Update: "sm3_absorbed ctx m \<Longrightarrow> fits_int x \<Longrightarrow> sm3_absorbed (Sm3_Update ctx x) (m @ x)"
  using absorbed_update [of ctx m x "[]"] by (simp add: Sm3_Update_def i32_length) (simp add: fits_int_def)

interpretation Sm3_class: stream_hash "\<lambda>ctx. length (buffer ctx) = 64" Sm3_new Sm3_Update "\<lambda>ctx. fst (Sm3_Final ctx)"
  fits_int sm3_absorbed sm3_spec
  by unfold_locales (simp_all add: Sm3_new_def Sm3_Final_def absorbed_starts absorbed_Update finish_absorbed(1))

lemma sm3_std:
  assumes "length (buffer ctx) = 64" and "length x < 2 ^ 31"
  shows "sm3 ctx (x @ rest) (int (length x)) = sm3_spec x"
  using finish_absorbed(1) [of "sm3_update (sm3_starts ctx) (x @ rest) (int (length x))" x]
    absorbed_update [OF absorbed_starts [OF assms(1)] assms(2)] by (simp add: sm3_def)

lemma length_sm3_spec: "length (sm3_spec m) = 32"
  by (simp add: sm3_spec_def regs_bytes_def be_bytes_def split: prod.splits)

text \<open>HMAC as RFC 2104 has it, on blocks of 64 bytes.\<close>

definition hmac_pad :: "nat \<Rightarrow> string \<Rightarrow> string" where
  "hmac_pad b k = map (\<lambda>c. xor_char (of_byte b) c) (k @ replicate (64 - length k) (of_byte 0))"

definition hmac_spec :: "(string \<Rightarrow> string) \<Rightarrow> string \<Rightarrow> string \<Rightarrow> string" where
  "hmac_spec H key m =
     (let k = (if length key > 64 then H key else key) in
      H (hmac_pad 0x5C k @ H (hmac_pad 0x36 k @ m)))"

lemma xor_char_zero: "b < 256 \<Longrightarrow> xor_char (of_byte b) (of_byte 0) = of_byte b"
  by (simp add: xor_char_def)

lemma hmac_pad_copy:
  "b < 256 \<Longrightarrow> map2 xor_char (replicate (length k) (of_byte b)) k @ replicate (64 - length k) (of_byte b) = hmac_pad b k"
proof -
  have "map2 xor_char (replicate (length k) (of_byte b)) k = map (xor_char (of_byte b)) k"
    by (induction k) simp_all
  then show "b < 256 \<Longrightarrow> ?thesis" by (simp add: hmac_pad_def xor_char_zero)
qed

lemma length_hmac_pad: "length k \<le> 64 \<Longrightarrow> length (hmac_pad b k) = 64"
  by (simp add: hmac_pad_def)

lemma hmac_std:
  assumes mem: "length (buffer scratch) = 64" "length (buffer ctx) = 64"
    and small: "length key < 2 ^ 31" "length m < 2 ^ 31"
  shows "sm3_hmac scratch ctx key (int (length key)) m (int (length m)) = hmac_spec sm3_spec key m"
proof -
  define k where "k = (if length key > 64 then sm3_spec key else key)"
  have k: "length k \<le> 64" by (simp add: k_def length_sm3_spec)
  define c0 where "c0 = ctx\<lparr>ipad := hmac_pad 0x36 k, opad := hmac_pad 0x5C k\<rparr>"
  have len: "length (hmac_pad 0x36 k) = 64" "length (hmac_pad 0x5C k) = 64" using k by (simp_all add: length_hmac_pad)
  have hashed: "sm3 scratch key (int (length key)) = sm3_spec key"
    using sm3_std [OF mem(1) small(1), of "[]"] by simp
  have "sm3_hmac_starts scratch ctx key (int (length key)) = sm3_update (sm3_starts c0) (hmac_pad 0x36 k) 64"
    using hmac_pad_copy [of "0x36" k] hmac_pad_copy [of "0x5C" k]
    by (auto simp: sm3_hmac_starts_def Let_def hashed k_def c0_def length_sm3_spec sm3_starts_def)
  moreover have c0: "sm3_absorbed (sm3_starts c0) []" "opad (sm3_starts c0) = hmac_pad 0x5C k"
    using mem(2) absorbed_starts [of c0] by (simp_all add: c0_def) (simp add: sm3_starts_def)
  moreover note s1 = absorbed_update [OF c0(1), of "hmac_pad 0x36 k" "[]"]
  ultimately have c1: "sm3_absorbed (sm3_hmac_starts scratch ctx key (int (length key))) (hmac_pad 0x36 k)"
    "opad (sm3_hmac_starts scratch ctx key (int (length key))) = hmac_pad 0x5C k"
    using len by simp_all
  define c2 where "c2 = sm3_hmac_update (sm3_hmac_starts scratch ctx key (int (length key))) m (int (length m))"
  have c2: "sm3_absorbed c2 (hmac_pad 0x36 k @ m)" "opad c2 = hmac_pad 0x5C k"
    using absorbed_update [OF c1(1) small(2), of "[]"] c1(2) by (simp_all add: c2_def sm3_hmac_update_def)
  define c3 where "c3 = snd (sm3_finish c2)"
  define inner where "inner = sm3_spec (hmac_pad 0x36 k @ m)"
  note f = finish_absorbed [OF c2(1)]
  have c3: "length (buffer c3) = 64" "opad c3 = hmac_pad 0x5C k" using f c2(2) by (simp_all add: c3_def)
  have fin: "sm3_finish c2 = (inner, c3)" using f(1) by (simp add: c3_def inner_def prod_eq_iff)
  have s3: "sm3_absorbed (sm3_starts c3) []" "opad (sm3_starts c3) = hmac_pad 0x5C k"
    using c3 by (simp_all add: absorbed_starts) (simp add: sm3_starts_def)
  have o: "sm3_absorbed (sm3_update (sm3_starts c3) (hmac_pad 0x5C k) 64) (hmac_pad 0x5C k)"
    using absorbed_update [OF s3(1), of "hmac_pad 0x5C k" "[]"] len by simp
  have "sm3_absorbed (sm3_update (sm3_update (sm3_starts c3) (hmac_pad 0x5C k) 64) inner 32) (hmac_pad 0x5C k @ inner)"
    using absorbed_update [OF o, of inner "[]"] by (simp add: inner_def length_sm3_spec)
  from finish_absorbed(1) [OF this] show ?thesis
    by (simp add: sm3_hmac_def sm3_hmac_finish_def c2_def [symmetric] fin s3(2) Let_def hmac_spec_def k_def [symmetric] inner_def)
qed

lemma file_std:
  assumes "length (buffer ctx) = 64" and "\<forall>p \<in> set pieces. length p \<le> 1024"
  shows "sm3_file ctx (Some (pieces, err)) = (if err then 2 else 0, Some (sm3_spec (concat pieces)))"
proof -
  have "sm3_absorbed c m \<Longrightarrow> sm3_absorbed (foldl (\<lambda>c p. sm3_update c p (int (length p))) c pieces) (m @ concat pieces)" for c m
    using assms(2)
  proof (induction pieces arbitrary: c m)
    case (Cons p pieces)
    then show ?case using absorbed_update [of c m p "[]"] Cons.IH [of _ "m @ p"] by simp
  qed simp
  from this [OF absorbed_starts [OF assms(1)]] show ?thesis by (simp add: sm3_file_def finish_absorbed(1))
qed

section \<open>Properties\<close>

definition blank_context :: sm3_context where
  "blank_context = \<lparr>total0 = 0, total1 = 0, state = [], buffer = replicate 64 (of_byte 0), ipad = [], opad = []\<rparr>"

text \<open>C24: The code computes the hash function of the standard: for every input whose length fits an
  \<open>int\<close>, \<open>Crypto\<close> gives the 32 bytes of \<open>sm3_spec\<close>, whatever was in the memory of the context.\<close>

theorem sm3_computes_the_standard:
  assumes "length (buffer ctx) = 64" and "fits_int input"
  shows "Sm3_Crypto ctx input = sm3_spec input \<and> length (Sm3_Crypto ctx input) = 32"
proof -
  have "length input < 2 ^ 31" using assms(2) by (simp add: fits_int_def)
  from sm3_std [OF assms(1) this, of "[]"] show ?thesis
    by (simp add: sm3_def Sm3_Crypto_def i32_length [OF assms(2)] length_sm3_spec)
qed

theorem sm3_computes_the_standard_witness:
  "Sm3_Crypto blank_context ''abc'' = sm3_spec ''abc''"
  using sm3_computes_the_standard [of blank_context "''abc''"] by (simp add: blank_context_def fits_int_def)

text \<open>C25: How the input is cut into pieces does not matter: updating with the pieces one after the
  other, or reading a file in pieces, gives the hash of the whole.\<close>

theorem sm3_pieces_do_not_matter:
  assumes "length (buffer ctx) = 64" and "\<forall>x \<in> set xs. fits_int x" and "\<forall>y \<in> set ys. length y \<le> 1024"
  shows "fst (Sm3_Final (foldl Sm3_Update (Sm3_new ctx) xs)) = sm3_spec (concat xs) \<and>
    sm3_file ctx (Some (ys, err)) = (if err then 2 else 0, Some (sm3_spec (concat ys)))"
  using Sm3_class.pieces [OF assms(1,2)] file_std [OF assms(1,3)] by blast

theorem sm3_pieces_do_not_matter_witness:
  "fst (Sm3_Final (Sm3_Update (Sm3_Update (Sm3_new blank_context) ''ab'') ''c'')) = sm3_spec ''abc'' \<and>
   sm3_file blank_context (Some ([''ab'', ''c''], False)) = (0, Some (sm3_spec ''abc''))"
  using sm3_pieces_do_not_matter [of blank_context "[''ab'', ''c'']" "[''ab'', ''c'']" False]
  by (simp add: blank_context_def fits_int_def)

text \<open>C26: The keyed hash is HMAC over SM3, also for keys longer than a block.\<close>

theorem sm3_hmac_is_hmac:
  assumes "length (buffer scratch) = 64" "length (buffer ctx) = 64" and "length key < 2 ^ 31" "length m < 2 ^ 31"
  shows "sm3_hmac scratch ctx key (int (length key)) m (int (length m)) = hmac_spec sm3_spec key m"
  by (rule hmac_std [OF assms])

theorem sm3_hmac_is_hmac_witness:
  "sm3_hmac blank_context blank_context ''key'' 3 ''text'' 4 = hmac_spec sm3_spec ''key'' ''text''"
  using sm3_hmac_is_hmac [of blank_context blank_context "''key''" "''text''"] by (simp add: blank_context_def)

text \<open>An update with \<open>2 ^ 31\<close> bytes or more, and less than \<open>2 ^ 32\<close>, is ignored: the length
  becomes negative on its way into \<open>sm3_update\<close>.\<close>

theorem sm3_ignores_huge_updates:
  assumes "2 ^ 31 \<le> int (length x)" and "int (length x) < 2 ^ 32"
  shows "Sm3_Update ctx x = ctx"
proof -
  have "i32 (int (length x)) = int (length x) - 2 ^ 32"
  proof -
    have "(int (length x) + 2 ^ 31) mod 2 ^ 32 = int (length x) + 2 ^ 31 - 2 ^ 32"
      using assms by (simp add: mod_pos_geq mod_pos_pos_trivial)
    then show ?thesis by (simp add: i32_def)
  qed
  then show ?thesis using assms(2) by (simp add: Sm3_Update_def sm3_update_def)
qed

theorem sm3_ignores_huge_updates_witness:
  "Sm3_Update blank_context (replicate 2147483648 (CHR ''a'')) = blank_context"
  by (rule sm3_ignores_huge_updates) simp_all

end
