(* ===== verification/Md5.thy ===== *)
theory Md5
  imports Sm3 Hex_Codec
begin

text \<open>
  The MD5 of \<open>utils/crypto.cpp\<close> (\<open>HAVE_OPENSSL\<close> is defined nowhere in the build, so this
  code is the one in use) with its class. The sixty-four \<open>STEP\<close>s rotate the roles of the four
  registers; a step here works on the register in front and moves the others along. The message
  words are read in little-endian order, as the code does on x86 and as its portable variant
  writes out. \<open>size\<close> is an \<open>unsigned long\<close>.

  \<open>md5_spec\<close> is the function of RFC 1321.
\<close>

section \<open>The block function\<close>

definition md5_F :: "32 word \<Rightarrow> 32 word \<Rightarrow> 32 word \<Rightarrow> 32 word" where "md5_F x y z = z XOR (x AND (y XOR z))"
definition md5_G :: "32 word \<Rightarrow> 32 word \<Rightarrow> 32 word \<Rightarrow> 32 word" where "md5_G x y z = y XOR (z AND (x XOR y))"
definition md5_H :: "32 word \<Rightarrow> 32 word \<Rightarrow> 32 word \<Rightarrow> 32 word" where "md5_H x y z = x XOR y XOR z"
definition md5_I :: "32 word \<Rightarrow> 32 word \<Rightarrow> 32 word \<Rightarrow> 32 word" where "md5_I x y z = y XOR (x OR NOT z)"

type_synonym md5_regs = "32 word \<times> 32 word \<times> 32 word \<times> 32 word"

definition md5_GET :: "string \<Rightarrow> nat \<Rightarrow> 32 word" where
  "md5_GET ptr n = word8 (ptr ! (n * 4)) OR push_bit 8 (word8 (ptr ! (n * 4 + 1))) OR
     push_bit 16 (word8 (ptr ! (n * 4 + 2))) OR push_bit 24 (word8 (ptr ! (n * 4 + 3)))"

text \<open>\<open>STEP(f, a, b, c, d, x, t, s)\<close>, then the register behind \<open>a\<close> in the next step comes to the front.\<close>

definition STEP ::
  "string \<Rightarrow> (32 word \<Rightarrow> 32 word \<Rightarrow> 32 word \<Rightarrow> 32 word) \<times> nat \<times> 32 word \<times> nat \<Rightarrow> md5_regs \<Rightarrow> md5_regs" where
  "STEP ptr step r =
     (case step of (f, n, t, s) \<Rightarrow> case r of (a, b, c, d) \<Rightarrow>
      let a = a + (f b c d + md5_GET ptr n + t);
          a = push_bit s a OR drop_bit (32 - s) (a AND 0xffffffff);
          a = a + b
      in (d, a, b, c))"

definition md5_steps :: "((32 word \<Rightarrow> 32 word \<Rightarrow> 32 word \<Rightarrow> 32 word) \<times> nat \<times> 32 word \<times> nat) list" where
  "md5_steps = [
      (md5_F, 0, 0xd76aa478, 7), (md5_F, 1, 0xe8c7b756, 12),
      (md5_F, 2, 0x242070db, 17), (md5_F, 3, 0xc1bdceee, 22),
      (md5_F, 4, 0xf57c0faf, 7), (md5_F, 5, 0x4787c62a, 12),
      (md5_F, 6, 0xa8304613, 17), (md5_F, 7, 0xfd469501, 22),
      (md5_F, 8, 0x698098d8, 7), (md5_F, 9, 0x8b44f7af, 12),
      (md5_F, 10, 0xffff5bb1, 17), (md5_F, 11, 0x895cd7be, 22),
      (md5_F, 12, 0x6b901122, 7), (md5_F, 13, 0xfd987193, 12),
      (md5_F, 14, 0xa679438e, 17), (md5_F, 15, 0x49b40821, 22),
      (md5_G, 1, 0xf61e2562, 5), (md5_G, 6, 0xc040b340, 9),
      (md5_G, 11, 0x265e5a51, 14), (md5_G, 0, 0xe9b6c7aa, 20),
      (md5_G, 5, 0xd62f105d, 5), (md5_G, 10, 0x02441453, 9),
      (md5_G, 15, 0xd8a1e681, 14), (md5_G, 4, 0xe7d3fbc8, 20),
      (md5_G, 9, 0x21e1cde6, 5), (md5_G, 14, 0xc33707d6, 9),
      (md5_G, 3, 0xf4d50d87, 14), (md5_G, 8, 0x455a14ed, 20),
      (md5_G, 13, 0xa9e3e905, 5), (md5_G, 2, 0xfcefa3f8, 9),
      (md5_G, 7, 0x676f02d9, 14), (md5_G, 12, 0x8d2a4c8a, 20),
      (md5_H, 5, 0xfffa3942, 4), (md5_H, 8, 0x8771f681, 11),
      (md5_H, 11, 0x6d9d6122, 16), (md5_H, 14, 0xfde5380c, 23),
      (md5_H, 1, 0xa4beea44, 4), (md5_H, 4, 0x4bdecfa9, 11),
      (md5_H, 7, 0xf6bb4b60, 16), (md5_H, 10, 0xbebfbc70, 23),
      (md5_H, 13, 0x289b7ec6, 4), (md5_H, 0, 0xeaa127fa, 11),
      (md5_H, 3, 0xd4ef3085, 16), (md5_H, 6, 0x04881d05, 23),
      (md5_H, 9, 0xd9d4d039, 4), (md5_H, 12, 0xe6db99e5, 11),
      (md5_H, 15, 0x1fa27cf8, 16), (md5_H, 2, 0xc4ac5665, 23),
      (md5_I, 0, 0xf4292244, 6), (md5_I, 7, 0x432aff97, 10),
      (md5_I, 14, 0xab9423a7, 15), (md5_I, 5, 0xfc93a039, 21),
      (md5_I, 12, 0x655b59c3, 6), (md5_I, 3, 0x8f0ccc92, 10),
      (md5_I, 10, 0xffeff47d, 15), (md5_I, 1, 0x85845dd1, 21),
      (md5_I, 8, 0x6fa87e4f, 6), (md5_I, 15, 0xfe2ce6e0, 10),
      (md5_I, 6, 0xa3014314, 15), (md5_I, 13, 0x4e0811a1, 21),
      (md5_I, 4, 0xf7537e82, 6), (md5_I, 11, 0xbd3af235, 10),
      (md5_I, 2, 0x2ad7d2bb, 15), (md5_I, 9, 0xeb86d391, 21)]"

definition add_regs :: "md5_regs \<Rightarrow> md5_regs \<Rightarrow> md5_regs" where
  "add_regs r s = (case r of (a, b, c, d) \<Rightarrow> case s of (a', b', c', d') \<Rightarrow> (a + a', b + b', c + c', d + d'))"

definition md5_block :: "md5_regs \<Rightarrow> string \<Rightarrow> md5_regs" where
  "md5_block r ptr = add_regs (fold (STEP ptr) md5_steps r) r"

section \<open>The context\<close>

record MD5_CTX =
  ctx_lo :: "32 word"
  ctx_hi :: "32 word"
  ctx_regs :: md5_regs
  ctx_buffer :: string

text \<open>\<open>do ... while (size -= 64)\<close> over a size that is a positive multiple of 64.\<close>

definition md5_body :: "MD5_CTX \<Rightarrow> string \<Rightarrow> MD5_CTX" where
  "md5_body ctx data = ctx\<lparr>ctx_regs := chain md5_block (ctx_regs ctx) data\<rparr>"

definition MD5_Init :: "MD5_CTX \<Rightarrow> MD5_CTX" where
  "MD5_Init ctx = ctx\<lparr>ctx_regs := (0x67452301, 0xefcdab89, 0x98badcfe, 0x10325476), ctx_lo := 0, ctx_hi := 0\<rparr>"

definition md5_whole :: "MD5_CTX \<Rightarrow> string \<Rightarrow> MD5_CTX" where
  "md5_whole ctx data =
     (let size = length data;
          (ctx, data) = (if size \<ge> 64 then (md5_body ctx (take (64 * (size div 64)) data), drop (64 * (size div 64)) data)
                         else (ctx, data))
      in ctx\<lparr>ctx_buffer := copy_to 0 data (ctx_buffer ctx)\<rparr>)"

definition MD5_Update :: "MD5_CTX \<Rightarrow> string \<Rightarrow> MD5_CTX" where
  "MD5_Update ctx data =
     (let size = (of_nat (length data) :: 64 word);
          saved_lo = ctx_lo ctx;
          lo = (ucast ((ucast saved_lo + size) AND 0x1fffffff) :: 32 word);
          hi = (if lo < saved_lo then ctx_hi ctx + 1 else ctx_hi ctx) + ucast (drop_bit 29 size);
          ctx = ctx\<lparr>ctx_lo := lo, ctx_hi := hi\<rparr>;
          used = unat (saved_lo AND 0x3f)
      in if used \<noteq> 0 then
           (let free = 64 - used in
            if length data < free then ctx\<lparr>ctx_buffer := copy_to used data (ctx_buffer ctx)\<rparr>
            else (let ctx = ctx\<lparr>ctx_buffer := copy_to used (take free data) (ctx_buffer ctx)\<rparr>;
                      ctx = md5_body ctx (ctx_buffer ctx)
                  in md5_whole ctx (drop free data)))
         else md5_whole ctx data)"

definition le_bytes :: "32 word \<Rightarrow> string" where
  "le_bytes w = [uchar (ucast w), uchar (ucast (drop_bit 8 w)), uchar (ucast (drop_bit 16 w)), uchar (ucast (drop_bit 24 w))]"

definition MD5_Final :: "MD5_CTX \<Rightarrow> string" where
  "MD5_Final ctx =
     (let used = unat (ctx_lo ctx AND 0x3f);
          buf = (ctx_buffer ctx)[used := of_byte 0x80];
          used = used + 1;
          free = 64 - used;
          (regs, buf, used, free) =
            (if free < 8 then
               (let buf = copy_to used (replicate free (of_byte 0)) buf
                in (chain md5_block (ctx_regs ctx) buf, buf, 0, 64))
             else (ctx_regs ctx, buf, used, free));
          buf = copy_to used (replicate (free - 8) (of_byte 0)) buf;
          buf = copy_to 56 (le_bytes (push_bit 3 (ctx_lo ctx)) @ le_bytes (ctx_hi ctx)) buf;
          (a, b, c, d) = chain md5_block regs buf
      in le_bytes a @ le_bytes b @ le_bytes c @ le_bytes d)"

section \<open>The class\<close>

definition md5bin :: "MD5_CTX \<Rightarrow> string \<Rightarrow> string" where
  "md5bin c dat = MD5_Final (MD5_Update (MD5_Init c) dat)"

definition hb2hex :: "nat \<Rightarrow> char" where
  "hb2hex hb = (let hb = hb mod 16 in if hb < 10 then of_byte (48 + hb) else of_byte (hb - 10 + 97))"

definition md5_hex :: "string \<Rightarrow> string" where
  "md5_hex out = concat (map (\<lambda>c. [hb2hex (byte c div 16), hb2hex (byte c)]) out)"

definition GenerateMD5ToHex :: "MD5_CTX \<Rightarrow> string \<Rightarrow> string" where
  "GenerateMD5ToHex c dat = md5_hex (md5bin c dat)"

definition GenerateMD5ToBin :: "MD5_CTX \<Rightarrow> string \<Rightarrow> string" where
  "GenerateMD5ToBin c dat = md5bin c dat"

text \<open>A file that cannot be opened is \<open>None\<close>; an open one is the pieces \<open>fread\<close> delivers.\<close>

definition GenerateMd5File :: "MD5_CTX \<Rightarrow> string list option \<Rightarrow> string" where
  "GenerateMd5File c f =
     (case f of None \<Rightarrow> [] | Some pieces \<Rightarrow> md5_hex (MD5_Final (foldl MD5_Update (MD5_Init c) pieces)))"

definition sum6_tbl :: string where
  "sum6_tbl = ''0123456789abcdefghijklmnopqrstuvwxyzABCDEFGHIJKLMNOPQRSTUVWXYZ''"

definition GenerateMD5Sum6 :: "MD5_CTX \<Rightarrow> string \<Rightarrow> string" where
  "GenerateMD5Sum6 c dat = map (\<lambda>i. sum6_tbl ! (byte (md5bin c dat ! i) mod 62)) [0..<6]"

section \<open>RFC 1321\<close>

definition rfc_T :: "32 word list" where
  "rfc_T = [0xd76aa478, 0xe8c7b756, 0x242070db, 0xc1bdceee, 0xf57c0faf, 0x4787c62a, 0xa8304613, 0xfd469501, 0x698098d8, 0x8b44f7af, 0xffff5bb1, 0x895cd7be, 0x6b901122, 0xfd987193, 0xa679438e, 0x49b40821, 0xf61e2562, 0xc040b340, 0x265e5a51, 0xe9b6c7aa, 0xd62f105d, 0x02441453, 0xd8a1e681, 0xe7d3fbc8, 0x21e1cde6, 0xc33707d6, 0xf4d50d87, 0x455a14ed, 0xa9e3e905, 0xfcefa3f8, 0x676f02d9, 0x8d2a4c8a, 0xfffa3942, 0x8771f681, 0x6d9d6122, 0xfde5380c, 0xa4beea44, 0x4bdecfa9, 0xf6bb4b60, 0xbebfbc70, 0x289b7ec6, 0xeaa127fa, 0xd4ef3085, 0x04881d05, 0xd9d4d039, 0xe6db99e5, 0x1fa27cf8, 0xc4ac5665, 0xf4292244, 0x432aff97, 0xab9423a7, 0xfc93a039, 0x655b59c3, 0x8f0ccc92, 0xffeff47d, 0x85845dd1, 0x6fa87e4f, 0xfe2ce6e0, 0xa3014314, 0x4e0811a1, 0xf7537e82, 0xbd3af235, 0x2ad7d2bb, 0xeb86d391]"

definition rfc_fun :: "nat \<Rightarrow> 32 word \<Rightarrow> 32 word \<Rightarrow> 32 word \<Rightarrow> 32 word" where
  "rfc_fun i x y z =
     (if i < 16 then (x AND y) OR (NOT x AND z)
      else if i < 32 then (x AND z) OR (y AND NOT z)
      else if i < 48 then x XOR y XOR z
      else y XOR (x OR NOT z))"

definition rfc_k :: "nat \<Rightarrow> nat" where
  "rfc_k i = (if i < 16 then i else if i < 32 then (5 * i + 1) mod 16 else if i < 48 then (3 * i + 5) mod 16 else 7 * i mod 16)"

definition rfc_s :: "nat \<Rightarrow> nat" where
  "rfc_s i = [[7, 12, 17, 22], [5, 9, 14, 20], [4, 11, 16, 23], [6, 10, 15, 21]] ! (i div 16) ! (i mod 4)"

definition rfc_step :: "string \<Rightarrow> nat \<Rightarrow> md5_regs \<Rightarrow> md5_regs" where
  "rfc_step X i r = (case r of (a, b, c, d) \<Rightarrow>
     (d, b + word_rotl (rfc_s i) (a + rfc_fun i b c d + md5_GET X (rfc_k i) + rfc_T ! i), b, c))"

definition rfc_compress :: "md5_regs \<Rightarrow> string \<Rightarrow> md5_regs" where
  "rfc_compress r X = add_regs (fold (rfc_step X) [0..<64] r) r"

definition rfc_IV :: md5_regs where
  "rfc_IV = (0x67452301, 0xefcdab89, 0x98badcfe, 0x10325476)"

definition rfc_pad :: "string \<Rightarrow> string" where
  "rfc_pad m = of_byte 0x80 # replicate ((119 - length m mod 64) mod 64) (of_byte 0) @ rev (be_bytes 8 (8 * length m))"

definition rfc_bytes :: "md5_regs \<Rightarrow> string" where
  "rfc_bytes r = (case r of (a, b, c, d) \<Rightarrow> concat (map (\<lambda>w. rev (be_bytes 4 (unat w))) [a, b, c, d]))"

definition md5_spec :: "string \<Rightarrow> string" where
  "md5_spec m = rfc_bytes (chain rfc_compress rfc_IV (m @ rfc_pad m))"

section \<open>The code computes the function of the RFC\<close>

lemma md5_functions:
  "md5_F x y z = (x AND y) OR (NOT x AND z)" "md5_G x y z = (x AND z) OR (y AND NOT z)"
  by (auto intro!: bit_word_eqI simp: md5_F_def md5_G_def bit_simps)

lemma md5_rotate:
  assumes "0 < s" and "s < 32"
  shows "push_bit s a OR drop_bit (32 - s) (a AND 0xffffffff) = word_rotl s (a :: 32 word)"
proof -
  have "(0xffffffff :: 32 word) = - 1" by simp
  then have mask: "a AND 0xffffffff = a" by (metis and.right_neutral)
  have "(32 - int s) mod 32 = 32 - int s" using assms by (intro mod_pos_pos_trivial) simp_all
  then have s: "nat (int s mod 32) = s" "nat ((32 - int s) mod 32) = 32 - s" using assms by simp_all
  show ?thesis using ROTL_word_rotl [of "int s" a] assms
    unfolding ROTL_def shl32_def shr32_def mask s by simp
qed

definition step_fun :: "nat \<Rightarrow> 32 word \<Rightarrow> 32 word \<Rightarrow> 32 word \<Rightarrow> 32 word" where
  "step_fun i = (if i < 16 then md5_F else if i < 32 then md5_G else if i < 48 then md5_H else md5_I)"

lemma step_fun_rfc: "step_fun i x y z = rfc_fun i x y z"
  by (simp add: step_fun_def rfc_fun_def md5_functions md5_H_def md5_I_def)

lemma rfc_s_range: "i < 64 \<Longrightarrow> 0 < rfc_s i \<and> rfc_s i < 32"
proof -
  assume "i < 64"
  moreover have "list_all (\<lambda>i. 0 < rfc_s i \<and> rfc_s i < 32) [0..<64]" by code_simp
  ultimately show ?thesis by (simp add: list_all_iff)
qed

lemma md5_steps_table: "md5_steps = map (\<lambda>i. (step_fun i, rfc_k i, rfc_T ! i, rfc_s i)) [0..<64]"
  by (simp add: upt_rec md5_steps_def step_fun_def rfc_k_def rfc_T_def rfc_s_def)

lemma STEP_rfc: "i < 64 \<Longrightarrow> STEP X (step_fun i, rfc_k i, rfc_T ! i, rfc_s i) r = rfc_step X i r"
  using rfc_s_range [of i]
  by (cases r) (simp add: STEP_def rfc_step_def step_fun_rfc md5_rotate Let_def ac_simps del: drop_bit_and)

lemma md5_block_rfc: "md5_block = rfc_compress"
proof (intro ext)
  fix r X
  have "fold (STEP X) md5_steps r = fold (rfc_step X) [0..<64] r"
    unfolding md5_steps_table fold_map comp_def
    by (rule fold_cong [OF refl refl]) (simp add: STEP_rfc fun_eq_iff)
  then show "md5_block r X = rfc_compress r X" by (simp add: md5_block_def rfc_compress_def)
qed

section \<open>Updates\<close>

definition md5_absorbed :: "MD5_CTX \<Rightarrow> string \<Rightarrow> bool" where
  "md5_absorbed ctx m \<longleftrightarrow>
     ctx_regs ctx = chain rfc_compress rfc_IV m \<and>
     ctx_lo ctx = of_nat (length m mod 2 ^ 29) \<and> ctx_hi ctx = of_nat (length m div 2 ^ 29) \<and>
     length (ctx_buffer ctx) = 64 \<and> take (length m mod 64) (ctx_buffer ctx) = tail_block m"

lemma md5_absorbed_Init: "length (ctx_buffer ctx) = 64 \<Longrightarrow> md5_absorbed (MD5_Init ctx) []"
  by (simp add: md5_absorbed_def MD5_Init_def rfc_IV_def)

lemma chain_whole: "chain p h (take (64 * (length m div 64)) m) = chain p h m"
proof (induction m arbitrary: h rule: block_induct)
  case (block b m)
  have "(64 + length m) div 64 = Suc (length m div 64)" by simp
  then have "64 * (length (b @ m) div 64) = 64 + 64 * (length m div 64)" using block.hyps by simp
  then show ?case using block by (simp add: chain_block)
qed simp

lemma md5_whole_eq:
  "md5_whole ctx x = ctx\<lparr>ctx_regs := chain rfc_compress (ctx_regs ctx) x, ctx_buffer := copy_to 0 (tail_block x) (ctx_buffer ctx)\<rparr>"
  by (auto simp: md5_whole_def md5_body_def md5_block_rfc chain_whole tail_block_def [symmetric] Let_def)

text \<open>The counter of 61 bits: its lower 29 bits in \<open>lo\<close>, the others in \<open>hi\<close>.\<close>

lemma md5_used: "unat ((of_nat (n mod 2 ^ 29) :: 32 word) AND 0x3f) = n mod 64"
proof -
  have "(of_nat (n mod 2 ^ 29) :: 32 word) AND 0x3f = take_bit 6 (of_nat (n mod 2 ^ 29))"
    by (simp add: take_bit_eq_mask mask_eq_exp_minus_1)
  also have "unat \<dots> = (n mod 2 ^ 29) mod 64"
    by (simp add: unsigned_take_bit_eq unat_of_nat take_bit_eq_mod [where 'a = nat])
  finally show ?thesis by (simp add: mod_mod_cancel)
qed

lemma md5_lo:
  "(ucast ((ucast (of_nat (n mod 2 ^ 29) :: 32 word) + (of_nat k :: 64 word)) AND 0x1fffffff) :: 32 word) = of_nat ((n + k) mod 2 ^ 29)"
proof -
  have "take_bit 32 (n mod 2 ^ 29) = n mod 2 ^ 29" by (simp add: take_bit_eq_mod order_less_trans [of _ "2 ^ 29"])
  then have "(ucast (of_nat (n mod 2 ^ 29) :: 32 word) :: 64 word) = of_nat (n mod 2 ^ 29)"
    by (simp add: word_eq_iff_unsigned [where ?'a = nat] unsigned_ucast_eq unsigned_of_nat)
  then have "(ucast (of_nat (n mod 2 ^ 29) :: 32 word) + (of_nat k :: 64 word)) AND 0x1fffffff
      = take_bit 29 (of_nat (n mod 2 ^ 29 + k))"
    by (simp add: take_bit_eq_mask mask_eq_exp_minus_1)
  also have "\<dots> = of_nat ((n + k) mod 2 ^ 29)"
    by (simp only: take_bit_of_nat take_bit_eq_mod [where 'a = nat] mod_add_left_eq)
  finally show ?thesis
    by (simp add: word_eq_iff_unsigned [where ?'a = nat] unsigned_ucast_eq unsigned_of_nat take_bit_eq_mod [where 'a = nat])
qed

lemma md5_hi:
  assumes "k < 2 ^ 64"
  shows "(if (of_nat ((n + k) mod 2 ^ 29) :: 32 word) < of_nat (n mod 2 ^ 29) then of_nat (n div 2 ^ 29) + 1 else of_nat (n div 2 ^ 29))
      + ucast (drop_bit 29 (of_nat k :: 64 word)) = (of_nat ((n + k) div 2 ^ 29) :: 32 word)"
proof -
  define a b where "a = n mod 2 ^ 29" and "b = k mod 2 ^ 29"
  have lt: "a < 2 ^ 29" "b < 2 ^ 29" by (simp_all add: a_def b_def)
  have sum: "(n + k) mod 2 ^ 29 = (a + b) mod 2 ^ 29" "(n + k) div 2 ^ 29 = n div 2 ^ 29 + k div 2 ^ 29 + (a + b) div 2 ^ 29"
    by (simp_all add: a_def b_def mod_add_eq div_add1_eq [of n k])
  have less: "(of_nat ((n + k) mod 2 ^ 29) :: 32 word) < of_nat a \<longleftrightarrow> (a + b) mod 2 ^ 29 < a"
    unfolding sum using lt
    by (subst word_of_nat_less_iff) (simp add: take_bit_eq_mod order_less_trans [of _ "2 ^ 29"])
  have carry: "(a + b) mod 2 ^ 29 < a \<longleftrightarrow> 2 ^ 29 \<le> a + b" "(a + b) div 2 ^ 29 = (if 2 ^ 29 \<le> a + b then 1 else 0)"
    using lt by (auto simp: mod_if div_if)
  have "drop_bit 29 (of_nat k :: 64 word) = of_nat (k div 2 ^ 29)"
    using assms
    by (simp add: word_eq_iff_unsigned [where ?'a = nat] unsigned_drop_bit_eq unsigned_of_nat
        drop_bit_eq_div [where 'a = nat] take_bit_eq_mod [where 'a = nat] less_imp_le)
  moreover have "(ucast (of_nat j :: 64 word) :: 32 word) = of_nat j" for j
    by (simp add: word_eq_iff_unsigned [where ?'a = nat] unsigned_ucast_eq unsigned_of_nat take_bit_eq_mod [where 'a = nat] mod_mod_cancel)
  ultimately show ?thesis
    unfolding a_def [symmetric] less carry(1) sum(2) carry(2) by simp
qed

lemma md5_absorbed_Update:
  assumes ab: "md5_absorbed ctx m" and len: "length x < 2 ^ 64"
  shows "md5_absorbed (MD5_Update ctx x) (m @ x)"
proof -
  define used where "used = length m mod 64"
  define lo hi where "lo = (of_nat (length (m @ x) mod 2 ^ 29) :: 32 word)" and "hi = (of_nat (length (m @ x) div 2 ^ 29) :: 32 word)"
  define c where "c = ctx\<lparr>ctx_lo := lo, ctx_hi := hi\<rparr>"
  have base: "ctx_regs c = chain rfc_compress rfc_IV m" "length (ctx_buffer c) = 64"
    "take used (ctx_buffer c) = tail_block m" "used < 64"
    using ab by (simp_all add: md5_absorbed_def c_def used_def)
  have run: "MD5_Update ctx x =
      (if used \<noteq> 0 then
         if length x < 64 - used then c\<lparr>ctx_buffer := copy_to used x (ctx_buffer c)\<rparr>
         else let d = c\<lparr>ctx_buffer := copy_to used (take (64 - used) x) (ctx_buffer c)\<rparr>
              in md5_whole (md5_body d (ctx_buffer d)) (drop (64 - used) x)
       else md5_whole c x)"
  proof -
    have "ctx_lo ctx = of_nat (length m mod 2 ^ 29)" "ctx_hi ctx = of_nat (length m div 2 ^ 29)"
      using ab by (simp_all add: md5_absorbed_def)
    then show ?thesis
      unfolding MD5_Update_def Let_def
      by (simp only: md5_used md5_lo md5_hi [OF len] c_def lo_def hi_def used_def length_append)
  qed
  have total: "chain rfc_compress rfc_IV (m @ x) = chain rfc_compress (ctx_regs c) (tail_block m @ x)"
    "tail_block (m @ x) = tail_block (tail_block m @ x)"
    by (simp_all add: base(1) chain_append [of _ _ m x] tail_block_append [of m x])
  have goal: "md5_absorbed (c\<lparr>ctx_regs := r, ctx_buffer := b\<rparr>) (m @ x)"
    if "r = chain rfc_compress rfc_IV (m @ x)" "length b = 64" "take (length (tail_block (m @ x))) b = tail_block (m @ x)" for r b
    using that by (simp add: md5_absorbed_def c_def lo_def hi_def)
  have whole: "take (length (tail_block y)) (copy_to 0 (tail_block y) b) = tail_block y" for y b
    by (simp add: copy_to_def)
  consider (part) "used \<noteq> 0" "length x < 64 - used" | (fill) "used \<noteq> 0" "64 - used \<le> length x" | (empty) "used = 0"
    by linarith
  then show ?thesis
  proof cases
    case part
    then have short: "length (tail_block m @ x) < 64" by (simp add: used_def)
    then have "MD5_Update ctx x = c\<lparr>ctx_regs := ctx_regs c, ctx_buffer := copy_to used x (ctx_buffer c)\<rparr>"
      using part by (simp add: run)
    moreover have "take (used + length x) (copy_to used x (ctx_buffer c)) = tail_block m @ x"
      using base part by (simp add: take_copy_to)
    ultimately show ?thesis
      using short base total part by (auto intro!: goal simp: used_def)
  next
    case fill
    let ?b = "tail_block m @ take (64 - used) x" and ?y = "drop (64 - used) x"
    have b: "copy_to used (take (64 - used) x) (ctx_buffer c) = ?b" "length ?b = 64" "tail_block m @ x = ?b @ ?y"
      using fill base by (simp_all add: copy_to_def used_def)
    have "MD5_Update ctx x =
        c\<lparr>ctx_regs := chain rfc_compress (ctx_regs c) (?b @ ?y), ctx_buffer := copy_to 0 (tail_block ?y) ?b\<rparr>"
      using fill b(1,2) chain_block [of ?b rfc_compress "ctx_regs c" ?y] chain_block [of ?b rfc_compress "ctx_regs c" "[]"]
      by (simp add: run Let_def md5_body_def md5_whole_eq md5_block_rfc)
    then show ?thesis
      using b total whole [of ?y ?b] by (auto intro!: goal simp: tail_block_block simp del: append_assoc)
  next
    case empty
    then have "tail_block m = []" by (metis length_0_conv length_tail_block used_def)
    then show ?thesis
      using empty total base whole [of x "ctx_buffer c"] by (auto intro!: goal simp: run md5_whole_eq)
  qed
qed

section \<open>The final step\<close>

lemma le_be_bytes: "le_bytes w = rev (be_bytes 4 (unat w))"
proof -
  have cut: "a mod 2 ^ 64 = a" if "a < 2 ^ 32" for a :: nat using that by simp
  have "unat w < 2 ^ 32" using unsigned_less [of w] by simp
  moreover from this have "unat w div k < 2 ^ 32" for k using div_le_dividend [of "unat w" k] by linarith
  ultimately show ?thesis
    by (simp add: le_bytes_def be_bytes_4 uchar_def unsigned_ucast_eq unsigned_drop_bit_eq unsigned_take_bit_eq
        drop_bit_eq_div [where 'a = nat] take_bit_eq_mod [where 'a = nat])
qed

lemma rfc_bytes_le: "(case r of (a, b, c, d) \<Rightarrow> le_bytes a @ le_bytes b @ le_bytes c @ le_bytes d) = rfc_bytes r"
  by (cases r) (simp add: rfc_bytes_def le_be_bytes)

lemma md5_length_bytes:
  "le_bytes (push_bit 3 (of_nat (n mod 2 ^ 29))) @ le_bytes (of_nat (n div 2 ^ 29)) = rev (be_bytes 8 (8 * n))"
proof -
  have low: "unat (push_bit 3 (of_nat (n mod 2 ^ 29)) :: 32 word) = 8 * n mod 2 ^ 32"
  proof -
    have "push_bit 3 (of_nat k :: 32 word) = of_nat (8 * k)" for k by (simp add: push_bit_eq_mult)
    moreover have "8 * (n mod 2 ^ 29) = 8 * n mod 2 ^ 32" using mod_mult_mult1 [of 8 n "2 ^ 29"] by simp
    ultimately show ?thesis by (simp only: unat_of_nat) simp
  qed
  have "8 * n div 2 ^ 32 = n div 2 ^ 29" using div_mult_mult1 [of 8 n "2 ^ 29"] by simp
  moreover have "unat (of_nat (n div 2 ^ 29) :: 32 word) = n div 2 ^ 29 mod 2 ^ 32" by (simp add: unat_of_nat)
  ultimately show ?thesis
    unfolding le_be_bytes low be_bytes_8 by (simp only: be_bytes_4_mod rev_append)
qed

lemma md5_final_digest:
  assumes ab: "md5_absorbed ctx m"
  shows "MD5_Final ctx = md5_spec m"
proof -
  define r t where "r = length m mod 64" and "t = tail_block m"
  define len where "len = rev (be_bytes 8 (8 * length m))"
  define z where "z = of_byte 0"
  have r: "r < 64" "length t = r" by (simp_all add: r_def t_def)
  have len8: "length len = 8" by (simp add: len_def be_bytes_def)
  have base: "ctx_regs ctx = chain rfc_compress rfc_IV m" "length (ctx_buffer ctx) = 64" "take r (ctx_buffer ctx) = t"
    "unat (ctx_lo ctx AND 0x3f) = r"
    "le_bytes (push_bit 3 (ctx_lo ctx)) @ le_bytes (ctx_hi ctx) = len"
    using ab md5_used [of "length m"] md5_length_bytes [of "length m"]
    by (simp_all only: md5_absorbed_def r_def t_def len_def)
  define u where "u = drop (Suc r) (ctx_buffer ctx)"
  have buf: "(ctx_buffer ctx)[r := of_byte 0x80] = t @ of_byte 0x80 # u" "length u = 63 - r"
    using base r by (simp_all add: upd_conv_take_nth_drop u_def)
  have pad: "rfc_pad m = of_byte 0x80 # replicate ((119 - r) mod 64) z @ len"
    by (simp add: rfc_pad_def r_def len_def z_def)
  have spec: "chain rfc_compress rfc_IV (m @ rfc_pad m) = chain rfc_compress (ctx_regs ctx) (t @ rfc_pad m)"
    by (simp add: chain_append [of _ _ m] base(1) t_def)
  define regs buf2 where "regs = (if r > 55 then rfc_compress (ctx_regs ctx) (t @ of_byte 0x80 # replicate (63 - r) z) else ctx_regs ctx)"
    and "buf2 = (if r > 55 then replicate 56 z @ len else t @ of_byte 0x80 # replicate (55 - r) z @ len)"
  have "length buf2 = 64" using r len8 by (simp add: buf2_def)
  then have last: "chain rfc_compress regs buf2 = rfc_compress regs buf2"
    using chain_block [of buf2 rfc_compress regs "[]"] by simp
  have run: "MD5_Final ctx = rfc_bytes (chain rfc_compress regs buf2)"
  proof (cases "r > 55")
    case True
    let ?b = "t @ of_byte 0x80 # replicate (63 - r) z"
    have b: "length ?b = 64" "copy_to (Suc r) (replicate (63 - r) z) (t @ of_byte 0x80 # u) = ?b"
      using r buf(2) by (simp_all add: copy_to_def)
    have "copy_to 56 len (copy_to 0 (replicate 56 z) ?b) = buf2"
      using True b(1) len8 by (simp add: copy_to_def buf2_def)
    moreover have "63 - r < 8" using True by simp
    ultimately show ?thesis
      using True b chain_block [of ?b rfc_compress "ctx_regs ctx" "[]"]
      by (simp add: MD5_Final_def Let_def base(2-) buf md5_block_rfc regs_def z_def [symmetric] rfc_bytes_le)
  next
    case False
    have "copy_to 56 len (copy_to (Suc r) (replicate (55 - r) z) (t @ of_byte 0x80 # u)) = buf2"
    proof -
      have "56 - r = Suc (55 - r)" using False by simp
      then show ?thesis using False r(2) buf(2) len8 by (simp add: copy_to_def buf2_def)
    qed
    moreover have "\<not> 63 - r < 8" "63 - r - 8 = 55 - r" using False by simp_all
    ultimately show ?thesis
      using False
      by (simp add: MD5_Final_def Let_def base(2-) buf md5_block_rfc regs_def z_def [symmetric] rfc_bytes_le)
  qed
  have "chain rfc_compress regs buf2 = chain rfc_compress (ctx_regs ctx) (t @ rfc_pad m)"
  proof (cases "r > 55")
    case True
    let ?b = "t @ of_byte 0x80 # replicate (63 - r) z"
    have "119 - r < 64" "119 - r = (63 - r) + 56" using True r(1) by simp_all
    then have n: "(119 - r) mod 64 = (63 - r) + 56" by (metis mod_less)
    have "rfc_pad m = of_byte 0x80 # replicate (63 - r) z @ replicate 56 z @ len"
      unfolding pad n replicate_add by (simp only: append_assoc)
    then have "t @ rfc_pad m = ?b @ buf2" using True by (simp only: buf2_def if_True append.simps append_assoc)
    moreover have "length ?b = 64" using r by simp
    ultimately show ?thesis using True by (simp only: chain_block regs_def if_True)
  next
    case False
    then have "119 - r = 64 + (55 - r)" "55 - r < 64" by simp_all
    then have "(119 - r) mod 64 = 55 - r" by (metis mod_add_self1 mod_less)
    then show ?thesis using False by (simp add: pad buf2_def regs_def)
  qed
  then show ?thesis by (simp add: run md5_spec_def spec)
qed

interpretation MD5_class: stream_hash "\<lambda>ctx. length (ctx_buffer ctx) = 64" MD5_Init MD5_Update MD5_Final
  "\<lambda>x. length x < 2 ^ 64" md5_absorbed md5_spec
  by unfold_locales (simp_all add: md5_absorbed_Init md5_absorbed_Update md5_final_digest)

section \<open>Properties\<close>

definition blank_md5 :: MD5_CTX where
  "blank_md5 = \<lparr>ctx_lo = 0, ctx_hi = 0, ctx_regs = (0, 0, 0, 0), ctx_buffer = replicate 64 (of_byte 0)\<rparr>"

lemma length_md5_spec: "length (md5_spec m) = 16"
  by (simp add: md5_spec_def rfc_bytes_def be_bytes_def split: prod.splits)

lemma md5bin_spec: "length (ctx_buffer c) = 64 \<Longrightarrow> length dat < 2 ^ 64 \<Longrightarrow> md5bin c dat = md5_spec dat"
  using MD5_class.pieces [of c "[dat]"] by (simp add: md5bin_def)

lemma hb2hex_hex_char: "hb2hex n = hex_char (n mod 16)"
  by (simp add: hb2hex_def hex_char_def Let_def add.commute)

lemma md5_hex_lower: "md5_hex x = BinToHexString x"
proof (induction x)
  case (Cons c x)
  have "byte c div 16 < 16" using byte_less [of c] by (simp add: less_mult_imp_div_less)
  with Cons show ?case by (simp add: md5_hex_def hb2hex_hex_char)
qed (simp add: md5_hex_def)

text \<open>C27: The code computes MD5 as RFC 1321 defines it, for every input the length of which fits
  an \<open>unsigned long\<close>, and however a file is cut into pieces by \<open>fread\<close>; the text form is the
  lower-case hexadecimal form of these 16 bytes. A file that cannot be opened gives an empty text.\<close>

theorem md5_computes_rfc1321:
  assumes "length (ctx_buffer c) = 64" and "length dat < 2 ^ 64" and "\<forall>p \<in> set pieces. length p < 2 ^ 64"
  shows "GenerateMD5ToBin c dat = md5_spec dat \<and> GenerateMD5ToHex c dat = BinToHexString (md5_spec dat) \<and>
    GenerateMd5File c (Some pieces) = BinToHexString (md5_spec (concat pieces)) \<and> GenerateMd5File c None = [] \<and>
    length (md5_spec dat) = 16"
  using md5bin_spec [OF assms(1,2)] MD5_class.pieces [OF assms(1,3)]
  by (simp add: GenerateMD5ToBin_def GenerateMD5ToHex_def GenerateMd5File_def md5_hex_lower length_md5_spec)

theorem md5_computes_rfc1321_witness:
  "GenerateMD5ToHex blank_md5 ''abc'' = BinToHexString (md5_spec ''abc'') \<and>
   GenerateMd5File blank_md5 (Some [''ab'', ''c'']) = BinToHexString (md5_spec ''abc'')"
  using md5_computes_rfc1321 [of blank_md5 "''abc''" "[''ab'', ''c'']"] by (simp add: blank_md5_def)

end
