(* ===== verification/Crc.thy ===== *)
theory Crc
  imports Prelude
begin

text \<open>
  The checksums of \<open>utils/crypto.cpp\<close>: \<open>Crc8\<close>, the bit-serial \<open>Crc16\<close> and the table-driven
  \<open>Get_Crc16\<close>. A \<open>uint8_t\<close> is an \<open>8 word\<close>, a \<open>uint16_t\<close> a \<open>16 word\<close>; a message is a
  \<open>string\<close> and the length parameters have 16 bits. Proved: the two versions of the 16-bit
  checksum compute the same value up to the order of its bytes, a message followed by its
  checksum has checksum zero, and a change within one byte always shows.
\<close>

unbundle bit_operations_syntax

section \<open>The code\<close>

definition u8 :: "char \<Rightarrow> 8 word" where
  "u8 c = of_nat (byte c)"

definition auchCRCHi :: "8 word list" where
  "auchCRCHi = [
      0x00, 0xc1, 0x81, 0x40, 0x01, 0xc0, 0x80, 0x41, 0x01, 0xc0, 0x80, 0x41, 0x00, 0xc1, 0x81, 0x40,
      0x01, 0xc0, 0x80, 0x41, 0x00, 0xc1, 0x81, 0x40, 0x00, 0xc1, 0x81, 0x40, 0x01, 0xc0, 0x80, 0x41,
      0x01, 0xc0, 0x80, 0x41, 0x00, 0xc1, 0x81, 0x40, 0x00, 0xc1, 0x81, 0x40, 0x01, 0xc0, 0x80, 0x41,
      0x00, 0xc1, 0x81, 0x40, 0x01, 0xc0, 0x80, 0x41, 0x01, 0xc0, 0x80, 0x41, 0x00, 0xc1, 0x81, 0x40,
      0x01, 0xc0, 0x80, 0x41, 0x00, 0xc1, 0x81, 0x40, 0x00, 0xc1, 0x81, 0x40, 0x01, 0xc0, 0x80, 0x41,
      0x00, 0xc1, 0x81, 0x40, 0x01, 0xc0, 0x80, 0x41, 0x01, 0xc0, 0x80, 0x41, 0x00, 0xc1, 0x81, 0x40,
      0x00, 0xc1, 0x81, 0x40, 0x01, 0xc0, 0x80, 0x41, 0x01, 0xc0, 0x80, 0x41, 0x00, 0xc1, 0x81, 0x40,
      0x01, 0xc0, 0x80, 0x41, 0x00, 0xc1, 0x81, 0x40, 0x00, 0xc1, 0x81, 0x40, 0x01, 0xc0, 0x80, 0x41,
      0x01, 0xc0, 0x80, 0x41, 0x00, 0xc1, 0x81, 0x40, 0x00, 0xc1, 0x81, 0x40, 0x01, 0xc0, 0x80, 0x41,
      0x00, 0xc1, 0x81, 0x40, 0x01, 0xc0, 0x80, 0x41, 0x01, 0xc0, 0x80, 0x41, 0x00, 0xc1, 0x81, 0x40,
      0x00, 0xc1, 0x81, 0x40, 0x01, 0xc0, 0x80, 0x41, 0x01, 0xc0, 0x80, 0x41, 0x00, 0xc1, 0x81, 0x40,
      0x01, 0xc0, 0x80, 0x41, 0x00, 0xc1, 0x81, 0x40, 0x00, 0xc1, 0x81, 0x40, 0x01, 0xc0, 0x80, 0x41,
      0x00, 0xc1, 0x81, 0x40, 0x01, 0xc0, 0x80, 0x41, 0x01, 0xc0, 0x80, 0x41, 0x00, 0xc1, 0x81, 0x40,
      0x01, 0xc0, 0x80, 0x41, 0x00, 0xc1, 0x81, 0x40, 0x00, 0xc1, 0x81, 0x40, 0x01, 0xc0, 0x80, 0x41,
      0x01, 0xc0, 0x80, 0x41, 0x00, 0xc1, 0x81, 0x40, 0x00, 0xc1, 0x81, 0x40, 0x01, 0xc0, 0x80, 0x41,
      0x00, 0xc1, 0x81, 0x40, 0x01, 0xc0, 0x80, 0x41, 0x01, 0xc0, 0x80, 0x41, 0x00, 0xc1, 0x81, 0x40]"

definition auchCRCLo :: "8 word list" where
  "auchCRCLo = [
      0x00, 0xc0, 0xc1, 0x01, 0xc3, 0x03, 0x02, 0xc2, 0xc6, 0x06, 0x07, 0xc7, 0x05, 0xc5, 0xc4, 0x04,
      0xcc, 0x0c, 0x0d, 0xcd, 0x0f, 0xcf, 0xce, 0x0e, 0x0a, 0xca, 0xcb, 0x0b, 0xc9, 0x09, 0x08, 0xc8,
      0xd8, 0x18, 0x19, 0xd9, 0x1b, 0xdb, 0xda, 0x1a, 0x1e, 0xde, 0xdf, 0x1f, 0xdd, 0x1d, 0x1c, 0xdc,
      0x14, 0xd4, 0xd5, 0x15, 0xd7, 0x17, 0x16, 0xd6, 0xd2, 0x12, 0x13, 0xd3, 0x11, 0xd1, 0xd0, 0x10,
      0xf0, 0x30, 0x31, 0xf1, 0x33, 0xf3, 0xf2, 0x32, 0x36, 0xf6, 0xf7, 0x37, 0xf5, 0x35, 0x34, 0xf4,
      0x3c, 0xfc, 0xfd, 0x3d, 0xff, 0x3f, 0x3e, 0xfe, 0xfa, 0x3a, 0x3b, 0xfb, 0x39, 0xf9, 0xf8, 0x38,
      0x28, 0xe8, 0xe9, 0x29, 0xeb, 0x2b, 0x2a, 0xea, 0xee, 0x2e, 0x2f, 0xef, 0x2d, 0xed, 0xec, 0x2c,
      0xe4, 0x24, 0x25, 0xe5, 0x27, 0xe7, 0xe6, 0x26, 0x22, 0xe2, 0xe3, 0x23, 0xe1, 0x21, 0x20, 0xe0,
      0xa0, 0x60, 0x61, 0xa1, 0x63, 0xa3, 0xa2, 0x62, 0x66, 0xa6, 0xa7, 0x67, 0xa5, 0x65, 0x64, 0xa4,
      0x6c, 0xac, 0xad, 0x6d, 0xaf, 0x6f, 0x6e, 0xae, 0xaa, 0x6a, 0x6b, 0xab, 0x69, 0xa9, 0xa8, 0x68,
      0x78, 0xb8, 0xb9, 0x79, 0xbb, 0x7b, 0x7a, 0xba, 0xbe, 0x7e, 0x7f, 0xbf, 0x7d, 0xbd, 0xbc, 0x7c,
      0xb4, 0x74, 0x75, 0xb5, 0x77, 0xb7, 0xb6, 0x76, 0x72, 0xb2, 0xb3, 0x73, 0xb1, 0x71, 0x70, 0xb0,
      0x50, 0x90, 0x91, 0x51, 0x93, 0x53, 0x52, 0x92, 0x96, 0x56, 0x57, 0x97, 0x55, 0x95, 0x94, 0x54,
      0x9c, 0x5c, 0x5d, 0x9d, 0x5f, 0x9f, 0x9e, 0x5e, 0x5a, 0x9a, 0x9b, 0x5b, 0x99, 0x59, 0x58, 0x98,
      0x88, 0x48, 0x49, 0x89, 0x4b, 0x8b, 0x8a, 0x4a, 0x4e, 0x8e, 0x8f, 0x4f, 0x8d, 0x4d, 0x4c, 0x8c,
      0x44, 0x84, 0x85, 0x45, 0x87, 0x47, 0x46, 0x86, 0x82, 0x42, 0x43, 0x83, 0x41, 0x81, 0x80, 0x40]"

text \<open>One round of the loop on \<open>(uchCRCHi, uchCRCLo)\<close>.\<close>

definition crc_table_byte :: "8 word \<times> 8 word \<Rightarrow> 8 word \<Rightarrow> 8 word \<times> 8 word" where
  "crc_table_byte s b =
     (case s of (uchCRCHi, uchCRCLo) \<Rightarrow>
      let uIndex = unat (uchCRCHi XOR b) in (uchCRCLo XOR auchCRCHi ! uIndex, auchCRCLo ! uIndex))"

definition bytes16 :: "8 word \<Rightarrow> 8 word \<Rightarrow> 16 word" where
  "bytes16 hi lo = push_bit 8 (ucast hi) OR ucast lo"

definition Get_Crc16 :: "string \<Rightarrow> 16 word \<Rightarrow> 16 word" where
  "Get_Crc16 puchMsg usDataLen =
     (case foldl crc_table_byte (0xff, 0xff) (map u8 (take (unat usDataLen) puchMsg)) of
        (uchCRCHi, uchCRCLo) \<Rightarrow> bytes16 uchCRCHi uchCRCLo)"

definition crc8_bit :: "8 word \<Rightarrow> 8 word" where
  "crc8_bit crc = (if crc AND 0x01 \<noteq> 0 then drop_bit 1 crc XOR 0x8c else drop_bit 1 crc)"

definition crc8_byte :: "8 word \<Rightarrow> 8 word \<Rightarrow> 8 word" where
  "crc8_byte crc b = (crc8_bit ^^ 8) (crc XOR b)"

definition Crc8 :: "string \<Rightarrow> 16 word \<Rightarrow> 8 word" where
  "Crc8 ptr len = foldl crc8_byte 0 (map u8 (take (unat len) ptr))"

definition Crc8_string :: "string \<Rightarrow> 8 word" where
  "Crc8_string data = Crc8 data (of_nat (length data))"

text \<open>One bit on \<open>(CRC16Hi, CRC16Lo)\<close>.\<close>

definition crc16_bit :: "8 word \<times> 8 word \<Rightarrow> 8 word \<times> 8 word" where
  "crc16_bit s =
     (case s of (SaveHi, SaveLo) \<Rightarrow>
      let CRC16Hi = drop_bit 1 SaveHi;
          CRC16Lo = drop_bit 1 SaveLo;
          CRC16Lo = (if SaveHi AND 0x01 = 0x01 then CRC16Lo OR 0x80 else CRC16Lo)
      in if SaveLo AND 0x01 = 0x01 then (CRC16Hi XOR 0xa0, CRC16Lo XOR 0x01) else (CRC16Hi, CRC16Lo))"

definition crc16_byte :: "8 word \<times> 8 word \<Rightarrow> 8 word \<Rightarrow> 8 word \<times> 8 word" where
  "crc16_byte s b = (case s of (CRC16Hi, CRC16Lo) \<Rightarrow> (crc16_bit ^^ 8) (CRC16Hi, CRC16Lo XOR b))"

definition Crc16 :: "string \<Rightarrow> 16 word \<Rightarrow> 16 word" where
  "Crc16 pdata datalen =
     (case foldl crc16_byte (0xff, 0xff) (map u8 (take (unat datalen) pdata)) of
        (CRC16Hi, CRC16Lo) \<Rightarrow> bytes16 CRC16Hi CRC16Lo)"

section \<open>The table\<close>

lemma low_bit: "(x AND 1 = 1) = bit (x :: 8 word) 0" "(x AND 1 \<noteq> 0) = bit x 0"
  by (simp_all add: and_one_eq bit_0 odd_iff_mod_2_eq_one)

lemma less_8_cases:
  assumes "i < (8 :: nat)"
  obtains "i = 0" | "i = 1" | "i = 2" | "i = 3" | "i = 4" | "i = 5" | "i = 6" | "i = 7"
  using assms by linarith

lemma byte_bits:
  "i < 8 \<Longrightarrow> bit (0x80 :: 8 word) i \<longleftrightarrow> i = 7" "i < 8 \<Longrightarrow> bit (0xa0 :: 8 word) i \<longleftrightarrow> i = 5 \<or> i = 7"
  "i < 8 \<Longrightarrow> bit (0x8c :: 8 word) i \<longleftrightarrow> i = 2 \<or> i = 3 \<or> i = 7"
  by (erule less_8_cases; simp)+

lemma bit_beyond_8: "bit (w :: 8 word) 8 = False"
  using bit_imp_le_length [of w 8] by auto

text \<open>The two bytes after one bit.\<close>

lemma crc16_bit_bits:
  "i < 8 \<Longrightarrow> bit (fst (crc16_bit (h, l))) i \<longleftrightarrow> bit h (Suc i) \<noteq> (bit l 0 \<and> (i = 5 \<or> i = 7))"
  "i < 8 \<Longrightarrow> bit (snd (crc16_bit (h, l))) i \<longleftrightarrow> (bit l (Suc i) \<or> (bit h 0 \<and> i = 7)) \<noteq> (bit l 0 \<and> i = 0)"
  by (auto simp: crc16_bit_def Let_def low_bit bit_simps byte_bits simp del: bit_numeral_word_iff)

definition xor2 :: "8 word \<times> 8 word \<Rightarrow> 8 word \<times> 8 word \<Rightarrow> 8 word \<times> 8 word" where
  "xor2 s t = (fst s XOR fst t, snd s XOR snd t)"

lemma pair_bits_eqI:
  "(\<And>i. i < 8 \<Longrightarrow> bit (fst s) i = bit (fst t) i) \<Longrightarrow> (\<And>i. i < 8 \<Longrightarrow> bit (snd s) i = bit (snd t) i) \<Longrightarrow>
   s = (t :: 8 word \<times> 8 word)"
  by (auto simp: prod_eq_iff intro!: bit_word_eqI)

lemma crc16_bit_linear: "crc16_bit (xor2 s t) = xor2 (crc16_bit s) (crc16_bit t)"
proof -
  obtain h l h' l' where st: "s = (h, l)" "t = (h', l')" by (metis prod.exhaust)
  have "bit (w :: 8 word) (Suc i) \<Longrightarrow> i \<noteq> 7" for w i using bit_imp_le_length [of w "Suc i"] by auto
  then show ?thesis
    unfolding st
    by (intro pair_bits_eqI) (auto simp: xor2_def bit_xor_iff crc16_bit_bits)
qed

lemma crc16_bits_linear: "(crc16_bit ^^ n) (xor2 s t) = xor2 ((crc16_bit ^^ n) s) ((crc16_bit ^^ n) t)"
  by (induction n) (simp_all add: crc16_bit_linear)

lemma crc16_bits_high: "n \<le> 8 \<Longrightarrow> (crc16_bit ^^ n) (h, 0) = (drop_bit n h, push_bit (8 - n) h)"
proof (induction n)
  case 0
  show ?case by simp
next
  case (Suc n)
  have "crc16_bit (drop_bit n h, push_bit (8 - n) h) = (drop_bit (Suc n) h, push_bit (8 - Suc n) h)"
  proof (rule pair_bits_eqI)
    fix i assume i: "i < (8 :: nat)"
    show "bit (fst (crc16_bit (drop_bit n h, push_bit (8 - n) h))) i = bit (fst (drop_bit (Suc n) h, push_bit (8 - Suc n) h)) i"
      using i Suc.prems by (auto simp: crc16_bit_bits bit_simps)
    show "bit (snd (crc16_bit (drop_bit n h, push_bit (8 - n) h))) i = bit (snd (drop_bit (Suc n) h, push_bit (8 - Suc n) h)) i"
      using i Suc.prems by (cases "i = 7") (auto simp: crc16_bit_bits bit_simps Suc_diff_le)
  qed
  with Suc show ?case by simp
qed

lemma crc16_table:
  "i < 256 \<Longrightarrow> (crc16_bit ^^ 8) (0, of_nat i) = (auchCRCLo ! i, auchCRCHi ! i)"
proof -
  assume "i < 256"
  moreover have "list_all (\<lambda>i. (crc16_bit ^^ 8) (0, of_nat i) = (auchCRCLo ! i, auchCRCHi ! i)) [0..<256]"
    by code_simp
  ultimately show ?thesis by (simp only: list_all_iff set_upt) simp
qed

lemma crc16_byte_table: "crc_table_byte (prod.swap s) b = prod.swap (crc16_byte s b)"
proof -
  obtain h l where s: "s = (h, l)" by (cases s)
  define i where "i = unat (l XOR b)"
  have "i < 256" using unsigned_less [of "l XOR b"] by (simp add: i_def)
  from crc16_table [OF this] have "(crc16_bit ^^ 8) (0, l XOR b) = (auchCRCLo ! i, auchCRCHi ! i)"
    by (simp add: i_def)
  moreover have "xor2 (h, 0) (0, l XOR b) = (h, l XOR b)" by (simp add: xor2_def)
  moreover have "(crc16_bit ^^ 8) (h, 0) = (0, h)"
    using crc16_bits_high [of 8 h] bit_imp_le_length [of h] by (auto intro: bit_word_eqI simp: bit_simps)
  ultimately have "(crc16_bit ^^ 8) (h, l XOR b) = (auchCRCLo ! i, h XOR auchCRCHi ! i)"
    using crc16_bits_linear [of 8 "(h, 0)" "(0, l XOR b)"] by (simp add: xor2_def)
  then show ?thesis by (simp add: s crc16_byte_def crc_table_byte_def Let_def i_def)
qed

lemma foldl_swap: "foldl crc_table_byte (prod.swap s) bs = prod.swap (foldl crc16_byte s bs)"
  by (induction bs arbitrary: s) (simp_all add: crc16_byte_table)

section \<open>Error detection\<close>

text \<open>What a checksum computed byte by byte needs to notice a change: neither two states nor two
  bytes are confused by a step.\<close>

locale byte_check =
  fixes step :: "'s \<Rightarrow> 8 word \<Rightarrow> 's"
  assumes state_inj: "step s b = step t b \<Longrightarrow> s = t"
    and byte_inj: "step s a = step s b \<Longrightarrow> a = b"
begin

lemma run_inj: "foldl step s bs = foldl step t bs \<Longrightarrow> s = t"
  by (induction bs arbitrary: s t) (auto dest: state_inj)

lemma change_shows: "a \<noteq> b \<Longrightarrow> foldl step s (xs @ a # ys) \<noteq> foldl step s (xs @ b # ys)"
  using run_inj byte_inj by fastforce

end

lemma crc8_bit_bits: "i < 8 \<Longrightarrow> bit (crc8_bit c) i \<longleftrightarrow> bit c (Suc i) \<noteq> (bit c 0 \<and> (i = 2 \<or> i = 3 \<or> i = 7))"
  by (auto simp: crc8_bit_def low_bit bit_simps byte_bits simp del: bit_numeral_word_iff)

lemma byte_eq_by_bits: "bit x 0 = bit y 0 \<Longrightarrow> (\<And>i. i < 7 \<Longrightarrow> bit x (Suc i) = bit y (Suc i)) \<Longrightarrow> x = (y :: 8 word)"
proof (rule bit_word_eqI)
  fix i assume a: "bit x 0 = bit y 0" "\<And>i. i < 7 \<Longrightarrow> bit x (Suc i) = bit y (Suc i)" "i < LENGTH(8)"
  then show "bit x i = bit y i" by (cases i) simp_all
qed

lemma crc8_bit_inj: "crc8_bit x = crc8_bit y \<Longrightarrow> x = y"
proof (rule byte_eq_by_bits)
  assume eq: "crc8_bit x = crc8_bit y"
  have same: "i < 8 \<Longrightarrow> (bit x (Suc i) \<noteq> (bit x 0 \<and> (i = 2 \<or> i = 3 \<or> i = 7))) =
      (bit y (Suc i) \<noteq> (bit y 0 \<and> (i = 2 \<or> i = 3 \<or> i = 7)))" for i
    using crc8_bit_bits [of i x] crc8_bit_bits [of i y] eq by simp
  show low: "bit x 0 = bit y 0" using same [of 7] bit_beyond_8 [of x] bit_beyond_8 [of y] by simp
  show "i < 7 \<Longrightarrow> bit x (Suc i) = bit y (Suc i)" for i using same [of i] low by auto
qed

lemma crc16_bit_inj: "crc16_bit s = crc16_bit t \<Longrightarrow> s = t"
proof -
  assume eq: "crc16_bit s = crc16_bit t"
  obtain h l h' l' where st: "s = (h, l)" "t = (h', l')" by (metis prod.exhaust)
  have hi: "i < 8 \<Longrightarrow> (bit h (Suc i) \<noteq> (bit l 0 \<and> (i = 5 \<or> i = 7))) = (bit h' (Suc i) \<noteq> (bit l' 0 \<and> (i = 5 \<or> i = 7)))"
    and lo: "i < 8 \<Longrightarrow> ((bit l (Suc i) \<or> (bit h 0 \<and> i = 7)) \<noteq> (bit l 0 \<and> i = 0)) =
      ((bit l' (Suc i) \<or> (bit h' 0 \<and> i = 7)) \<noteq> (bit l' 0 \<and> i = 0))" for i
    using crc16_bit_bits [of i h l] crc16_bit_bits [of i h' l'] eq st by simp_all
  have l0: "bit l 0 = bit l' 0" using hi [of 7] bit_beyond_8 [of h] bit_beyond_8 [of h'] by simp
  have h0: "bit h 0 = bit h' 0" using lo [of 7] bit_beyond_8 [of l] bit_beyond_8 [of l'] by simp
  have "i < 7 \<Longrightarrow> bit h (Suc i) = bit h' (Suc i)" for i using hi [of i] l0 by auto
  then have "h = h'" by (rule byte_eq_by_bits [OF h0])
  moreover have "i < 7 \<Longrightarrow> bit l (Suc i) = bit l' (Suc i)" for i using lo [of i] l0 by auto
  then have "l = l'" by (rule byte_eq_by_bits [OF l0])
  ultimately show ?thesis by (simp add: st)
qed

lemma crc_bits_eq: "(crc8_bit ^^ n) x = (crc8_bit ^^ n) y \<longleftrightarrow> x = y" "(crc16_bit ^^ n) s = (crc16_bit ^^ n) t \<longleftrightarrow> s = t"
proof -
  have "inj crc8_bit" "inj crc16_bit" by (rule injI, erule crc8_bit_inj) (rule injI, erule crc16_bit_inj)
  then show "(crc8_bit ^^ n) x = (crc8_bit ^^ n) y \<longleftrightarrow> x = y" "(crc16_bit ^^ n) s = (crc16_bit ^^ n) t \<longleftrightarrow> s = t"
    by (simp_all add: inj_eq inj_fn)
qed

lemma xor_cancel: "x XOR b = y XOR b \<longleftrightarrow> x = (y :: 8 word)" "b XOR x = b XOR y \<longleftrightarrow> x = (y :: 8 word)"
  by (metis xor.assoc xor_self_eq xor.right_neutral, metis xor.assoc xor_self_eq xor.left_neutral)

interpretation crc8: byte_check crc8_byte
  by unfold_locales (auto simp: crc8_byte_def crc_bits_eq xor_cancel)

interpretation crc16: byte_check crc16_byte
  by unfold_locales (auto simp: crc16_byte_def crc_bits_eq xor_cancel split: prod.splits)

section \<open>Properties\<close>

definition swap_bytes :: "16 word \<Rightarrow> 16 word" where
  "swap_bytes w = push_bit 8 w OR drop_bit 8 w"

lemma bit_bytes16: "i < 16 \<Longrightarrow> bit (bytes16 h l) i = (if i < 8 then bit l i else bit h (i - 8))"
  using bit_imp_le_length [of l i] by (auto simp: bytes16_def bit_simps)

lemma swap_bytes16: "swap_bytes (bytes16 h l) = bytes16 l h"
proof (rule bit_word_eqI)
  fix i assume "i < LENGTH(16)"
  moreover have "bit h (i - 8) \<Longrightarrow> i < 16" using bit_imp_le_length [of h "i - 8"] by simp
  moreover have "bit (bytes16 h l) (i + 8) \<Longrightarrow> i < 8" using bit_imp_le_length [of "bytes16 h l" "i + 8"] by simp
  ultimately show "bit (swap_bytes (bytes16 h l)) i = bit (bytes16 l h) i"
    by (auto simp: swap_bytes_def bit_simps bit_bytes16 add.commute)
qed

lemma bytes16_inj: "bytes16 h l = bytes16 h' l' \<Longrightarrow> h = h' \<and> l = l'"
proof (intro conjI bit_word_eqI)
  assume eq: "bytes16 h l = bytes16 h' l'"
  show "i < LENGTH(8) \<Longrightarrow> bit h i = bit h' i" for i
    using bit_bytes16 [of "i + 8" h l] bit_bytes16 [of "i + 8" h' l'] eq by simp
  show "i < LENGTH(8) \<Longrightarrow> bit l i = bit l' i" for i
    using bit_bytes16 [of i h l] bit_bytes16 [of i h' l'] eq by simp
qed

lemma u8_inj: "u8 a = u8 b \<Longrightarrow> a = b"
  using byte_less [of a] byte_less [of b] byte_eq_iff [of a b]
  by (simp add: u8_def word_eq_iff_unsigned [where ?'a = nat] unsigned_of_nat take_bit_eq_mod [where 'a = nat])

lemma table_swapped: "Get_Crc16 m n = swap_bytes (Crc16 m n)"
proof -
  obtain h l where r: "foldl crc16_byte (0xff, 0xff) (map u8 (take (unat n) m)) = (h, l)" by fastforce
  have "foldl crc_table_byte (0xff, 0xff) (map u8 (take (unat n) m)) = (l, h)"
    using foldl_swap [of "(0xff, 0xff)" "map u8 (take (unat n) m)"] by (simp add: r)
  with r show ?thesis by (simp add: Get_Crc16_def Crc16_def swap_bytes16)
qed

lemma swap_bytes_twice: "swap_bytes (swap_bytes w) = w"
proof -
  have "w = bytes16 (ucast (drop_bit 8 w)) (ucast w)"
    by (rule bit_word_eqI) (auto simp: bit_bytes16 bit_simps)
  then show ?thesis by (metis swap_bytes16)
qed

lemma Crc8_string_prefix: "Crc8_string d = foldl crc8_byte 0 (map u8 (take (length d mod 65536) d))"
  unfolding Crc8_string_def Crc8_def unat_of_nat by simp

text \<open>C28: The table-driven 16-bit checksum is the bit-serial one with its two bytes swapped, for
  every message and every length.\<close>

theorem crc16_table_matches_bits: "Get_Crc16 m n = swap_bytes (Crc16 m n)"
  by (rule table_swapped)

text \<open>C29: A change within one byte of a message always changes all three checksums.\<close>

theorem crc_shows_changed_byte:
  assumes "a \<noteq> b" and "length (xs @ a # ys) < 65536" and "n = of_nat (length (xs @ a # ys))"
  shows "Crc8_string (xs @ a # ys) \<noteq> Crc8_string (xs @ b # ys) \<and>
    Crc16 (xs @ a # ys) n \<noteq> Crc16 (xs @ b # ys) n \<and> Get_Crc16 (xs @ a # ys) n \<noteq> Get_Crc16 (xs @ b # ys) n"
proof -
  have u: "u8 a \<noteq> u8 b" using assms(1) u8_inj by blast
  have n: "unat n = length (xs @ a # ys)" using assms(2) unfolding assms(3) unat_of_nat by simp
  have "Crc8_string (xs @ a # ys) \<noteq> Crc8_string (xs @ b # ys)"
    using crc8.change_shows [OF u, of 0 "map u8 xs" "map u8 ys"] assms(2) by (simp add: Crc8_string_prefix)
  moreover have "Crc16 (xs @ a # ys) n \<noteq> Crc16 (xs @ b # ys) n"
    using crc16.change_shows [OF u, of "(0xff, 0xff)" "map u8 xs" "map u8 ys"] n
    by (auto simp: Crc16_def split: prod.splits dest!: bytes16_inj)
  ultimately show ?thesis unfolding table_swapped by (metis swap_bytes_twice)
qed

theorem crc_shows_changed_byte_witness:
  "Crc8_string ''abc'' \<noteq> Crc8_string ''aXc'' \<and> Crc16 ''abc'' 3 \<noteq> Crc16 ''aXc'' 3 \<and> Get_Crc16 ''abc'' 3 \<noteq> Get_Crc16 ''aXc'' 3"
  using crc_shows_changed_byte [of "CHR ''b''" "CHR ''X''" "''a''" "''c''" 3] by simp

text \<open>The 8-bit checksum of a string covers only \<open>length mod 65536\<close> of its bytes, because the
  length is passed as a \<open>uint16_t\<close>; below that bound a message followed by its checksum has
  checksum zero.\<close>

theorem crc8_length_is_narrowed:
  "Crc8_string data = Crc8_string (take (length data mod 65536) data) \<and>
   (length data < 65535 \<longrightarrow> Crc8_string (data @ [of_byte (unat (Crc8_string data))]) = 0)"
proof -
  have "u8 (of_byte (unat w)) = w" for w
  proof -
    have "unat w < 256" using unsigned_less [of w] by simp
    then show ?thesis by (simp add: u8_def)
  qed
  moreover have "crc8_byte c c = 0" for c
  proof -
    have "(crc8_bit ^^ n) 0 = 0" for n by (induction n) (simp_all add: crc8_bit_def)
    then show ?thesis by (simp add: crc8_byte_def)
  qed
  ultimately show ?thesis by (simp add: Crc8_string_prefix)
qed

theorem crc8_length_is_narrowed_witness: "Crc8_string (''abc'' @ [of_byte (unat (Crc8_string ''abc''))]) = 0"
  using crc8_length_is_narrowed [of "''abc''"] by simp

end
