(* ===== verification/Text.thy ===== *)
theory Text
  imports Hex_Codec Std_Map
begin

text \<open>
  The rest of \<open>utils/strings.h\<close>: splitting, attribute lists, replacing, decimal amounts, paths and
  URLs. Positions are natural numbers, \<open>std::string::npos\<close> is \<open>None\<close>, and where the code computes
  with \<open>npos\<close> the wrap-around of \<open>size_t\<close> is written out. A loop that may run forever is a
  \<open>partial_function\<close>: \<open>None\<close> means that it does not return.

  Proved: splitting and joining are inverse, \<open>FormatDecimal\<close> and \<open>MultiplyDecimal\<close> are inverse on
  positive numbers, \<open>Replace\<close> returns exactly when there is something to look for, and a normalised
  path has no parent directory after the position where \<open>NormalizeUrlPath\<close> starts to look.
\<close>

section \<open>Splitting\<close>

text \<open>\<open>index - last > 0\<close> is unsigned: the rest is always a piece of its own, also when it is empty.\<close>

function split :: "string \<Rightarrow> string \<Rightarrow> string list" where
  "split s delim =
     (let piece = takeWhile (\<lambda>c. c \<notin> set delim) s in
      case dropWhile (\<lambda>c. c \<notin> set delim) s of
        [] \<Rightarrow> [piece]
      | _ # rest \<Rightarrow> piece # split rest delim)"
  by pat_completeness auto
termination
proof (relation "measure (\<lambda>(s, d). length s)")
  fix s delim piece c rest
  assume "dropWhile (\<lambda>c. c \<notin> set delim) s = c # rest"
  then have "length (c # rest) \<le> length s" by (metis length_dropWhile_le)
  then show "((rest, delim), s, delim) \<in> measure (\<lambda>(s, d). length s)" by simp
qed simp

declare split.simps [simp del]

fun add_attribute :: "string list \<Rightarrow> (string, string) smap \<Rightarrow> (string, string) smap" where
  "add_attribute (k # v # _) m = m_emplace k v m"
| "add_attribute [k] m = m_emplace k [] m"
| "add_attribute [] m = m"

definition ParseAttribute :: "string \<Rightarrow> string \<Rightarrow> string \<Rightarrow> (string, string) smap" where
  "ParseAttribute s delim ope = foldl (\<lambda>m part. add_attribute (split part ope) m) [] (split s delim)"

text \<open>\<open>Strtok\<close> with a character: empty pieces are left out, except the last one.\<close>

function strtok_char :: "string \<Rightarrow> char \<Rightarrow> string list" where
  "strtok_char s separator =
     (let piece = takeWhile (\<lambda>c. c \<noteq> separator) s in
      case dropWhile (\<lambda>c. c \<noteq> separator) s of
        [] \<Rightarrow> [piece]
      | _ # rest \<Rightarrow> (if piece \<noteq> [] then [piece] else []) @ strtok_char rest separator)"
  by pat_completeness auto
termination
proof (relation "measure (\<lambda>(s, d). length s)")
  fix s separator piece c rest
  assume "dropWhile (\<lambda>c. c \<noteq> separator) s = c # rest"
  then have "length (c # rest) \<le> length s" by (metis length_dropWhile_le)
  then show "((rest, separator), s, separator) \<in> measure (\<lambda>(s, d). length s)" by simp
qed simp

declare strtok_char.simps [simp del]

definition Strtok_into :: "string \<Rightarrow> char \<Rightarrow> string list \<Rightarrow> int \<times> string list" where
  "Strtok_into str separator arr = (let arr = arr @ strtok_char str separator in (i32 (int (length arr)), arr))"

text \<open>\<open>Strtok\<close> with a string as separator.\<close>

function strtok_loop :: "string \<Rightarrow> string \<Rightarrow> int \<Rightarrow> bool \<Rightarrow> nat \<Rightarrow> nat \<Rightarrow> nat \<Rightarrow> string list" where
  "strtok_loop content key max_items ignore_empty end_pos start_pos item_count =
     (if start_pos < end_pos \<and> key \<noteq> [] then
        (let find_pos = (case str_find content (c_str key) start_pos of
               None \<Rightarrow> end_pos
             | Some p \<Rightarrow> if end_pos \<le> p \<or> (0 < max_items \<and> int item_count = max_items - 1) then end_pos else p)
         in if find_pos < start_pos then []
            else if start_pos < find_pos \<or> \<not> ignore_empty then
              substr content start_pos (find_pos - start_pos) #
              strtok_loop content key max_items ignore_empty end_pos (find_pos + length key) (Suc item_count)
            else strtok_loop content key max_items ignore_empty end_pos (find_pos + length key) item_count)
      else [])"
  by pat_completeness auto
termination
  by (relation "measure (\<lambda>(c, k, m, i, e, s, n). e - s)") (auto simp: length_greater_0_conv [symmetric] simp del: length_greater_0_conv)

declare strtok_loop.simps [simp del]

definition Strtok_key :: "string \<Rightarrow> string \<Rightarrow> int \<Rightarrow> bool \<Rightarrow> nat option \<Rightarrow> string list" where
  "Strtok_key content key max_items ignore_empty content_len =
     (let end_pos = (case content_len of None \<Rightarrow> length content | Some n \<Rightarrow> n);
          end_pos = (if end_pos = 0 \<or> length content \<le> end_pos then length content else end_pos)
      in if key = [] then [] else strtok_loop content key max_items ignore_empty end_pos 0 0)"

definition parse_part :: "string \<Rightarrow> bool \<Rightarrow> bool \<Rightarrow> bool \<Rightarrow> string \<Rightarrow> (string, string) smap \<times> nat \<Rightarrow> (string, string) smap \<times> nat" where
  "parse_part value_key key_low_case trim_key trim_value part al =
     (case al of (attrs, ls) \<Rightarrow>
      let vs = Strtok_key part value_key 2 False None in
      if vs = [] then (attrs, ls)
      else let front = hd vs;
               front = (if key_low_case then ToLower front else front);
               front = (if trim_key then Trim front else front)
           in if length vs < 2 then (m_put front [] attrs, Suc ls)
              else let back = last vs; back = (if trim_value then Trim back else back)
                   in (m_put front back attrs, Suc ls))"

definition ParseAttributes ::
  "string \<Rightarrow> (string, string) smap \<Rightarrow> string \<Rightarrow> string \<Rightarrow> bool \<Rightarrow> bool \<Rightarrow> bool \<Rightarrow> (string, string) smap \<times> nat" where
  "ParseAttributes content attrs sep_key value_key key_low_case trim_key trim_value =
     fold (parse_part value_key key_low_case trim_key trim_value) (Strtok_key content sep_key (-1) False None) (attrs, 0)"

section \<open>Replacing\<close>

partial_function (option) Replace_from :: "string \<Rightarrow> string \<Rightarrow> string \<Rightarrow> nat \<Rightarrow> string option" where
  "Replace_from str search to pos =
     (case str_find str search pos of
        None \<Rightarrow> Some str
      | Some p \<Rightarrow> Replace_from (take p str @ to @ drop (p + length search) str) search to (p + length to))"

definition Replace :: "string \<Rightarrow> string \<Rightarrow> string \<Rightarrow> string option" where
  "Replace str search to = Replace_from str search to 0"

text \<open>\<open>mktime\<close> of year, month, day, hour, minute and second as the code fills them in.\<close>

definition ToTimestamp :: "(int list \<Rightarrow> int) \<Rightarrow> string \<Rightarrow> int option" where
  "ToTimestamp mktime strTime =
     (case Replace strTime '':'' ''-'' of None \<Rightarrow> None | Some t \<Rightarrow>
      case Replace t '' '' ''-'' of None \<Rightarrow> None | Some t \<Rightarrow>
      case Replace t ''/'' ''-'' of None \<Rightarrow> None | Some t \<Rightarrow>
      case Replace t ''.'' ''-'' of None \<Rightarrow> None | Some t \<Rightarrow>
        let (n, nValues) = Strtok_into t (CHR ''-'') [] in
        if n \<noteq> 6 then Some 0
        else Some (mktime [i32 (strtol10 (nValues ! 0)) - 1900, i32 (strtol10 (nValues ! 1)) - 1, i32 (strtol10 (nValues ! 2)),
               i32 (strtol10 (nValues ! 3)), i32 (strtol10 (nValues ! 4)), i32 (strtol10 (nValues ! 5))]))"

section \<open>Decimal amounts\<close>

text \<open>The loop of \<open>FormatDecimal\<close>, over the characters from the back.\<close>

fun format_loop :: "nat \<Rightarrow> nat \<Rightarrow> bool \<Rightarrow> string \<Rightarrow> string \<Rightarrow> string" where
  "format_loop decimal i zero_not_show result_decimal [] = result_decimal"
| "format_loop decimal i zero_not_show result_decimal (c # cs) =
     (let zero_not_show = (if c \<noteq> CHR ''0'' then False else zero_not_show);
          result_decimal =
            (if i < decimal then (if c \<noteq> CHR ''0'' \<or> \<not> zero_not_show then result_decimal @ [c] else result_decimal)
             else if i = decimal then (if result_decimal \<noteq> [] then result_decimal @ ''.'' else result_decimal) @ [c]
             else result_decimal @ [c])
      in format_loop decimal (Suc i) zero_not_show result_decimal cs)"

definition FormatDecimal :: "int \<Rightarrow> nat \<Rightarrow> string" where
  "FormatDecimal number decimal =
     (let result = ToString number;
          result = (if length result \<le> decimal then replicate (decimal - length result + 1) (CHR ''0'') @ result else result)
      in rev (format_loop decimal 0 True [] (rev result)))"

text \<open>\<open>i--\<close> at zero wraps around and \<open>erase\<close> then removes everything.\<close>

definition MultiplyDecimal :: "string \<Rightarrow> nat \<Rightarrow> string" where
  "MultiplyDecimal value decimals =
     (let value =
            (case str_find value ''.'' 0 of
               None \<Rightarrow> value @ replicate decimals (CHR ''0'')
             | Some dot_pos \<Rightarrow>
                 let right = length value - dot_pos - 1;
                     digits = take dot_pos value @ drop (Suc dot_pos) value
                 in if right \<le> decimals then digits @ replicate (decimals - right) (CHR ''0'')
                    else take (dot_pos + decimals) digits @ ''.'' @ drop (dot_pos + decimals) digits);
          i = length (takeWhile (\<lambda>c. c = CHR ''0'') value)
      in if i < length value \<and> value ! i = CHR ''.'' then (if i = 0 then [] else drop (i - 1) value) else drop i value)"

fun one_dot :: "string \<Rightarrow> nat \<Rightarrow> nat option \<Rightarrow> nat option option" where
  "one_dot [] i dot_pos = Some dot_pos"
| "one_dot (c # s) i dot_pos =
     (if \<not> IS_DIGIT c \<and> c \<noteq> CHR ''.'' then None
      else if c = CHR ''.'' then (case dot_pos of None \<Rightarrow> one_dot s (Suc i) (Some i) | Some _ \<Rightarrow> None)
      else one_dot s (Suc i) dot_pos)"

definition IsDecNumber :: "string \<Rightarrow> nat \<Rightarrow> bool" where
  "IsDecNumber value decimal =
     (if value = [] then False
      else if last value = CHR ''.'' then False
      else case one_dot value 0 None of
        None \<Rightarrow> False
      | Some dot_pos \<Rightarrow>
          if hd value = CHR ''0'' \<and> dot_pos \<noteq> Some 1 \<and> value \<noteq> ''0'' then False
          else (case dot_pos of None \<Rightarrow> True | Some d \<Rightarrow> length value - d - 1 \<le> decimal))"

section \<open>Bytes\<close>

definition byte_xor :: "char \<Rightarrow> char \<Rightarrow> char" where
  "byte_xor a b = of_byte (byte a XOR byte b)"

definition string_xor :: "string \<Rightarrow> string \<Rightarrow> string" where
  "string_xor ls rs = (if length ls \<noteq> length rs then ls else map2 byte_xor ls rs)"

definition LessThanXored :: "string \<Rightarrow> string \<Rightarrow> string \<Rightarrow> bool" where
  "LessThanXored l r x =
     (if length l \<noteq> length r \<or> length r \<noteq> length x then False else map2 byte_xor x l < map2 byte_xor x r)"

definition Bin4ToHexString :: "string \<Rightarrow> string" where
  "Bin4ToHexString value = BinToHexString (take 4 value)"

definition Bin2ToHexString :: "string \<Rightarrow> string" where
  "Bin2ToHexString value = BinToHexString (take 2 value)"

definition ArrayToHexString :: "string \<Rightarrow> nat \<Rightarrow> string" where
  "ArrayToHexString array len = BinToHexString (take len array)"

section \<open>Paths\<close>

definition opt_less :: "nat option \<Rightarrow> nat option \<Rightarrow> bool" where
  "opt_less a b = (case a of None \<Rightarrow> False | Some i \<Rightarrow> (case b of None \<Rightarrow> True | Some j \<Rightarrow> i < j))"

text \<open>The condition of the three loops: a mark at or after \<open>nValidPos\<close>, before the query and
  before the anchor. The query and the anchor are searched again after every change.\<close>

definition mark_at :: "string \<Rightarrow> string \<Rightarrow> nat \<Rightarrow> nat option" where
  "mark_at strPath mark nValidPos =
     (let nMarkPos = str_find strPath mark nValidPos in
      if nMarkPos \<noteq> None \<and> opt_less nMarkPos (str_find strPath ''?'' 0) \<and> opt_less nMarkPos (str_find strPath ''#'' 0)
      then nMarkPos else None)"

definition str_erase :: "nat \<Rightarrow> nat \<Rightarrow> string \<Rightarrow> string" where
  "str_erase pos n s = take pos s @ drop (pos + n) s"

lemma mark_length: "take (length mark) (drop p s) = mark \<Longrightarrow> p \<le> length s \<Longrightarrow> p + length mark \<le> length s"
  by (metis add.commute le_diff_conv2 length_drop length_take min.cobounded1)

lemma mark_at_Some:
  "mark_at s mark v = Some p \<Longrightarrow> v \<le> p \<and> p + length mark \<le> length s \<and> take (length mark) (drop p s) = mark"
  using mark_length [of mark p s]
  by (auto simp: mark_at_def str_find_def Let_def has_prefix_def split: if_splits dest!: find_aux_Some)

lemma str_erase_length: "p + n \<le> length s \<Longrightarrow> 0 < n \<Longrightarrow> length (str_erase p n s) < length s"
  by (simp add: str_erase_def)

text \<open>The three loops: \<open>/./\<close> loses two characters, \<open>//\<close> loses one, and for \<open>/../\<close> everything from
  the slash before it (but not before \<open>nValidPos\<close>) is erased.\<close>

function erase_dots :: "nat \<Rightarrow> string \<Rightarrow> int \<Rightarrow> string \<times> int" where
  "erase_dots nValidPos strPath nCount =
     (case mark_at strPath ''/./'' nValidPos of
        None \<Rightarrow> (strPath, nCount)
      | Some nMarkPos \<Rightarrow> erase_dots nValidPos (str_erase nMarkPos 2 strPath) (i32 (nCount + 1)))"
  by pat_completeness auto
termination
  by (relation "measure (\<lambda>(v, s, c). length s)") (auto intro!: str_erase_length dest!: mark_at_Some)

function erase_slashes :: "nat \<Rightarrow> string \<Rightarrow> int \<Rightarrow> string \<times> int" where
  "erase_slashes nValidPos strPath nCount =
     (case mark_at strPath ''//'' nValidPos of
        None \<Rightarrow> (strPath, nCount)
      | Some nMarkPos \<Rightarrow> erase_slashes nValidPos (str_erase nMarkPos 1 strPath) (i32 (nCount + 1)))"
  by pat_completeness auto
termination
  by (relation "measure (\<lambda>(v, s, c). length s)") (auto intro!: str_erase_length dest!: mark_at_Some)

fun slash_before :: "string \<Rightarrow> nat \<Rightarrow> nat \<Rightarrow> nat" where
  "slash_before strPath nValidPos 0 = 0"
| "slash_before strPath nValidPos (Suc n) =
     (if nValidPos < Suc n \<and> strPath ! Suc n \<noteq> CHR ''/'' then slash_before strPath nValidPos n else Suc n)"

definition parent_begin :: "string \<Rightarrow> nat \<Rightarrow> nat \<Rightarrow> nat" where
  "parent_begin strPath nValidPos nMarkPos =
     slash_before strPath nValidPos (if nValidPos < nMarkPos then nMarkPos - 1 else nValidPos)"

lemma slash_before_le: "slash_before s v n \<le> n"
  by (induction n) auto

lemma parent_begin_le: "v \<le> p \<Longrightarrow> parent_begin s v p \<le> p"
  using slash_before_le [of s v "if v < p then p - 1 else v"] by (auto simp: parent_begin_def split: if_splits)

function erase_parents :: "nat \<Rightarrow> string \<Rightarrow> int \<Rightarrow> string \<times> int" where
  "erase_parents nValidPos strPath nCount =
     (case mark_at strPath ''/../'' nValidPos of
        None \<Rightarrow> (strPath, nCount)
      | Some nMarkPos \<Rightarrow>
          let nEndPos = nMarkPos + 4; nBeginPos = parent_begin strPath nValidPos nMarkPos
          in erase_parents nValidPos (str_erase nBeginPos (nEndPos - nBeginPos - 1) strPath) (i32 (nCount + 1)))"
  by pat_completeness auto
termination
proof (relation "measure (\<lambda>(v, s, c). length s)")
  fix v s p e b
  assume "mark_at s ''/../'' v = Some p" and e: "e = p + 4" and b: "b = parent_begin s v p"
  then have "v \<le> p" "p + 4 \<le> length s" by (auto dest!: mark_at_Some)
  moreover from b \<open>v \<le> p\<close> have "b \<le> p" using parent_begin_le by simp
  ultimately show "((v, str_erase b (e - b - 1) s, c), v, s, c') \<in> measure (\<lambda>(v, s, c). length s)" for c c'
    using e by (auto intro!: str_erase_length)
qed simp

declare erase_dots.simps [simp del] erase_slashes.simps [simp del] erase_parents.simps [simp del]

text \<open>Without \<open>://\<close> in the path \<open>nProtocolPos\<close> is \<open>npos\<close>, which is greater than zero, and
  \<open>npos + 3\<close> wraps around to 2.\<close>

definition valid_pos :: "string \<Rightarrow> nat option \<Rightarrow> nat" where
  "valid_pos strPath nProtocolPos =
     (if nProtocolPos = Some 0 then 0
      else let start = (case nProtocolPos of None \<Rightarrow> 2 | Some p \<Rightarrow> p + 3)
           in start + length (takeWhile (\<lambda>c. c \<noteq> CHR ''/'') (drop start strPath)))"

definition NormalizeUrlPath :: "string \<Rightarrow> string \<times> int" where
  "NormalizeUrlPath strPath =
     (let nNameEndPos = str_find strPath ''?'' 0;
          nAnchorPos = str_find strPath ''#'' 0;
          nProtocolPos = str_find strPath ''://'' 0;
          nProtocolPos = (if opt_less nNameEndPos nProtocolPos \<or> opt_less nAnchorPos nProtocolPos then None else nProtocolPos);
          nValidPos = valid_pos strPath nProtocolPos;
          (strPath, nValidPos) =
            (case (nNameEndPos, nProtocolPos) of
               (Some n, Some _) \<Rightarrow>
                 if n < nValidPos then (take n strPath @ ''/'' @ drop n strPath, n) else (strPath, nValidPos)
             | _ \<Rightarrow> (strPath, nValidPos));
          (strPath, nCount) = erase_dots nValidPos strPath 0;
          (strPath, nCount) = erase_slashes nValidPos strPath nCount
      in erase_parents nValidPos strPath nCount)"

record Url =
  strProtocol :: string
  strHost :: string
  nPort :: nat
  strPath :: string
  strFile :: string

definition isalnum :: "char \<Rightarrow> bool" where
  "isalnum c \<longleftrightarrow> IS_DIGIT c \<or> CharIsLetter c"

text \<open>The protocol and the position of the host.\<close>

definition url_protocol :: "string \<Rightarrow> string \<times> nat" where
  "url_protocol strUrl =
     (case str_find strUrl '':'' 0 of
        None \<Rightarrow> ([], 0)
      | Some nProtocolPos \<Rightarrow>
          if list_all isalnum (take nProtocolPos strUrl)
          then (ToLower (take nProtocolPos strUrl),
                nProtocolPos + 1 + length (takeWhile (\<lambda>c. c = CHR ''/'') (drop (nProtocolPos + 1) strUrl)))
          else ([], 0))"

definition ParseUrl :: "string \<Rightarrow> Url" where
  "ParseUrl strUrl =
     (let (protocol, nHostPos) = url_protocol strUrl;
          nPortFindPos = (case str_find strUrl '']'' nHostPos of None \<Rightarrow> nHostPos | Some p \<Rightarrow> p);
          nPortPos = str_find strUrl '':'' nPortFindPos;
          nPathPos = str_find strUrl ''/'' nHostPos;
          nPortPos = (if opt_less nPathPos nPortPos then None else nPortPos);
          (host, port) =
            (case nPortPos of
               None \<Rightarrow> ([], 0)
             | Some p \<Rightarrow> (substr strUrl nHostPos (p - nHostPos), Stoui (drop (p + 1) strUrl) mod 2 ^ 16));
          (file, rest) =
            (case nPathPos of
               None \<Rightarrow> (''/'', drop nHostPos strUrl)
             | Some p \<Rightarrow> (drop p strUrl, substr strUrl nHostPos (p - nHostPos)));
          host = (if host = [] then rest else host);
          nFilePos = rfind_char (CHR ''/'') (case str_find file ''?'' 0 of None \<Rightarrow> file | Some q \<Rightarrow> take (q + 1) file);
          path = (case nFilePos of None \<Rightarrow> ''/'' | Some n \<Rightarrow> if n = 0 then ''/'' else take n file);
          path = (if path = [] \<or> last path \<noteq> CHR ''/'' then path @ ''/'' else path)
      in \<lparr>strProtocol = protocol, strHost = host, nPort = port,
          strPath = fst (NormalizeUrlPath path), strFile = fst (NormalizeUrlPath file)\<rparr>)"

section \<open>Searching for one character\<close>

lemma find_aux_char:
  "find_aux [c] s i = (if c \<in> set s then Some (i + length (takeWhile (\<lambda>x. x \<noteq> c) s)) else None)"
  by (induction s arbitrary: i) (auto simp: has_prefix_def)

lemma str_find_char:
  "str_find s [c] 0 = (if c \<in> set s then Some (length (takeWhile (\<lambda>x. x \<noteq> c) s)) else None)"
  by (simp add: str_find_def find_aux_char)

section \<open>Decimal amounts are read back\<close>

lemma format_fraction_shown:
  "i + length cs \<le> d \<Longrightarrow> format_loop d i False res (cs @ rest) = format_loop d (i + length cs) False (res @ cs) rest"
  by (induction cs arbitrary: i res) simp_all

lemma format_fraction:
  "i + length cs \<le> d \<Longrightarrow>
   \<exists>z. format_loop d i True [] (cs @ rest) = format_loop d (i + length cs) z (dropWhile (\<lambda>c. c = CHR ''0'') cs) rest"
proof (induction cs arbitrary: i)
  case (Cons c cs)
  then have le: "Suc i + length cs \<le> d" by simp
  show ?case
  proof (cases "c = CHR ''0''")
    case True
    then show ?thesis using Cons.IH [OF le] Cons.prems by simp
  next
    case False
    then show ?thesis using format_fraction_shown [OF le, of "[c]" rest] Cons.prems by auto
  qed
qed auto

lemma format_whole_rest: "d < i \<Longrightarrow> format_loop d i z res cs = res @ cs"
  by (induction cs arbitrary: i z res) simp_all

lemma format_whole:
  "cs \<noteq> [] \<Longrightarrow> format_loop d d z res cs = (if res \<noteq> [] then res @ ''.'' else res) @ cs"
  by (cases cs) (simp_all add: format_whole_rest)

lemma format_digits:
  assumes "cs \<noteq> []" and "length frac = d"
  shows "rev (format_loop d 0 True [] (rev (cs @ frac))) =
    (let shown = rev (dropWhile (\<lambda>c. c = CHR ''0'') (rev frac)) in if shown = [] then cs else cs @ ''.'' @ shown)"
proof -
  obtain z where "format_loop d 0 True [] (rev frac @ rev cs) =
      format_loop d d z (dropWhile (\<lambda>c. c = CHR ''0'') (rev frac)) (rev cs)"
    using format_fraction [of 0 "rev frac" d "rev cs"] assms(2) by auto
  then show ?thesis using assms(1) by (simp add: format_whole Let_def)
qed

lemma zeros_dropped:
  "rev (dropWhile (\<lambda>c. c = z) (rev s)) @ replicate (length s - length (dropWhile (\<lambda>c. c = z) (rev s))) z = s"
proof -
  have "replicate (length (takeWhile (\<lambda>c. c = z) (rev s))) z = takeWhile (\<lambda>c. c = z) (rev s)"
    by (rule replicate_length_same) (auto dest: set_takeWhileD)
  moreover have "length s - length (dropWhile (\<lambda>c. c = z) (rev s)) = length (takeWhile (\<lambda>c. c = z) (rev s))"
    by (metis add_diff_cancel_right' length_append length_rev takeWhile_dropWhile_id)
  moreover have "s = rev (dropWhile (\<lambda>c. c = z) (rev s)) @ rev (takeWhile (\<lambda>c. c = z) (rev s))"
    by (metis rev_append rev_rev_ident takeWhile_dropWhile_id)
  ultimately show ?thesis by (metis rev_replicate)
qed

lemma dot_digit: "CHR ''.'' \<noteq> CHR ''0''" "\<not> IS_DIGIT (CHR ''.'')"
  by (simp_all add: IS_DIGIT_def in_range_def byte_def)

lemma zero_digit: "IS_DIGIT (CHR ''0'')"
  by (simp add: IS_DIGIT_def in_range_def byte_def)

lemma digits_no_dot: "\<forall>c \<in> set s. IS_DIGIT c \<Longrightarrow> CHR ''.'' \<notin> set s"
  using dot_digit(2) by auto

lemma multiply_strip:
  assumes "CHR ''.'' \<notin> set v"
  shows "(let i = length (takeWhile (\<lambda>c. c = CHR ''0'') v)
      in if i < length v \<and> v ! i = CHR ''.'' then (if i = 0 then [] else drop (i - 1) v) else drop i v) =
    dropWhile (\<lambda>c. c = CHR ''0'') v"
proof -
  have no: "(i < length v \<and> v ! i = CHR ''.'') = False" for i using assms nth_mem by metis
  show ?thesis by (simp only: Let_def no if_False dropWhile_eq_drop)
qed

lemma multiply_whole:
  assumes "CHR ''.'' \<notin> set cs"
  shows "MultiplyDecimal cs d = dropWhile (\<lambda>c. c = CHR ''0'') (cs @ replicate d (CHR ''0''))"
  using multiply_strip [of "cs @ replicate d (CHR ''0'')"] assms
  by (simp add: MultiplyDecimal_def str_find_char dot_digit)

lemma multiply_fraction:
  assumes "CHR ''.'' \<notin> set cs" and "CHR ''.'' \<notin> set frac" and "length frac \<le> d"
  shows "MultiplyDecimal (cs @ ''.'' @ frac) d =
    dropWhile (\<lambda>c. c = CHR ''0'') (cs @ frac @ replicate (d - length frac) (CHR ''0''))"
proof -
  have "takeWhile (\<lambda>x. x \<noteq> CHR ''.'') (cs @ ''.'' @ frac) = cs" using assms(1) by (auto simp: takeWhile_append)
  then show ?thesis
    using multiply_strip [of "cs @ frac @ replicate (d - length frac) (CHR ''0'')"] assms
    by (simp add: MultiplyDecimal_def str_find_char dot_digit)
qed

lemma one_dot_digits: "\<forall>c \<in> set s. IS_DIGIT c \<Longrightarrow> one_dot s i dp = Some dp"
  using dot_digit(2) by (induction s arbitrary: i) auto

lemma one_dot_at:
  "\<forall>c \<in> set s. IS_DIGIT c \<Longrightarrow> \<forall>c \<in> set t. IS_DIGIT c \<Longrightarrow> one_dot (s @ ''.'' @ t) i None = Some (Some (i + length s))"
  using dot_digit(2) by (induction s arbitrary: i) (auto simp: one_dot_digits)

lemma dec_nat_leading: "0 < n \<Longrightarrow> hd (dec_nat n) \<noteq> CHR ''0''"
proof (induction n rule: dec_nat.induct)
  case (1 n)
  show ?case
  proof (cases "n < 10")
    case True
    then have "byte (digit_char n) = 48 + n" by (rule digit_char_props)
    then have "digit_char n \<noteq> CHR ''0''" using 1(2) by (auto simp: byte_def)
    with True show ?thesis by (subst dec_nat.simps) simp
  next
    case False
    then have "hd (dec_nat (n div 10)) \<noteq> CHR ''0''" using 1 by simp
    with False show ?thesis by (subst dec_nat.simps) (simp add: dec_nat_not_Nil)
  qed
qed

lemma decimal_split:
  assumes "0 < n"
  obtains cs frac where
    "FormatDecimal n d = (let shown = rev (dropWhile (\<lambda>c. c = CHR ''0'') (rev frac)) in if shown = [] then cs else cs @ ''.'' @ shown)"
    "cs \<noteq> []" "length frac = d" "dropWhile (\<lambda>c. c = CHR ''0'') (cs @ frac) = ToString n"
    "\<forall>c \<in> set (cs @ frac). IS_DIGIT c" "hd cs = CHR ''0'' \<longrightarrow> cs = ''0''"
proof -
  let ?s = "dec_nat (nat n)"
  let ?z = "if length ?s \<le> d then d - length ?s + 1 else 0"
  let ?p = "replicate ?z (CHR ''0'') @ ?s"
  let ?w = "length ?p - d"
  have s: "ToString n = ?s" and lead: "hd ?s \<noteq> CHR ''0''" "?s \<noteq> []"
    using assms dec_nat_leading [of "nat n"] by (simp_all add: ToString_def dec_nat_not_Nil)
  have digits: "\<forall>c \<in> set (take ?w ?p @ drop ?w ?p). IS_DIGIT c"
    using dec_nat_digits [of "nat n"] zero_digit by (simp only: append_take_drop_id) auto
  have format: "FormatDecimal n d = rev (format_loop d 0 True [] (rev (take ?w ?p @ drop ?w ?p)))"
    unfolding FormatDecimal_def Let_def s append_take_drop_id by (simp add: replicate_append_same)
  have long: "d < length ?p" by auto
  have split_at: "d < length xs \<Longrightarrow> take (length xs - d) xs \<noteq> [] \<and> length (drop (length xs - d) xs) = d" for xs :: string
    by (cases xs) auto
  from split_at [OF long] have ne: "take ?w ?p \<noteq> []" and len: "length (drop ?w ?p) = d" by blast+
  have one: "take ?w ?p = ''0''" if "hd (take ?w ?p) = CHR ''0''"
  proof (cases "length ?s \<le> d")
    case True
    then have "?w = 1" by simp
    with True show ?thesis by simp
  next
    case False
    then show ?thesis using that lead by (simp add: hd_take)
  qed
  have "dropWhile (\<lambda>c. c = CHR ''0'') ?p = ?s"
    using lead by (cases ?s) (simp_all add: dropWhile_append)
  then have strip: "dropWhile (\<lambda>c. c = CHR ''0'') (take ?w ?p @ drop ?w ?p) = ToString n"
    unfolding append_take_drop_id s .
  show ?thesis
    by (rule that [OF format [unfolded format_digits [OF ne len]] ne len strip digits]) (blast intro: one)
qed

lemma decimal_amount:
  assumes "0 < n"
  shows "MultiplyDecimal (FormatDecimal n d) d = ToString n \<and> IsDecNumber (FormatDecimal n d) d"
proof -
  obtain cs frac where
    f: "FormatDecimal n d = (let shown = rev (dropWhile (\<lambda>c. c = CHR ''0'') (rev frac)) in if shown = [] then cs else cs @ ''.'' @ shown)"
    and ne: "cs \<noteq> []" and len: "length frac = d" and strip: "dropWhile (\<lambda>c. c = CHR ''0'') (cs @ frac) = ToString n"
    and digits: "\<forall>c \<in> set (cs @ frac). IS_DIGIT c" and lead: "hd cs = CHR ''0'' \<longrightarrow> cs = ''0''"
    using decimal_split [OF assms, of d] by blast
  define shown where "shown = rev (dropWhile (\<lambda>c. c = CHR ''0'') (rev frac))"
  have short: "length shown \<le> d" using len by (simp add: shown_def) (metis length_dropWhile_le length_rev)
  have refill: "shown @ replicate (d - length shown) (CHR ''0'') = frac"
    using zeros_dropped [of "CHR ''0''" frac] len by (simp add: shown_def)
  have dig: "\<forall>c \<in> set cs. IS_DIGIT c" "\<forall>c \<in> set shown. IS_DIGIT c"
    using digits by (auto simp: shown_def dest: set_dropWhileD)
  note nodot = digits_no_dot [OF dig(1)] digits_no_dot [OF dig(2)]
  show ?thesis
  proof (cases "shown = []")
    case True
    then have eq: "FormatDecimal n d = cs" and zeros: "frac = replicate d (CHR ''0'')"
      using f refill by (simp_all add: shown_def [symmetric])
    have last_dot: "last cs \<noteq> CHR ''.''" using nodot(1) last_in_set [OF ne] by metis
    have "hd cs \<noteq> CHR ''0''"
      using lead strip zeros ToString_not_Nil [of n] by (auto simp: dropWhile_append)
    then show ?thesis
      using zeros strip nodot dig(1) ne last_dot unfolding eq
      by (auto simp: multiply_whole IsDecNumber_def one_dot_digits)
  next
    case False
    then have eq: "FormatDecimal n d = cs @ ''.'' @ shown" using f by (simp add: shown_def [symmetric] Let_def)
    have "last shown \<noteq> CHR ''.''" using nodot(2) last_in_set [OF False] by metis
    moreover have "hd cs = CHR ''0'' \<Longrightarrow> length cs = 1" using lead by fastforce
    ultimately have "IsDecNumber (cs @ ''.'' @ shown) d"
      using one_dot_at [OF dig, of 0] ne False short by (simp add: IsDecNumber_def)
    moreover have "MultiplyDecimal (cs @ ''.'' @ shown) d = ToString n"
      using multiply_fraction [OF nodot short] refill strip by simp
    ultimately show ?thesis using eq by simp
  qed
qed


section \<open>\<open>Replace\<close> and its specification\<close>

text \<open>Replacing from left to right, as a function on the text.\<close>

function replaced :: "string \<Rightarrow> string \<Rightarrow> string \<Rightarrow> string" where
  "replaced search to [] = []"
| "replaced search to (c # s) =
     (if search \<noteq> [] \<and> has_prefix search (c # s) then to @ replaced search to (drop (length search) (c # s))
      else c # replaced search to s)"
  by pat_completeness auto
termination by (relation "measure (\<lambda>(a, b, s). length s)") (auto simp: length_greater_0_conv [symmetric] simp del: length_greater_0_conv)

lemma replaced_no_match: "search \<noteq> [] \<Longrightarrow> find_aux search s i = None \<Longrightarrow> replaced search to s = s"
  by (induction search s i rule: find_aux.induct) (auto split: if_splits)

lemma replaced_match:
  "search \<noteq> [] \<Longrightarrow> find_aux search s i = Some p \<Longrightarrow>
   replaced search to s = take (p - i) s @ to @ replaced search to (drop (p - i + length search) s)"
proof (induction search s i rule: find_aux.induct)
  case (2 sub c s i)
  show ?case
  proof (cases "has_prefix sub (c # s)")
    case True
    then show ?thesis using 2 by simp
  next
    case False
    then have f: "find_aux sub s (Suc i) = Some p" using 2 by simp
    then have "Suc i \<le> p" using find_aux_Some [OF f] by simp
    then have "p - i = Suc (p - Suc i)" by simp
    then show ?thesis using 2(1) [OF False 2(2) f] False by simp
  qed
qed simp

lemma Replace_from_spec:
  "search \<noteq> [] \<Longrightarrow> pos \<le> length str \<Longrightarrow>
   Replace_from str search to pos = Some (take pos str @ replaced search to (drop pos str))"
proof (induction "length str - pos" arbitrary: str pos rule: less_induct)
  case less
  show ?case
  proof (cases "str_find str search pos")
    case None
    then have "find_aux search (drop pos str) pos = None" using less.prems by (simp add: str_find_def)
    then show ?thesis
      using None less.prems replaced_no_match by (subst Replace_from.simps) simp
  next
    case (Some p)
    then have f: "find_aux search (drop pos str) pos = Some p" using less.prems by (simp add: str_find_def)
    have p: "pos \<le> p" "p + length search \<le> length str"
      using find_aux_Some [OF f] mark_length [of search p str] less.prems(2) by (auto simp: has_prefix_def)
    let ?str = "take p str @ to @ drop (p + length search) str"
    have "length ?str - (p + length to) < length str - pos" using p less.prems(1) by (cases search) auto
    then have "Replace_from ?str search to (p + length to) =
        Some (take (p + length to) ?str @ replaced search to (drop (p + length to) ?str))"
      by (rule less.hyps) (use less.prems p in auto)
    then have "Replace_from ?str search to (p + length to) =
        Some (take p str @ to @ replaced search to (drop (p + length search) str))"
      using p by simp
    moreover have "take p str = take pos str @ take (p - pos) (drop pos str)"
      using p by (metis le_add_diff_inverse take_add)
    ultimately show ?thesis
      using Some replaced_match [OF less.prems(1) f, of to] p by (subst Replace_from.simps) (simp add: add.commute)
  qed
qed

lemma Replace_from_empty:
  assumes "Replace_from str search to pos = Some y"
  shows "search = [] \<Longrightarrow> length str < pos"
  using assms
proof (induction rule: Replace_from.raw_induct [rotated 1, consumes 1, case_names step])
  case (step rec str search to pos y)
  show ?case
  proof (rule ccontr)
    assume le: "\<not> length str < pos"
    then have "str_find str search pos = Some pos"
      using step.prems by (cases "drop pos str") (auto simp: str_find_def has_prefix_def)
    then have "rec (take pos str @ to @ drop pos str) search to (pos + length to) = Some y"
      using step.hyps step.prems by simp
    then show False using step.IH step.prems le by fastforce
  qed
qed

lemma replace_spec:
  "Replace str search to = (if search = [] then None else Some (replaced search to str))"
proof (cases "search = []")
  case True
  then show ?thesis using Replace_from_empty [of str search to 0] by (cases "Replace_from str search to 0") (auto simp: Replace_def)
next
  case False
  then show ?thesis by (simp add: Replace_def Replace_from_spec)
qed

section \<open>Normalised paths\<close>

lemma erase_parents_done: "mark_at (fst (erase_parents v s c)) ''/../'' v = None"
proof (induction v s c rule: erase_parents.induct)
  case (1 v s c)
  then show ?case
    by (subst erase_parents.simps) (simp add: Let_def split: option.splits)
qed

lemma set_str_erase: "set (str_erase p n s) \<subseteq> set s"
  by (auto simp: str_erase_def dest: in_set_takeD in_set_dropD)

lemma take_str_erase: "v \<le> p \<Longrightarrow> take v (str_erase p n s) = take v s"
  by (cases "p \<le> length s") (auto simp: str_erase_def min_def)

lemma slash_before_ge: "v \<le> n \<Longrightarrow> v \<le> slash_before s v n"
  by (induction n) auto

lemma parent_begin_ge: "v \<le> parent_begin s v p"
  by (auto simp: parent_begin_def intro: slash_before_ge)

lemma erase_dots_keeps: "set (fst (erase_dots v s c)) \<subseteq> set s \<and> take v (fst (erase_dots v s c)) = take v s"
proof (induction v s c rule: erase_dots.induct)
  case (1 v s c)
  then show ?case
    using set_str_erase take_str_erase
    by (subst (1 2) erase_dots.simps) (fastforce split: option.splits dest!: mark_at_Some)
qed

lemma erase_slashes_keeps: "set (fst (erase_slashes v s c)) \<subseteq> set s \<and> take v (fst (erase_slashes v s c)) = take v s"
proof (induction v s c rule: erase_slashes.induct)
  case (1 v s c)
  then show ?case
    using set_str_erase take_str_erase
    by (subst (1 2) erase_slashes.simps) (fastforce split: option.splits dest!: mark_at_Some)
qed

lemma erase_parents_keeps: "set (fst (erase_parents v s c)) \<subseteq> set s \<and> take v (fst (erase_parents v s c)) = take v s"
proof (induction v s c rule: erase_parents.induct)
  case (1 v s c)
  then show ?case
    using set_str_erase take_str_erase parent_begin_ge
    by (subst (1 2) erase_parents.simps) (fastforce simp: Let_def split: option.splits dest!: mark_at_Some)
qed

lemma normalized_path:
  assumes "CHR ''?'' \<notin> set s" "CHR ''#'' \<notin> set s" "str_find s ''://'' 0 = None"
  shows "str_find (fst (NormalizeUrlPath s)) ''/../'' (valid_pos s None) = None \<and>
         take (valid_pos s None) (fst (NormalizeUrlPath s)) = take (valid_pos s None) s"
proof -
  let ?v = "valid_pos s None"
  let ?d = "erase_dots ?v s 0"
  let ?e = "erase_slashes ?v (fst ?d) (snd ?d)"
  let ?p = "erase_parents ?v (fst ?e) (snd ?e)"
  have eq: "NormalizeUrlPath s = ?p"
    using assms by (simp add: NormalizeUrlPath_def str_find_char opt_less_def Let_def split_beta)
  have keep: "set (fst ?p) \<subseteq> set s" "take ?v (fst ?p) = take ?v s"
    using erase_dots_keeps [of ?v s 0] erase_slashes_keeps [of ?v "fst ?d" "snd ?d"]
      erase_parents_keeps [of ?v "fst ?e" "snd ?e"] by auto
  then have "str_find (fst ?p) ''?'' 0 = None" "str_find (fst ?p) ''#'' 0 = None"
    using assms by (auto simp: str_find_char)
  moreover have "mark_at (fst ?p) ''/../'' ?v = None" by (rule erase_parents_done)
  ultimately show ?thesis
    using keep unfolding eq by (simp add: mark_at_def opt_less_def Let_def split: if_splits option.splits)
qed

text \<open>The position \<open>nValidPos\<close> starts at 2, so a parent directory at the very front is kept.\<close>

lemma leading_parent_is_kept: "NormalizeUrlPath ''/../etc'' = (''/../etc'', 0)"
  by code_simp

section \<open>Splitting and joining\<close>

fun join_with :: "char \<Rightarrow> string list \<Rightarrow> string" where
  "join_with d [] = []"
| "join_with d [s] = s"
| "join_with d (s # t # ss) = s @ d # join_with d (t # ss)"

lemma split_not_Nil: "split s d \<noteq> []"
  by (subst split.simps) (simp add: Let_def split: list.splits)

lemma split_single:
  assumes "d \<notin> set s"
  shows "split s [d] = [s]"
proof -
  have "takeWhile (\<lambda>c. c \<notin> set [d]) s = s" "dropWhile (\<lambda>c. c \<notin> set [d]) s = []"
    using assms by (auto simp: takeWhile_eq_all_conv dropWhile_eq_Nil_conv)
  then show ?thesis by (subst split.simps) (simp only: Let_def list.case)
qed

lemma split_step:
  assumes "dropWhile (\<lambda>c. c \<notin> set [d]) s = c # rest"
  shows "split s [d] = takeWhile (\<lambda>c. c \<notin> set [d]) s # split rest [d]"
  using assms by (subst split.simps) (simp only: Let_def list.case)

lemma join_split: "join_with d (split s [d]) = s"
proof (induction s "[d]" rule: split.induct)
  case (1 s)
  show ?case
  proof (cases "dropWhile (\<lambda>c. c \<notin> set [d]) s")
    case Nil
    then have "d \<notin> set s" by (auto simp: dropWhile_eq_Nil_conv)
    then show ?thesis by (simp add: split_single)
  next
    case (Cons c rest)
    then have "c = d" using hd_dropWhile [of "\<lambda>c. c \<notin> set [d]" s] by auto
    moreover have "join_with d (split rest [d]) = rest" using 1 Cons by blast
    moreover obtain t ts where "split rest [d] = t # ts" using split_not_Nil by (cases "split rest [d]") blast+
    moreover have "takeWhile (\<lambda>c. c \<notin> set [d]) s @ c # rest = s" using Cons by (metis takeWhile_dropWhile_id)
    ultimately show ?thesis by (simp add: split_step [OF Cons])
  qed
qed

lemma split_join:
  "ss \<noteq> [] \<Longrightarrow> \<forall>s \<in> set ss. d \<notin> set s \<Longrightarrow> split (join_with d ss) [d] = ss"
proof (induction d ss rule: join_with.induct)
  case (2 d s)
  then show ?case by (simp add: split_single)
next
  case (3 d s t ss)
  then have "takeWhile (\<lambda>c. c \<notin> set [d]) (s @ d # join_with d (t # ss)) = s"
    "dropWhile (\<lambda>c. c \<notin> set [d]) (s @ d # join_with d (t # ss)) = d # join_with d (t # ss)"
    by (auto simp: takeWhile_append dropWhile_append)
  with 3 split_step [OF this(2)] show ?case by simp
qed simp

lemma zero_amount_is_lost: "FormatDecimal 0 2 = ''0'' \<and> MultiplyDecimal ''0'' 2 = []"
  by code_simp

text \<open>C36: A positive amount printed with \<open>FormatDecimal\<close> is a decimal number for \<open>IsDecNumber\<close>, and
  \<open>MultiplyDecimal\<close> gives back the digits of the amount, whatever the number of decimals.\<close>

theorem decimal_amount_is_read_back:
  assumes "0 < n"
  shows "MultiplyDecimal (FormatDecimal n d) d = ToString n \<and> IsDecNumber (FormatDecimal n d) d"
  using assms by (rule decimal_amount)

theorem decimal_amount_is_read_back_witness:
  "MultiplyDecimal (FormatDecimal 1050 3) 3 = ToString 1050 \<and> IsDecNumber (FormatDecimal 1050 3) 3"
  using decimal_amount_is_read_back [of 1050 3] by simp

text \<open>C37: \<open>Replace\<close> returns exactly when there is something to look for, and then with the text in which
  the occurrences found from left to right are replaced; with an empty search text the loop never
  ends.\<close>

theorem replace_returns_iff_search_is_not_empty:
  "Replace str search to = (if search = [] then None else Some (replaced search to str))"
  by (rule replace_spec)

end
