(* ===== verification/Socket_Adapter.thy ===== *)
theory Socket_Adapter
  imports General Std_Map "HOL-Library.Multiset"
begin

text \<open>
  \<open>common/network_adapter.cpp\<close>: the objects that wrap the websocket library. The connection
  objects live on an explicit heap, since the tables hold raw pointers to them: \<open>new\<close> takes the
  next address, \<open>delete\<close> frees one, and reading a freed address or freeing it twice is a fault.
  A closed connection is not deleted at once but put into a table of delayed deletions, keyed by
  the time at which the timer may delete it.

  The websocket library (websocketpp) is the record \<open>ws_lib\<close>: each call is answered from the
  list of the calls before it. The server and the client have the same members; \<open>side\<close> selects
  them. Locks are left out: every operation runs under its lock from start to end.

  Proved: the tables own every pointer they hold, no operation reads or deletes a dead object,
  and an object is lost exactly when two connections of a side are closed at the same time.
\<close>

section \<open>The library and the state\<close>

type_synonym hdl = nat   \<comment> \<open>\<open>websocketpp::connection_hdl\<close>\<close>
type_synonym ptr = nat

datatype side = Server | Client

datatype net_io =
    ClockNow
  | GetConFromHdl hdl
  | GetConnectionTo string
  | WsSend side hdl string
  | WsClose side hdl string
  | WsPauseReading hdl
  | WsConnect hdl
  | WsListen string
  | WsStartAccept

record ws_lib =
  ws_clock :: "net_io list \<Rightarrow> int"
  ws_answer :: "net_io list \<Rightarrow> net_io \<Rightarrow> int \<times> string"   \<comment> \<open>value and message of the error code\<close>
  ws_new_hdl :: "net_io list \<Rightarrow> string \<Rightarrow> hdl option"
  ws_local_port :: "net_io list \<Rightarrow> nat"
  ws_remote :: "bool \<Rightarrow> hdl \<Rightarrow> string"                       \<comment> \<open>address of the peer as text\<close>

record WssConnection =
  wc_id :: int
  wc_client :: bool          \<comment> \<open>\<open>c_con_\<close> is set; otherwise \<open>s_con_\<close> is\<close>
  wc_hdl :: hdl
  wc_uri :: string

record adapter =
  server_conns :: "(int, ptr) smap"
  server_delay_delete_conns :: "(int, ptr) smap"
  client_conns :: "(int, ptr) smap"
  client_delay_delete_conns :: "(int, ptr) smap"
  hdl_to_ids :: "(hdl, int) smap"
  g_id :: int
  conn_heap :: "ptr \<Rightarrow> WssConnection option"
  next_ptr :: ptr
  net_trace :: "net_io list"

fun conns :: "side \<Rightarrow> 'z adapter_scheme \<Rightarrow> (int, ptr) smap" where
  "conns Server a = server_conns a"
| "conns Client a = client_conns a"

fun set_conns :: "side \<Rightarrow> (int, ptr) smap \<Rightarrow> 'z adapter_scheme \<Rightarrow> 'z adapter_scheme" where
  "set_conns Server m a = a\<lparr>server_conns := m\<rparr>"
| "set_conns Client m a = a\<lparr>client_conns := m\<rparr>"

fun delayed :: "side \<Rightarrow> 'z adapter_scheme \<Rightarrow> (int, ptr) smap" where
  "delayed Server a = server_delay_delete_conns a"
| "delayed Client a = client_delay_delete_conns a"

fun set_delayed :: "side \<Rightarrow> (int, ptr) smap \<Rightarrow> 'z adapter_scheme \<Rightarrow> 'z adapter_scheme" where
  "set_delayed Server m a = a\<lparr>server_delay_delete_conns := m\<rparr>"
| "set_delayed Client m a = a\<lparr>client_delay_delete_conns := m\<rparr>"

definition net_log :: "net_io \<Rightarrow> 'z adapter_scheme \<Rightarrow> 'z adapter_scheme" where
  "net_log io a = a\<lparr>net_trace := net_trace a @ [io]\<rparr>"

definition net_now :: "ws_lib \<Rightarrow> (int, 'z adapter_scheme) prog" where
  "net_now L = (\<lambda>a. Done (ws_clock L (net_trace a)) (net_log ClockNow a))"

text \<open>A call of the library; its error code goes into a \<open>Result\<close>.\<close>

definition ws_call :: "ws_lib \<Rightarrow> net_io \<Rightarrow> Result \<Rightarrow> (Result, 'z adapter_scheme) prog" where
  "ws_call L io ec =
     (\<lambda>a. case ws_answer L (net_trace a) io of (v, msg) \<Rightarrow> Done (set_desc msg (set_code v ec)) (net_log io a))"

section \<open>The heap of connection objects\<close>

definition new_conn :: "bool \<Rightarrow> hdl \<Rightarrow> string \<Rightarrow> (ptr \<times> int, 'z adapter_scheme) prog" where
  "new_conn client h uri =
     andThen (read_state g_id) (\<lambda>i.
     andThen (add64 i 1) (\<lambda>next.
     andThen (read_state next_ptr) (\<lambda>p.
     andThen (change (\<lambda>a. a\<lparr>g_id := next, next_ptr := Suc p,
        conn_heap := (conn_heap a)(p \<mapsto> \<lparr>wc_id = i, wc_client = client, wc_hdl = h, wc_uri = uri\<rparr>)\<rparr>)) (\<lambda>_.
     ret (p, i)))))"

definition deref :: "ptr \<Rightarrow> (WssConnection, 'z adapter_scheme) prog" where
  "deref p = andThen (read_state (\<lambda>a. conn_heap a p)) (\<lambda>c. orFault UseAfterFree c)"

definition delete_conn :: "ptr \<Rightarrow> (unit, 'z adapter_scheme) prog" where
  "delete_conn p = andThen (deref p) (\<lambda>_. change (\<lambda>a. a\<lparr>conn_heap := (conn_heap a)(p := None)\<rparr>))"

text \<open>\<open>WssConnection::GetConnRemoteAddr\<close> and \<open>GetError\<close>.\<close>

definition GetConnRemoteAddr :: "ws_lib \<Rightarrow> ptr \<Rightarrow> (string, 'z adapter_scheme) prog" where
  "GetConnRemoteAddr L p = andThen (deref p) (\<lambda>c. ret (ws_remote L (wc_client c) (wc_hdl c)))"

definition GetHandle :: "ptr \<Rightarrow> (int, 'z adapter_scheme) prog" where
  "GetHandle p = andThen (deref p) (\<lambda>c. ret (wc_id c))"

section \<open>Operations of both sides\<close>

definition GetConnectFromHandle :: "side \<Rightarrow> int \<Rightarrow> 'z adapter_scheme \<Rightarrow> ptr option" where
  "GetConnectFromHandle s handle a = map_of (conns s a) handle"

definition close_conn :: "ws_lib \<Rightarrow> side \<Rightarrow> int \<Rightarrow> int \<Rightarrow> string \<Rightarrow> Result \<Rightarrow> (bool \<times> Result, 'z adapter_scheme) prog" where
  "close_conn L s delay handle reason ec =
     andThen (read_state (GetConnectFromHandle s handle)) (\<lambda>iter.
     case iter of
       None \<Rightarrow> ret (False, ec)
     | Some p \<Rightarrow>
         andThen (deref p) (\<lambda>wss_con.
         andThen (ws_call L (WsClose s (wc_hdl wss_con) reason) ec) (\<lambda>ec.
         andThen (net_now L) (\<lambda>now.
         andThen (add64 now delay) (\<lambda>time.
         andThen (change (\<lambda>a. set_delayed s (m_emplace time p (delayed s a)) a)) (\<lambda>_.
         andThen (change (\<lambda>a. set_conns s (m_erase handle (conns s a)) a)) (\<lambda>_.
         ret (result_code ec = 0, ec))))))))"

definition send_conn :: "ws_lib \<Rightarrow> side \<Rightarrow> int \<Rightarrow> string \<Rightarrow> Result \<Rightarrow> (bool \<times> Result, 'z adapter_scheme) prog" where
  "send_conn L s handle message ec =
     andThen (read_state (GetConnectFromHandle s handle)) (\<lambda>iter.
     case iter of
       None \<Rightarrow> ret (False, ec)
     | Some p \<Rightarrow>
         andThen (deref p) (\<lambda>wss_con.
         andThen (ws_call L (WsSend s (wc_hdl wss_con) message) ec) (\<lambda>ec.
         ret (result_code ec = 0, ec))))"

text \<open>The timer deletes what is due; the rest of the table stays.\<close>

fun delete_due :: "int \<Rightarrow> (int, ptr) smap \<Rightarrow> ((int, ptr) smap, 'z adapter_scheme) prog" where
  "delete_due current_time [] = ret []"
| "delete_due current_time ((k, p) # m) =
     (if k < current_time then andThen (delete_conn p) (\<lambda>_. delete_due current_time m)
      else andThen (delete_due current_time m) (\<lambda>rest. ret ((k, p) # rest)))"

definition delete_timer :: "side \<Rightarrow> int \<Rightarrow> (unit, 'z adapter_scheme) prog" where
  "delete_timer s current_time =
     andThen (read_state (delayed s)) (\<lambda>m.
     andThen (delete_due current_time m) (\<lambda>rest.
     change (set_delayed s rest)))"

fun delete_all :: "(int, ptr) smap \<Rightarrow> (unit, 'z adapter_scheme) prog" where
  "delete_all [] = ret ()"
| "delete_all ((k, p) # m) = andThen (delete_conn p) (\<lambda>_. delete_all m)"

definition delete_side :: "side \<Rightarrow> (unit, 'z adapter_scheme) prog" where
  "delete_side s =
     andThen (read_state (conns s)) (\<lambda>m.
     andThen (delete_all m) (\<lambda>_.
     andThen (change (set_conns s [])) (\<lambda>_.
     andThen (read_state (delayed s)) (\<lambda>m.
     andThen (delete_all m) (\<lambda>_.
     change (set_delayed s []))))))"

section \<open>\<open>WssSocketServer\<close>\<close>

text \<open>The handlers return the handle they pass on, \<open>-1\<close> when there is none.\<close>

definition WssSocketServer_OnOpen :: "ws_lib \<Rightarrow> hdl \<Rightarrow> (int, 'z adapter_scheme) prog" where
  "WssSocketServer_OnOpen L h =
     andThen (ws_call L (GetConFromHdl h) new_Result) (\<lambda>err.
     if result_code err \<noteq> 0 then ret (-1)
     else
       andThen (new_conn False h []) (\<lambda>(con, i).
       andThen (change (\<lambda>a. a\<lparr>hdl_to_ids := m_put h i (hdl_to_ids a), server_conns := m_put i con (server_conns a)\<rparr>)) (\<lambda>_.
       ret i)))"

definition server_handle :: "hdl \<Rightarrow> 'z adapter_scheme \<Rightarrow> int" where
  "server_handle h a = (case map_of (hdl_to_ids a) h of None \<Rightarrow> -1 | Some i \<Rightarrow> i)"

fun erase_id :: "int \<Rightarrow> (hdl, int) smap \<Rightarrow> (hdl, int) smap" where
  "erase_id i [] = []"
| "erase_id i ((h, j) # m) = (if j = i then m else (h, j) # erase_id i m)"

definition WssSocketServer_OnConnectClose :: "int \<Rightarrow> (bool, 'z adapter_scheme) prog" where
  "WssSocketServer_OnConnectClose i =
     andThen (change (\<lambda>a. a\<lparr>hdl_to_ids := erase_id i (hdl_to_ids a)\<rparr>)) (\<lambda>_. ret True)"

definition WssSocketServer_OnConnectError :: "int \<Rightarrow> (bool, 'z adapter_scheme) prog" where
  "WssSocketServer_OnConnectError i =
     andThen (change (\<lambda>a. a\<lparr>hdl_to_ids := erase_id i (hdl_to_ids a)\<rparr>)) (\<lambda>_. ret True)"

definition WssSocketServer_Send :: "ws_lib \<Rightarrow> int \<Rightarrow> string \<Rightarrow> Result \<Rightarrow> (bool \<times> Result, 'z adapter_scheme) prog" where
  "WssSocketServer_Send L = send_conn L Server"

definition WssSocketServer_Close :: "ws_lib \<Rightarrow> int \<Rightarrow> string \<Rightarrow> Result \<Rightarrow> (bool \<times> Result, 'z adapter_scheme) prog" where
  "WssSocketServer_Close L = close_conn L Server (15 * 1000000)"

definition WssSocketServer_PauseReading :: "ws_lib \<Rightarrow> int \<Rightarrow> Result \<Rightarrow> (bool \<times> Result, 'z adapter_scheme) prog" where
  "WssSocketServer_PauseReading L handle ec =
     andThen (read_state (GetConnectFromHandle Server handle)) (\<lambda>iter.
     case iter of
       None \<Rightarrow> ret (False, ec)
     | Some p \<Rightarrow>
         andThen (deref p) (\<lambda>wss_con.
         andThen (ws_call L (WsPauseReading (wc_hdl wss_con)) ec) (\<lambda>ec.
         ret (result_code ec = 0, ec))))"

definition WssSocketServer_Listen :: "ws_lib \<Rightarrow> string \<Rightarrow> Result \<Rightarrow> (bool \<times> Result, 'z adapter_scheme) prog" where
  "WssSocketServer_Listen L ip err = andThen (ws_call L (WsListen ip) err) (\<lambda>err. ret (result_code err = 0, err))"

definition WssSocketServer_StartAccept :: "ws_lib \<Rightarrow> Result \<Rightarrow> (bool \<times> Result, 'z adapter_scheme) prog" where
  "WssSocketServer_StartAccept L err = andThen (ws_call L WsStartAccept err) (\<lambda>err. ret (result_code err = 0, err))"

definition SocketServer_OnTimer :: "int \<Rightarrow> (unit, 'z adapter_scheme) prog" where
  "SocketServer_OnTimer = delete_timer Server"

definition delete_WssSocketServer :: "(unit, 'z adapter_scheme) prog" where
  "delete_WssSocketServer = delete_side Server"

section \<open>\<open>WssSocketClient\<close>\<close>

definition WssSocketClient_GetConnect :: "ws_lib \<Rightarrow> string \<Rightarrow> Result \<Rightarrow> (ptr option \<times> Result, 'z adapter_scheme) prog" where
  "WssSocketClient_GetConnect L uri err =
     andThen (read_state (\<lambda>a. ws_new_hdl L (net_trace a) uri)) (\<lambda>con.
     andThen (ws_call L (GetConnectionTo uri) err) (\<lambda>ecc.
     case con of
       None \<Rightarrow> ret (None, ecc)
     | Some h \<Rightarrow>
         andThen (new_conn True h uri) (\<lambda>(wss_con, i).
         andThen (change (\<lambda>a. a\<lparr>client_conns := m_put i wss_con (client_conns a)\<rparr>)) (\<lambda>_.
         ret (Some wss_con, err)))))"

definition WssSocketClient_Send :: "ws_lib \<Rightarrow> int \<Rightarrow> string \<Rightarrow> Result \<Rightarrow> (bool \<times> Result, 'z adapter_scheme) prog" where
  "WssSocketClient_Send L = send_conn L Client"

definition WssSocketClient_Close :: "ws_lib \<Rightarrow> int \<Rightarrow> string \<Rightarrow> Result \<Rightarrow> (bool \<times> Result, 'z adapter_scheme) prog" where
  "WssSocketClient_Close L = close_conn L Client (300 * 1000000)"

definition WssSocketClient_Connect :: "ws_lib \<Rightarrow> int \<Rightarrow> (bool, 'z adapter_scheme) prog" where
  "WssSocketClient_Connect L i =
     andThen (read_state (GetConnectFromHandle Client i)) (\<lambda>iter.
     case iter of
       None \<Rightarrow> ret False
     | Some p \<Rightarrow> andThen (deref p) (\<lambda>wss_con. andThen (ws_call L (WsConnect (wc_hdl wss_con)) new_Result) (\<lambda>_. ret True)))"

definition SocketClient_OnConnectClose :: "int \<Rightarrow> bool" where
  "SocketClient_OnConnectClose i = True"

definition SocketClient_OnConnectError :: "int \<Rightarrow> bool" where
  "SocketClient_OnConnectError i = True"

definition SocketClient_OnTimer :: "int \<Rightarrow> (unit, 'z adapter_scheme) prog" where
  "SocketClient_OnTimer = delete_timer Client"

definition delete_WssSocketClient :: "(unit, 'z adapter_scheme) prog" where
  "delete_WssSocketClient = delete_side Client"

section \<open>Values of a table\<close>

definition vals :: "('k, 'v) smap \<Rightarrow> 'v multiset" where
  "vals m = mset (map snd m)"

lemma vals_simps [simp]: "vals [] = {#}" "vals ((k, v) # m) = add_mset v (vals m)"
  by (simp_all add: vals_def)

lemma vals_emplace_new: "k \<notin> set (keys m) \<Longrightarrow> vals (m_emplace k v m) = add_mset v (vals m)"
  by (induction k v m rule: m_emplace.induct) auto

lemma vals_emplace: "sorted_map m \<Longrightarrow> vals (m_emplace k v m) \<subseteq># add_mset v (vals m)"
  by (cases "k \<in> set (keys m)") (simp_all add: emplace_present vals_emplace_new)

lemma vals_put_new: "k \<notin> set (keys m) \<Longrightarrow> vals (m_put k v m) = add_mset v (vals m)"
  by (induction k v m rule: m_put.induct) auto

lemma vals_erase: "map_of m k = Some v \<Longrightarrow> vals m = add_mset v (vals (m_erase k m))"
  by (induction k m rule: m_erase.induct) (auto split: if_splits)

lemma vals_member: "map_of m k = Some v \<Longrightarrow> v \<in># vals m"
  by (force simp: vals_def dest!: map_of_SomeD)

section \<open>Ownership\<close>

definition owned :: "'z adapter_scheme \<Rightarrow> ptr multiset" where
  "owned a = vals (server_conns a) + vals (server_delay_delete_conns a) +
     (vals (client_conns a) + vals (client_delay_delete_conns a))"

definition tables_sorted :: "'z adapter_scheme \<Rightarrow> bool" where
  "tables_sorted a \<longleftrightarrow> sorted_map (server_conns a) \<and> sorted_map (server_delay_delete_conns a) \<and>
     sorted_map (client_conns a) \<and> sorted_map (client_delay_delete_conns a) \<and> sorted_map (hdl_to_ids a)"

definition entries_ok :: "'z adapter_scheme \<Rightarrow> bool" where
  "entries_ok a \<longleftrightarrow> (\<forall>s i p. map_of (conns s a) i = Some p \<longrightarrow>
     i < g_id a \<and> (\<exists>c. conn_heap a p = Some c \<and> wc_id c = i \<and> wc_client c = (s = Client)))"

definition adapter_ok :: "'z adapter_scheme \<Rightarrow> bool" where
  "adapter_ok a \<longleftrightarrow> tables_sorted a \<and> entries_ok a \<and>
     (\<forall>p. count (owned a) p \<le> 1) \<and> (\<forall>p. p \<in># owned a \<longrightarrow> conn_heap a p \<noteq> None) \<and>
     (\<forall>p. conn_heap a p \<noteq> None \<longrightarrow> p < next_ptr a)"

lemma owned_side: "owned a = vals (conns s a) + vals (delayed s a) +
   (vals (conns (case s of Server \<Rightarrow> Client | Client \<Rightarrow> Server) a) + vals (delayed (case s of Server \<Rightarrow> Client | Client \<Rightarrow> Server) a))"
  by (cases s) (simp_all add: owned_def)

lemma net_log_simps [simp]:
  "server_conns (net_log io a) = server_conns a" "server_delay_delete_conns (net_log io a) = server_delay_delete_conns a"
  "client_conns (net_log io a) = client_conns a" "client_delay_delete_conns (net_log io a) = client_delay_delete_conns a"
  "hdl_to_ids (net_log io a) = hdl_to_ids a" "g_id (net_log io a) = g_id a" "conn_heap (net_log io a) = conn_heap a"
  "next_ptr (net_log io a) = next_ptr a" "adapter.more (net_log io a) = adapter.more a"
  by (simp_all add: net_log_def)

lemma conns_net_log [simp]: "conns s (net_log io a) = conns s a" "delayed s (net_log io a) = delayed s a"
  by (cases s; simp)+

lemma adapter_ok_log [simp]: "adapter_ok (net_log io a) = adapter_ok a"
  by (simp add: adapter_ok_def tables_sorted_def entries_ok_def owned_def)

lemma owned_live: "adapter_ok a \<Longrightarrow> p \<in># owned a \<Longrightarrow> \<exists>c. conn_heap a p = Some c"
  by (auto simp: adapter_ok_def)

lemma found_live:
  "adapter_ok a \<Longrightarrow> GetConnectFromHandle s h a = Some p \<Longrightarrow>
   \<exists>c. conn_heap a p = Some c \<and> wc_id c = h \<and> wc_client c = (s = Client)"
  by (auto simp: adapter_ok_def entries_ok_def GetConnectFromHandle_def)

lemma found_heap [dest]: "adapter_ok a \<Longrightarrow> GetConnectFromHandle s h a = Some p \<Longrightarrow> \<exists>c. conn_heap a p = Some c"
  using found_live by blast

text \<open>Moving a connection from its table to the delayed deletions.\<close>

definition conn_moved :: "side \<Rightarrow> int \<Rightarrow> int \<Rightarrow> ptr \<Rightarrow> 'z adapter_scheme \<Rightarrow> 'z adapter_scheme" where
  "conn_moved s h t p a = set_conns s (m_erase h (conns s a)) (set_delayed s (m_emplace t p (delayed s a)) a)"

lemma moved_simps [simp]:
  "conns s (conn_moved s h t p a) = m_erase h (conns s a)" "delayed s (conn_moved s h t p a) = m_emplace t p (delayed s a)"
  "conn_heap (conn_moved s h t p a) = conn_heap a" "g_id (conn_moved s h t p a) = g_id a" "next_ptr (conn_moved s h t p a) = next_ptr a"
  "hdl_to_ids (conn_moved s h t p a) = hdl_to_ids a" "adapter.more (conn_moved s h t p a) = adapter.more a"
  by (cases s; simp add: conn_moved_def)+

lemma moved_fields [simp]:
  "client_conns (conn_moved Server h t p a) = client_conns a"
  "client_delay_delete_conns (conn_moved Server h t p a) = client_delay_delete_conns a"
  "server_conns (conn_moved Client h t p a) = server_conns a"
  "server_delay_delete_conns (conn_moved Client h t p a) = server_delay_delete_conns a"
  by (simp_all add: conn_moved_def)

lemma moved_other [simp]: "s' \<noteq> s \<Longrightarrow> conns s' (conn_moved s h t p a) = conns s' a"
  "s' \<noteq> s \<Longrightarrow> delayed s' (conn_moved s h t p a) = delayed s' a"
  by (cases s; cases s'; simp add: conn_moved_def)+

lemma tables_sorted_side: "tables_sorted a \<longleftrightarrow> (\<forall>s. sorted_map (conns s a) \<and> sorted_map (delayed s a)) \<and> sorted_map (hdl_to_ids a)"
proof -
  have "(\<forall>s. P s) \<longleftrightarrow> P Server \<and> P Client" for P by (metis side.exhaust)
  then show ?thesis by (auto simp: tables_sorted_def)
qed

lemma owned_moved:
  assumes "tables_sorted a" and "map_of (conns s a) h = Some p"
  shows "owned (conn_moved s h t p a) \<subseteq># owned a"
proof -
  have "vals (m_erase h (conns s a)) + vals (m_emplace t p (delayed s a)) \<subseteq># vals (conns s a) + vals (delayed s a)"
    using vals_emplace [of "delayed s a" t p] assms vals_erase [OF assms(2)]
    by (simp add: tables_sorted_side)
  then show ?thesis by (cases s) (simp_all add: owned_side [of _ s])
qed

lemma moved_ok:
  assumes ok: "adapter_ok a" and p: "map_of (conns s a) h = Some p"
  shows "adapter_ok (conn_moved s h t p a)"
proof -
  have sub: "owned (conn_moved s h t p a) \<subseteq># owned a" using ok p owned_moved by (auto simp: adapter_ok_def)
  have sorted: "tables_sorted (conn_moved s h t p a)"
    using ok by (auto simp: adapter_ok_def tables_sorted_side moved_other) (metis moved_other moved_simps(1,2) sorted_emplace sorted_erase)+
  have "entries_ok (conn_moved s h t p a)"
    unfolding entries_ok_def
  proof (intro allI impI)
    fix s' i q
    assume "map_of (conns s' (conn_moved s h t p a)) i = Some q"
    then have "map_of (conns s' a) i = Some q"
      using ok by (cases "s' = s") (auto simp: adapter_ok_def tables_sorted_side map_of_erase split: if_splits)
    then show "i < g_id (conn_moved s h t p a) \<and> (\<exists>c. conn_heap (conn_moved s h t p a) q = Some c \<and> wc_id c = i \<and> wc_client c = (s' = Client))"
      using ok by (simp add: adapter_ok_def entries_ok_def)
  qed
  with ok sorted sub show ?thesis
    by (auto simp: adapter_ok_def dest: mset_subset_eqD intro: order_trans [OF mset_subset_eq_count])
qed

lemma deref_ok: "(\<And>a. P a \<Longrightarrow> \<exists>c. conn_heap a p = Some c) \<Longrightarrow> hoare F P (deref p) (\<lambda>c a. P a \<and> conn_heap a p = Some c)"
  by (fastforce simp: hoare_def deref_def prog_simps split: outcome.splits)

lemma ws_call_ok: "(\<And>a r. P a \<Longrightarrow> Q r (net_log io a)) \<Longrightarrow> hoare F P (ws_call L io ec) Q"
  by (simp add: hoare_def ws_call_def split: prod.splits)

lemma net_now_ok: "(\<And>a t. P a \<Longrightarrow> Q t (net_log ClockNow a)) \<Longrightarrow> hoare F P (net_now L) Q"
  by (simp add: hoare_def net_now_def)

lemma close_conn_run:
  "close_conn L s d h r ec a =
     (case GetConnectFromHandle s h a of
        None \<Rightarrow> Done (False, ec) a
      | Some p \<Rightarrow>
          (case conn_heap a p of
             None \<Rightarrow> Fault UseAfterFree a
           | Some c \<Rightarrow>
               let io = WsClose s (wc_hdl c) r; (v, msg) = ws_answer L (net_trace a) io;
                   now = ws_clock L (net_trace a @ [io]); a' = net_log ClockNow (net_log io a)
               in if fits64 (now + d) then Done (v = 0, set_desc msg (set_code v ec)) (conn_moved s h (now + d) p a')
                  else Fault SignedOverflow a'))"
  by (cases s)
    (auto simp: close_conn_def prog_simps deref_def ws_call_def net_now_def add64_def conn_moved_def Let_def net_log_def
      set_desc_def set_code_def split: option.splits prod.splits)


lemma close_conn_ok: "hoare {SignedOverflow} adapter_ok (close_conn L s d h r ec) (\<lambda>_. adapter_ok)"
  unfolding hoare_def
proof (intro allI impI)
  fix a :: "'z adapter_scheme"
  assume ok: "adapter_ok a"
  show "case close_conn L s d h r ec a of Done _ a' \<Rightarrow> adapter_ok a' | Fault f a' \<Rightarrow> f \<in> {SignedOverflow}"
  proof (cases "GetConnectFromHandle s h a")
    case None
    then show ?thesis using ok by (simp add: close_conn_run)
  next
    case (Some p)
    then obtain c where "conn_heap a p = Some c" using found_live [OF ok] by blast
    moreover have "adapter_ok (conn_moved s h t p (net_log io' (net_log io a)))" for t io io'
      using ok Some by (intro moved_ok) (simp_all add: GetConnectFromHandle_def)
    ultimately show ?thesis using Some by (simp add: close_conn_run Let_def split: prod.splits)
  qed
qed

lemma found_then_deref:
  "(\<And>p. hoare F (\<lambda>a. P a \<and> GetConnectFromHandle s h a = Some p) (k p) Q) \<Longrightarrow>
   (\<And>a. P a \<Longrightarrow> GetConnectFromHandle s h a = None \<Longrightarrow> hoare F P m Q) \<Longrightarrow>
   hoare F P (andThen (read_state (GetConnectFromHandle s h)) (\<lambda>iter. case iter of None \<Rightarrow> m | Some p \<Rightarrow> k p)) Q"
  by (fastforce simp: hoare_def andThen_def read_state_def split: option.splits)

lemma call_on_ok:
  "hoare F adapter_ok
     (andThen (read_state (GetConnectFromHandle s h)) (\<lambda>iter.
      case iter of None \<Rightarrow> ret x | Some p \<Rightarrow> andThen (deref p) (\<lambda>c. andThen (ws_call L (io c) ec) (\<lambda>e. ret (f e)))))
     (\<lambda>_. adapter_ok)"
proof (rule found_then_deref)
  fix p
  show "hoare F (\<lambda>a. adapter_ok a \<and> GetConnectFromHandle s h a = Some p)
     (andThen (deref p) (\<lambda>c. andThen (ws_call L (io c) ec) (\<lambda>e. ret (f e)))) (\<lambda>_. adapter_ok)"
    by (intro hoare_andThen [OF deref_ok] hoare_andThen [OF ws_call_ok [where Q = "\<lambda>_. adapter_ok"]] hoare_ret)
      auto
qed (simp add: hoare_ret)

lemma send_conn_ok: "hoare F adapter_ok (send_conn L s h message ec) (\<lambda>_. adapter_ok)"
  unfolding send_conn_def by (rule call_on_ok)

lemma PauseReading_ok: "hoare F adapter_ok (WssSocketServer_PauseReading L h ec) (\<lambda>_. adapter_ok)"
  unfolding WssSocketServer_PauseReading_def by (rule call_on_ok)

lemma Connect_ok: "hoare F adapter_ok (WssSocketClient_Connect L h) (\<lambda>_. adapter_ok)"
  unfolding WssSocketClient_Connect_def by (rule call_on_ok)

text \<open>A new connection in its table.\<close>

definition added :: "side \<Rightarrow> WssConnection \<Rightarrow> 'z adapter_scheme \<Rightarrow> 'z adapter_scheme" where
  "added s c a = set_conns s (m_put (g_id a) (next_ptr a) (conns s a))
     (a\<lparr>g_id := g_id a + 1, next_ptr := Suc (next_ptr a), conn_heap := (conn_heap a)(next_ptr a \<mapsto> c)\<rparr>)"

lemma added_simps [simp]:
  "conns s (added s c a) = m_put (g_id a) (next_ptr a) (conns s a)" "delayed s' (added s c a) = delayed s' a"
  "conn_heap (added s c a) = (conn_heap a)(next_ptr a \<mapsto> c)" "g_id (added s c a) = g_id a + 1"
  "next_ptr (added s c a) = Suc (next_ptr a)" "hdl_to_ids (added s c a) = hdl_to_ids a" "adapter.more (added s c a) = adapter.more a"
  by (cases s; cases s'; simp add: added_def)+

lemma added_other [simp]: "s' \<noteq> s \<Longrightarrow> conns s' (added s c a) = conns s' a"
  by (cases s; cases s'; simp add: added_def)

lemma fresh_id: "adapter_ok a \<Longrightarrow> map_of (conns s a) (g_id a) = None"
  by (cases "map_of (conns s a) (g_id a)") (auto simp: adapter_ok_def entries_ok_def)

lemma fresh_ptr: "adapter_ok a \<Longrightarrow> conn_heap a (next_ptr a) = None \<and> next_ptr a \<notin># owned a"
  unfolding adapter_ok_def by (metis less_irrefl)

lemma owned_added: "adapter_ok a \<Longrightarrow> owned (added s c a) = add_mset (next_ptr a) (owned a)"
  using fresh_id [of a s] by (cases s) (simp_all add: owned_def added_def vals_put_new map_of_None_keys)

lemma added_ok:
  assumes ok: "adapter_ok a" and c: "wc_id c = g_id a" "wc_client c = (s = Client)"
  shows "adapter_ok (added s c a)"
proof -
  have "tables_sorted (added s c a)"
    using ok by (cases s) (auto simp: adapter_ok_def tables_sorted_def added_def)
  moreover have "entries_ok (added s c a)"
    unfolding entries_ok_def
  proof (intro allI impI)
    fix s' i p
    assume "map_of (conns s' (added s c a)) i = Some p"
    moreover have "sorted_map (conns s a)" using ok by (simp add: adapter_ok_def tables_sorted_side)
    ultimately consider "s' = s" "i = g_id a" "p = next_ptr a" | "map_of (conns s' a) i = Some p"
      by (cases "s' = s"; cases "i = g_id a") (auto simp: map_of_put)
    then show "i < g_id (added s c a) \<and> (\<exists>d. conn_heap (added s c a) p = Some d \<and> wc_id d = i \<and> wc_client d = (s' = Client))"
    proof cases
      case 1
      then show ?thesis using c by simp
    next
      case 2
      then have "i < g_id a" "\<exists>d. conn_heap a p = Some d \<and> wc_id d = i \<and> wc_client d = (s' = Client)"
        using ok by (auto simp: adapter_ok_def entries_ok_def)
      then show ?thesis using fresh_ptr [OF ok] by auto
    qed
  qed
  moreover have "count (owned (added s c a)) p \<le> 1" for p
    using ok fresh_ptr [OF ok] by (auto simp: owned_added adapter_ok_def not_in_iff)
  ultimately show ?thesis
    using ok by (auto simp: owned_added adapter_ok_def less_Suc_eq)
qed

lemma adapter_ok_ids: "adapter_ok a \<Longrightarrow> sorted_map m \<Longrightarrow> adapter_ok (a\<lparr>hdl_to_ids := m\<rparr>)"
proof -
  have c: "conns s (a\<lparr>hdl_to_ids := m\<rparr>) = conns s a" for s by (cases s) simp_all
  assume "adapter_ok a" "sorted_map m"
  then show ?thesis by (simp add: adapter_ok_def tables_sorted_def entries_ok_def owned_def c)
qed

lemma OnOpen_run:
  "WssSocketServer_OnOpen L h a =
     (case ws_answer L (net_trace a) (GetConFromHdl h) of (v, msg) \<Rightarrow>
      let a' = net_log (GetConFromHdl h) a in
      if v \<noteq> 0 then Done (-1) a'
      else if fits64 (g_id a + 1) then
        Done (g_id a) ((added Server \<lparr>wc_id = g_id a, wc_client = False, wc_hdl = h, wc_uri = []\<rparr> a')
          \<lparr>hdl_to_ids := m_put h (g_id a) (hdl_to_ids a)\<rparr>)
      else Fault SignedOverflow a')"
  by (simp add: WssSocketServer_OnOpen_def new_conn_def prog_simps ws_call_def add64_def added_def Let_def set_desc_def set_code_def
      split: prod.splits)

lemma OnOpen_ok: "hoare {SignedOverflow} adapter_ok (WssSocketServer_OnOpen L h) (\<lambda>_. adapter_ok)"
  unfolding hoare_def OnOpen_run
  by (auto simp: Let_def split: prod.splits intro!: adapter_ok_ids added_ok)
    (simp add: adapter_ok_def tables_sorted_def)

lemma GetConnect_run:
  "WssSocketClient_GetConnect L uri err a =
     (case ws_answer L (net_trace a) (GetConnectionTo uri) of (v, msg) \<Rightarrow>
      let a' = net_log (GetConnectionTo uri) a in
      case ws_new_hdl L (net_trace a) uri of
        None \<Rightarrow> Done (None, set_desc msg (set_code v err)) a'
      | Some h \<Rightarrow>
          if fits64 (g_id a + 1) then
            Done (Some (next_ptr a), err) (added Client \<lparr>wc_id = g_id a, wc_client = True, wc_hdl = h, wc_uri = uri\<rparr> a')
          else Fault SignedOverflow a')"
  by (simp add: WssSocketClient_GetConnect_def new_conn_def prog_simps ws_call_def add64_def added_def Let_def set_desc_def set_code_def
      split: prod.splits option.splits)

lemma GetConnect_ok: "hoare {SignedOverflow} adapter_ok (WssSocketClient_GetConnect L uri err) (\<lambda>_. adapter_ok)"
  unfolding hoare_def GetConnect_run
  by (auto simp: Let_def split: prod.splits option.splits intro!: added_ok)


section \<open>Deleting\<close>

definition heap_without :: "ptr set \<Rightarrow> 'z adapter_scheme \<Rightarrow> 'z adapter_scheme" where
  "heap_without D a = a\<lparr>conn_heap := (\<lambda>p. if p \<in> D then None else conn_heap a p)\<rparr>"

lemma heap_without_simps [simp]:
  "conns s (heap_without D a) = conns s a" "delayed s (heap_without D a) = delayed s a"
  "conn_heap (heap_without D a) p = (if p \<in> D then None else conn_heap a p)"
  "heap_without {} a = a" "heap_without D (heap_without D' a) = heap_without (D \<union> D') a"
  "adapter.more (heap_without D a) = adapter.more a" "owned (heap_without D a) = owned a"
  by (cases s; auto simp: heap_without_def fun_eq_iff owned_def)+

lemma delete_conn_run:
  "conn_heap a p = Some c \<Longrightarrow> delete_conn p a = Done () (heap_without {p} a)"
  by (simp add: delete_conn_def deref_def prog_simps heap_without_def fun_upd_def)

lemma delete_due_run:
  "distinct (map snd m) \<Longrightarrow> \<forall>p \<in> set (map snd m). conn_heap a p \<noteq> None \<Longrightarrow>
   delete_due cur m a =
     Done (filter (\<lambda>x. \<not> fst x < cur) m) (heap_without (snd ` {x \<in> set m. fst x < cur}) a)"
proof (induction cur m arbitrary: a rule: delete_due.induct)
  case (2 cur k p m)
  then obtain c where c: "conn_heap a p = Some c" by auto
  have due: "{x \<in> set ((k, p) # m). fst x < cur} = (if k < cur then insert (k, p) else id) {x \<in> set m. fst x < cur}"
    by auto
  show ?case
  proof (cases "k < cur")
    case True
    have "\<forall>q \<in> set (map snd m). conn_heap (heap_without {p} a) q \<noteq> None" using 2(3,4) by auto
    then have "delete_due cur m (heap_without {p} a) =
        Done (filter (\<lambda>x. \<not> fst x < cur) m) (heap_without (snd ` {x \<in> set m. fst x < cur}) (heap_without {p} a))"
      using 2(1) [OF True] 2(3) by simp
    then show ?thesis unfolding due using True by (simp add: prog_simps delete_conn_run [OF c])
  next
    case False
    then show ?thesis unfolding due using 2(2) [OF False] 2(3,4) by (simp add: prog_simps)
  qed
qed (simp add: prog_simps)

lemma delete_all_due: "\<forall>k \<in> set (keys m). k < cur \<Longrightarrow> delete_all m a = andThen (delete_due cur m) (\<lambda>_. ret ()) a"
proof (induction m arbitrary: a rule: delete_all.induct)
  case (2 k p m)
  then show ?case by (simp add: andThen_assoc) (simp add: andThen_app split: outcome.splits)
qed (simp add: prog_simps)

lemma delete_all_run:
  assumes "distinct (map snd m)" and "\<forall>p \<in> set (map snd m). conn_heap a p \<noteq> None"
  shows "delete_all m a = Done () (heap_without (snd ` set m) a)"
proof -
  obtain cur where cur: "\<forall>k \<in> set (keys m). k < cur"
    using finite_set [of "keys m"] by (metis Max_ge le_less_trans lessI less_le_not_le linorder_not_le zless_add1_eq)
  then have "{x \<in> set m. fst x < cur} = set m" by (auto simp: keys_def)
  then show ?thesis using delete_all_due [OF cur, of a] delete_due_run [OF assms, of cur] by (simp add: prog_simps)
qed

lemma sorted_map_filter: "sorted_map m \<Longrightarrow> sorted_map (filter P m)"
  by (induction m) (auto simp: keys_def)

lemma count_distinct: "(\<And>p. count (mset xs) p \<le> 1) \<Longrightarrow> distinct xs"
proof (induction xs)
  case (Cons x xs)
  have "count (mset xs) p \<le> 1" for p
    by (rule order_trans [OF _ Cons.prems [of p]]) simp
  then have "distinct xs" by (rule Cons.IH)
  moreover have "count (mset xs) x = 0" using Cons.prems [of x] by simp
  ultimately show ?case by (metis count_mset_0_iff distinct.simps(2))
qed simp

lemma side_distinct: "adapter_ok a \<Longrightarrow> distinct (map snd (conns s a)) \<and> distinct (map snd (delayed s a))"
proof -
  assume "adapter_ok a"
  then have "count (vals (conns s a)) p + count (vals (delayed s a)) p \<le> 1" for p
    unfolding adapter_ok_def owned_side [of a s] by (metis add_leD1 count_union)
  then show ?thesis by (auto simp: vals_def intro!: count_distinct) (meson add_leD1 add_leD2)+
qed

lemma side_live: "adapter_ok a \<Longrightarrow> p \<in># vals (conns s a) + vals (delayed s a) \<Longrightarrow> conn_heap a p \<noteq> None"
  by (auto simp: adapter_ok_def owned_side [of a s])

lemma vals_split: "vals m = vals (filter P m) + vals (filter (\<lambda>x. \<not> P x) m)"
  by (induction m) (auto simp: vals_def)

text \<open>Deleting delayed entries together with their objects.\<close>

lemma set_delayed_simps [simp]:
  "conns s' (set_delayed s m a) = conns s' a" "delayed s (set_delayed s m a) = m" "conn_heap (set_delayed s m a) = conn_heap a"
  "g_id (set_delayed s m a) = g_id a" "next_ptr (set_delayed s m a) = next_ptr a" "hdl_to_ids (set_delayed s m a) = hdl_to_ids a"
  "s' \<noteq> s \<Longrightarrow> delayed s' (set_delayed s m a) = delayed s' a" "adapter.more (set_delayed s m a) = adapter.more a"
  by (cases s; cases s'; simp)+

lemma drop_delayed_ok:
  assumes ok: "adapter_ok a"
  shows "adapter_ok (set_delayed s (filter P (delayed s a)) (heap_without (set_mset (vals (filter (\<lambda>x. \<not> P x) (delayed s a)))) a))"
    (is "adapter_ok ?b")
proof -
  let ?D = "vals (filter (\<lambda>x. \<not> P x) (delayed s a))"
  have split: "owned a = owned ?b + ?D"
    using vals_split [of "delayed s a" P] by (cases s) (simp_all add: owned_def heap_without_def)
  have le: "count (owned ?b) p + count ?D p \<le> 1" for p using ok unfolding adapter_ok_def split by simp
  have apart: "p \<notin># ?D" if "p \<in># owned ?b" for p
  proof
    assume "p \<in># ?D"
    with that have "1 \<le> count (owned ?b) p" "1 \<le> count ?D p" unfolding count_greater_eq_one_iff by blast+
    with le [of p] show False by linarith
  qed
  have "tables_sorted ?b"
    using ok by (cases s) (auto simp: adapter_ok_def tables_sorted_def heap_without_def sorted_map_filter)
  moreover have "entries_ok ?b"
    unfolding entries_ok_def
  proof (intro allI impI)
    fix s' i p
    assume "map_of (conns s' ?b) i = Some p"
    then have m: "map_of (conns s' a) i = Some p" by simp
    then have "p \<in># vals (conns s' a)" by (rule vals_member)
    then have "p \<in># owned ?b" by (cases s; cases s') (auto simp: owned_def heap_without_def)
    then have "p \<notin># ?D" by (rule apart)
    then show "i < g_id ?b \<and> (\<exists>c. conn_heap ?b p = Some c \<and> wc_id c = i \<and> wc_client c = (s' = Client))"
      using ok m by (simp add: adapter_ok_def entries_ok_def heap_without_def)
  qed
  moreover have "count (owned ?b) p \<le> 1" for p using le [of p] by simp
  moreover have "conn_heap ?b p \<noteq> None" if "p \<in># owned ?b" for p
    using ok apart [OF that] that unfolding adapter_ok_def split by simp
  ultimately show ?thesis
    using ok by (auto simp: adapter_ok_def heap_without_def)
qed

lemma delete_timer_run:
  assumes ok: "adapter_ok a"
  shows "delete_timer s cur a =
    Done () (set_delayed s (filter (\<lambda>x. \<not> fst x < cur) (delayed s a))
      (heap_without (set_mset (vals (filter (\<lambda>x. \<not> \<not> fst x < cur) (delayed s a)))) a))"
proof -
  have "snd ` {x \<in> set (delayed s a). fst x < cur} = set_mset (vals (filter (\<lambda>x. \<not> \<not> fst x < cur) (delayed s a)))"
    by (simp add: vals_def)
  moreover have "\<forall>p \<in> set (map snd (delayed s a)). conn_heap a p \<noteq> None"
    using side_live [OF ok, of _ s] by (auto simp: vals_def)
  ultimately show ?thesis
    using delete_due_run [of "delayed s a" a cur] side_distinct [OF ok, of s] by (simp add: delete_timer_def prog_simps)
qed

lemma delete_timer_ok: "hoare F adapter_ok (delete_timer s cur) (\<lambda>_. adapter_ok)"
  unfolding hoare_def
proof (intro allI impI)
  fix a :: "'z adapter_scheme"
  assume ok: "adapter_ok a"
  show "case delete_timer s cur a of Done _ a' \<Rightarrow> adapter_ok a' | Fault f a' \<Rightarrow> f \<in> F"
    using drop_delayed_ok [OF ok, of s "\<lambda>x. \<not> fst x < cur"] by (simp add: delete_timer_run [OF ok])
qed


lemma set_conns_simps [simp]:
  "conns s (set_conns s m a) = m" "delayed s' (set_conns s m a) = delayed s' a" "conn_heap (set_conns s m a) = conn_heap a"
  "g_id (set_conns s m a) = g_id a" "next_ptr (set_conns s m a) = next_ptr a" "hdl_to_ids (set_conns s m a) = hdl_to_ids a"
  "s' \<noteq> s \<Longrightarrow> conns s' (set_conns s m a) = conns s' a" "adapter.more (set_conns s m a) = adapter.more a"
  by (cases s; cases s'; simp)+

text \<open>The destructors free everything their side still has.\<close>

lemma delete_side_run:
  assumes ok: "adapter_ok a"
  shows "delete_side s a = Done ()
    (set_delayed s [] (set_conns s [] (heap_without (set_mset (vals (conns s a) + vals (delayed s a))) a)))"
proof -
  let ?b = "set_conns s [] (heap_without (snd ` set (conns s a)) a)"
  have live: "\<forall>p \<in> set (map snd (conns s a)). conn_heap a p \<noteq> None" "\<forall>p \<in> set (map snd (delayed s a)). conn_heap a p \<noteq> None"
    using side_live [OF ok, of _ s] by (auto simp: vals_def)
  have le: "count (vals (conns s a)) p + count (vals (delayed s a)) p \<le> 1" for p
    using ok unfolding adapter_ok_def owned_side [of a s] by (metis add_leD1 count_union)
  have apart: "p \<notin> snd ` set (delayed s a)" if "p \<in> snd ` set (conns s a)" for p
  proof
    assume "p \<in> snd ` set (delayed s a)"
    with that have "1 \<le> count (vals (conns s a)) p" "1 \<le> count (vals (delayed s a)) p"
      unfolding count_greater_eq_one_iff by (auto simp: vals_def)
    with le [of p] show False by linarith
  qed
  have live': "\<forall>p \<in> set (map snd (delayed s ?b)). conn_heap ?b p \<noteq> None"
    using live(2) apart by (simp add: image_iff) blast
  have dist: "distinct (map snd (conns s a))" "distinct (map snd (delayed s ?b))" using side_distinct [OF ok, of s] by simp_all
  have "heap_without D (set_conns s m b) = set_conns s m (heap_without D b)" for D m and b :: "'a adapter_scheme"
    by (cases s) (simp_all add: heap_without_def cong: if_cong)
  then show ?thesis
    using delete_all_run [OF dist(1) live(1)] delete_all_run [OF dist(2) live']
    by (simp add: delete_side_def prog_simps vals_def Un_commute)
qed

section \<open>What is lost\<close>

text \<open>An object that is alive but in no table is never deleted again.\<close>

definition lost :: "ptr \<Rightarrow> 'z adapter_scheme \<Rightarrow> bool" where
  "lost p a \<longleftrightarrow> conn_heap a p \<noteq> None \<and> p \<notin># owned a"

text \<open>C21: Closing a connection loses its object, so that nothing deletes it any more, exactly when another connection
  of the same side is already waiting for its deletion at the same time.\<close>

theorem closed_object_is_lost_iff_time_is_taken:
  assumes ok: "adapter_ok a" and p: "GetConnectFromHandle s h a = Some p"
    and run: "close_conn L s d h r ec a = Done x a'"
  shows "lost p a' \<longleftrightarrow> (\<exists>c. conn_heap a p = Some c \<and>
    ws_clock L (net_trace a @ [WsClose s (wc_hdl c) r]) + d \<in> set (keys (delayed s a)))"
proof -
  obtain c where c: "conn_heap a p = Some c" using found_live [OF ok p] by blast
  let ?t = "ws_clock L (net_trace a @ [WsClose s (wc_hdl c) r]) + d"
  let ?l = "net_log ClockNow (net_log (WsClose s (wc_hdl c) r) a)"
  have a': "a' = conn_moved s h ?t p ?l"
    using run p c by (auto simp: close_conn_run Let_def split: prod.splits if_splits)
  have m: "map_of (conns s a) h = Some p" using p by (simp add: GetConnectFromHandle_def)
  have sorted: "sorted_map (delayed s a)" using ok by (simp add: adapter_ok_def tables_sorted_side)
  have one: "count (owned a) p = 1"
    using ok vals_member [OF m] unfolding adapter_ok_def owned_side [of a s]
    by (metis One_nat_def count_greater_eq_one_iff le_antisym union_iff)
  have "vals (conns s a) = add_mset p (vals (m_erase h (conns s a)))" by (rule vals_erase [OF m])
  then have "owned a' = (if ?t \<in> set (keys (delayed s a)) then owned a - {#p#} else owned a)"
    using sorted by (cases s) (auto simp: a' owned_def conn_moved_def emplace_present vals_emplace_new)
  then have "p \<in># owned a' \<longleftrightarrow> ?t \<notin> set (keys (delayed s a))"
    using one by (auto simp: in_diff_count not_in_iff simp flip: count_greater_zero_iff)
  then show ?thesis using c by (simp add: lost_def a')
qed

text \<open>Two connections are accepted and closed while the clock shows zero.\<close>

definition stopped_lib :: ws_lib where
  "stopped_lib = \<lparr>ws_clock = (\<lambda>_. 0), ws_answer = (\<lambda>_ _. (0, [])), ws_new_hdl = (\<lambda>_ _. None),
     ws_local_port = (\<lambda>_. 0), ws_remote = (\<lambda>_ _. [])\<rparr>"

definition two_accepted :: "(unit, unit adapter_scheme) prog" where
  "two_accepted =
     andThen (WssSocketServer_OnOpen stopped_lib 7) (\<lambda>_. andThen (WssSocketServer_OnOpen stopped_lib 8) (\<lambda>_.
     andThen (close_conn stopped_lib Server 15000000 1 [] new_Result) (\<lambda>_. ret ())))"

definition empty_adapter :: "unit adapter_scheme" where
  "empty_adapter = \<lparr>server_conns = [], server_delay_delete_conns = [], client_conns = [], client_delay_delete_conns = [],
     hdl_to_ids = [], g_id = 1, conn_heap = (\<lambda>_. None), next_ptr = 0, net_trace = [], \<dots> = ()\<rparr>"

definition after_first_close :: "unit adapter_scheme" where
  "after_first_close = state_of (two_accepted empty_adapter)"

theorem closed_object_is_lost_iff_time_is_taken_witness:
  "\<exists>x a'. close_conn stopped_lib Server 15000000 2 [] new_Result after_first_close = Done x a' \<and> lost 1 a'"
proof -
  have empty: "adapter_ok empty_adapter"
  proof -
    have "conns s empty_adapter = []" for s by (cases s) (simp_all add: empty_adapter_def)
    then show ?thesis
      by (simp add: adapter_ok_def tables_sorted_def entries_ok_def) (simp add: empty_adapter_def owned_def)
  qed
  have "hoare {SignedOverflow} adapter_ok two_accepted (\<lambda>_. adapter_ok)"
    unfolding two_accepted_def
    by (rule hoare_andThen [OF OnOpen_ok], rule hoare_andThen [OF OnOpen_ok], rule hoare_andThen [OF close_conn_ok], rule hoare_ret)
  moreover have "case two_accepted empty_adapter of Done _ a \<Rightarrow> True | Fault _ _ \<Rightarrow> False" by code_simp
  ultimately have ok: "adapter_ok after_first_close"
    using empty by (auto simp: hoare_def after_first_close_def split: outcome.splits)
  have p: "GetConnectFromHandle Server 2 after_first_close = Some 1" by code_simp
  have "case close_conn stopped_lib Server 15000000 2 [] new_Result after_first_close of Done _ a \<Rightarrow> True | Fault _ _ \<Rightarrow> False"
    by code_simp
  then obtain x a' where run: "close_conn stopped_lib Server 15000000 2 [] new_Result after_first_close = Done x a'"
    by (auto split: outcome.splits)
  obtain c where c: "conn_heap after_first_close 1 = Some c" using found_live [OF ok p] by blast
  have "15000000 \<in> set (keys (delayed Server after_first_close))" by code_simp
  then have "lost 1 a'"
    using closed_object_is_lost_iff_time_is_taken [OF ok p run] c by (simp add: stopped_lib_def)
  with run show ?thesis by blast
qed

end
