(* ===== verification/Network.thy ===== *)
theory Network
  imports Socket_Adapter
begin

text \<open>
  \<open>common/network.cpp\<close>: the table of connections above the socket adapter. A \<open>Connection\<close> is shared
  by the tables \<open>connections_\<close> and \<open>connections_delete_\<close> and changes only while it is in the first;
  methods that change it return the new value and the caller stores it. The record \<open>network\<close>
  extends the adapter, as the class holds a server and a client. Handlers run one after the other
  (they hold \<open>conns_list_lock_\<close>); log lines are left out, but what they compute is not.

  The protobuf code is the record \<open>net_pb\<close>; the virtual functions a subclass may override are the
  record \<open>net_hooks\<close>, with the functions of the class itself as \<open>base_hooks\<close>.

  Proved: the two tables of connections and the tables of the adapter stay in step, no handler
  follows a null or dead pointer, and a check removes exactly the connections that were silent too long.
\<close>

section \<open>Connections\<close>

record Connection =
  cn_server :: bool
  cn_client :: bool
  cn_handle :: int
  connect_end_time :: int
  last_receive_time :: int
  cn_uri :: string
  cn_id :: int
  in_bound :: bool
  peer_address :: string
  connect_start_time :: int
  cn_sequence :: int
  last_send_time :: int
  cn_delay :: int

record WsMessage =
  wm_type :: int
  wm_request :: bool
  wm_sequence :: int
  wm_data :: string

text \<open>\<open>parse_WsMessage\<close> is what the message holds after \<open>ParseFromString\<close>, whether it succeeded or not.\<close>

record net_pb =
  pb_WsMessage :: "WsMessage \<Rightarrow> string"
  parse_WsMessage :: "string \<Rightarrow> WsMessage"
  pb_Ping :: "int \<Rightarrow> string"
  parse_Ping :: "string \<Rightarrow> int option"
  pb_Pong :: "int \<Rightarrow> string"
  parse_Pong :: "string \<Rightarrow> int option"

record net_hooks =
  on_connect_open :: "Connection \<Rightarrow> bool"
  on_network_timer :: "Connection \<Rightarrow> int \<Rightarrow> bool"

definition OnConnectOpen :: "Connection \<Rightarrow> bool" where
  "OnConnectOpen conn = True"

definition OnNetworkTimer :: "Connection \<Rightarrow> int \<Rightarrow> bool" where
  "OnNetworkTimer conn current_time = True"

definition base_hooks :: net_hooks where
  "base_hooks = \<lparr>on_connect_open = OnConnectOpen, on_network_timer = OnNetworkTimer\<rparr>"

record net_env =
  ne_lib :: ws_lib
  ne_pb :: net_pb
  ne_hooks :: net_hooks

record network = adapter +
  connect_time_out :: int
  connections :: "(int, Connection) smap"
  connections_delete :: "(int, Connection) smap"
  connection_handles :: "(int, int) smap"
  next_id :: int
  net_enabled :: bool
  thread_inited :: bool
  net_ec :: int              \<comment> \<open>the value of the member \<open>ec_\<close>\<close>
  listen_port :: nat

type_synonym 'a net = "('a, network) prog"

definition OVERLAY_PING :: int where "OVERLAY_PING = 1"

definition side_of :: "Connection \<Rightarrow> side" where
  "side_of c = (if in_bound c then Server else Client)"

text \<open>The socket object the connection belongs to is there.\<close>

definition has_socket :: "Connection \<Rightarrow> bool" where
  "has_socket c = (if in_bound c then cn_server c else cn_client c)"

definition Connection_new :: "net_env \<Rightarrow> bool \<Rightarrow> bool \<Rightarrow> int \<Rightarrow> string \<Rightarrow> int \<Rightarrow> Connection net" where
  "Connection_new N server client h uri i =
     andThen (net_now (ne_lib N)) (\<lambda>now.
     let c = \<lparr>cn_server = server, cn_client = client, cn_handle = h,
              connect_end_time = (if server then now else 0), last_receive_time = now, cn_uri = uri, cn_id = i,
              in_bound = server, peer_address = [], connect_start_time = now, cn_sequence = 0, last_send_time = 0,
              cn_delay = 0\<rparr> in
     if \<not> has_socket c then ret c
     else
       andThen (read_state (GetConnectFromHandle (side_of c) h)) (\<lambda>con.
       case con of
         None \<Rightarrow> ret c
       | Some p \<Rightarrow> andThen (GetConnRemoteAddr (ne_lib N) p) (\<lambda>addr. ret (c\<lparr>peer_address := addr\<rparr>))))"

definition TouchReceiveTime :: "net_env \<Rightarrow> Connection \<Rightarrow> Connection net" where
  "TouchReceiveTime N c = andThen (net_now (ne_lib N)) (\<lambda>now. ret (c\<lparr>last_receive_time := now\<rparr>))"

definition SetConnectTime :: "net_env \<Rightarrow> Connection \<Rightarrow> Connection net" where
  "SetConnectTime N c =
     andThen (net_now (ne_lib N)) (\<lambda>now. ret (c\<lparr>connect_end_time := now, last_receive_time := now\<rparr>))"

text \<open>A time that has passed, and the half of it; \<open>/\<close> rounds towards zero.\<close>

definition since :: "net_env \<Rightarrow> int \<Rightarrow> int net" where
  "since N t = andThen (net_now (ne_lib N)) (\<lambda>now. add64 now (- t))"

definition half :: "int \<Rightarrow> int" where
  "half x = (if x < 0 then - (- x div 2) else x div 2)"

definition SetDelay :: "net_env \<Rightarrow> Connection \<Rightarrow> Connection net" where
  "SetDelay N c = andThen (since N (last_send_time c)) (\<lambda>d. ret (c\<lparr>cn_delay := half d\<rparr>))"

definition NeedPing :: "net_env \<Rightarrow> int \<Rightarrow> Connection \<Rightarrow> bool net" where
  "NeedPing N interval c =
     (if connect_end_time c > 0 then andThen (since N (last_send_time c)) (\<lambda>d. ret (d > interval)) else ret False)"

definition IsConnectExpired :: "net_env \<Rightarrow> int \<Rightarrow> Connection \<Rightarrow> bool net" where
  "IsConnectExpired N time_out c =
     (if connect_end_time c = 0 then
        andThen (since N (connect_start_time c)) (\<lambda>d. ret (d > time_out \<and> \<not> in_bound c))
      else ret False)"

definition IsDataExpired :: "net_env \<Rightarrow> int \<Rightarrow> Connection \<Rightarrow> bool net" where
  "IsDataExpired N time_out c =
     (if connect_end_time c > 0 then andThen (since N (last_receive_time c)) (\<lambda>d. ret (d > time_out)) else ret False)"

text \<open>\<open>GetErrorCode\<close> asks a connection for its error exactly when the pointer is null.\<close>

definition GetErrorCode :: "Connection \<Rightarrow> Result net" where
  "GetErrorCode c =
     (if has_socket c then
        andThen (read_state (GetConnectFromHandle (side_of c) (cn_handle c))) (\<lambda>con.
        case con of None \<Rightarrow> fault NullPointer | Some _ \<Rightarrow> ret new_Result)
      else ret new_Result)"

section \<open>Sending\<close>

definition socket_send :: "net_env \<Rightarrow> Connection \<Rightarrow> string \<Rightarrow> Result \<Rightarrow> Result net" where
  "socket_send N c message r =
     (if \<not> has_socket c then ret r
      else andThen (if in_bound c then WssSocketServer_Send (ne_lib N) (cn_handle c) message r
                    else WssSocketClient_Send (ne_lib N) (cn_handle c) message r) (\<lambda>(_, r). ret r))"

text \<open>The do-while loop with \<open>n\<close> tries left.\<close>

primrec send_loop :: "net_env \<Rightarrow> Connection \<Rightarrow> string \<Rightarrow> nat \<Rightarrow> Result \<Rightarrow> Result net" where
  "send_loop N c message 0 r = ret r"
| "send_loop N c message (Suc n) r =
     andThen (socket_send N c message r) (\<lambda>r.
     if 0 < n \<and> result_code r \<noteq> 0 then send_loop N c message n r else ret r)"

definition SendByteMessage :: "net_env \<Rightarrow> Connection \<Rightarrow> string \<Rightarrow> bool net" where
  "SendByteMessage N c message =
     andThen (send_loop N c message 3 new_Result) (\<lambda>r. ret (result_code r = 0))"

definition SendMsg :: "net_env \<Rightarrow> Connection \<Rightarrow> int \<Rightarrow> bool \<Rightarrow> int \<Rightarrow> string \<Rightarrow> bool net" where
  "SendMsg N c type request sequence data =
     SendByteMessage N c (pb_WsMessage (ne_pb N) \<lparr>wm_type = type, wm_request = request, wm_sequence = sequence, wm_data = data\<rparr>)"

definition SendRequest :: "net_env \<Rightarrow> Connection \<Rightarrow> int \<Rightarrow> string \<Rightarrow> (bool \<times> Connection) net" where
  "SendRequest N c type data =
     andThen (add64 (cn_sequence c) 1) (\<lambda>next.
     andThen (SendByteMessage N (c\<lparr>cn_sequence := next\<rparr>)
       (pb_WsMessage (ne_pb N) \<lparr>wm_type = type, wm_request = True, wm_sequence = cn_sequence c, wm_data = data\<rparr>)) (\<lambda>sent.
     ret (sent, c\<lparr>cn_sequence := next\<rparr>)))"

definition SendResponse :: "net_env \<Rightarrow> Connection \<Rightarrow> WsMessage \<Rightarrow> string \<Rightarrow> bool net" where
  "SendResponse N c req_message data = SendMsg N c (wm_type req_message) False (wm_sequence req_message) data"

text \<open>\<open>SocketConnection::Ping\<close> is not virtual and empty, so \<open>Connection::Ping\<close> sends nothing.\<close>

definition Connection_Ping :: "net_env \<Rightarrow> int \<Rightarrow> Connection \<Rightarrow> (bool \<times> Connection) net" where
  "Connection_Ping N ec c =
     andThen (if has_socket c then read_state (\<lambda>w. GetConnectFromHandle (side_of c) (cn_handle c) w = None) else ret False) (\<lambda>missing.
     if missing then ret (ec = 0, c)
     else andThen (net_now (ne_lib N)) (\<lambda>now. ret (ec = 0, c\<lparr>last_send_time := now\<rparr>)))"

definition PingCustom :: "net_env \<Rightarrow> int \<Rightarrow> Connection \<Rightarrow> (bool \<times> Connection) net" where
  "PingCustom N ec c =
     andThen (net_now (ne_lib N)) (\<lambda>nonce.
     andThen (SendRequest N c OVERLAY_PING (pb_Ping (ne_pb N) nonce)) (\<lambda>(_, c).
     andThen (net_now (ne_lib N)) (\<lambda>now.
     ret (ec = 0, c\<lparr>last_send_time := now\<rparr>))))"

definition Connection_Close :: "net_env \<Rightarrow> Connection \<Rightarrow> string \<Rightarrow> bool net" where
  "Connection_Close N c reason =
     (if \<not> has_socket c then ret True
      else if in_bound c then
        andThen (WssSocketServer_PauseReading (ne_lib N) (cn_handle c) new_Result) (\<lambda>(_, r).
        andThen (WssSocketServer_Close (ne_lib N) (cn_handle c) reason r) (\<lambda>_. ret True))
      else andThen (WssSocketClient_Close (ne_lib N) (cn_handle c) reason new_Result) (\<lambda>_. ret True))"

section \<open>The tables\<close>

definition new_network :: network where
  "new_network = \<lparr>server_conns = [], server_delay_delete_conns = [], client_conns = [], client_delay_delete_conns = [],
     hdl_to_ids = [], g_id = 1, conn_heap = (\<lambda>_. None), next_ptr = 0, net_trace = [],
     connect_time_out = 60 * 1000000, connections = [], connections_delete = [], connection_handles = [], next_id = 0,
     net_enabled = False, thread_inited = False, net_ec = 0, listen_port = 0\<rparr>"

definition store_conn :: "Connection \<Rightarrow> unit net" where
  "store_conn c = change (\<lambda>w. w\<lparr>connections := m_put (cn_id c) c (connections w)\<rparr>)"

definition GetConnection :: "int \<Rightarrow> network \<Rightarrow> Connection option" where
  "GetConnection i w = map_of (connections w) i"

definition GetConnectionFromHandle :: "int \<Rightarrow> network \<Rightarrow> Connection option" where
  "GetConnectionFromHandle h w =
     (case map_of (connection_handles w) h of None \<Rightarrow> None | Some i \<Rightarrow> GetConnection i w)"

definition RemoveConnection :: "net_env \<Rightarrow> Connection \<Rightarrow> unit net" where
  "RemoveConnection N conn =
     andThen (Connection_Close N conn ''no reason'') (\<lambda>_.
     andThen (net_now (ne_lib N)) (\<lambda>now.
     andThen (add64 now (5 * 1000000)) (\<lambda>time.
     change (\<lambda>w. w\<lparr>connections_delete := m_emplace time conn (connections_delete w),
        connections := m_erase (cn_id conn) (connections w),
        connection_handles := m_erase (cn_handle conn) (connection_handles w)\<rparr>))))"

definition RemoveConnection_id :: "net_env \<Rightarrow> int \<Rightarrow> unit net" where
  "RemoveConnection_id N conn_id =
     andThen (read_state (GetConnection conn_id)) (\<lambda>conn.
     case conn of None \<Rightarrow> ret () | Some conn \<Rightarrow> RemoveConnection N conn)"

definition insert_connection :: "Connection \<Rightarrow> unit net" where
  "insert_connection c =
     change (\<lambda>w. w\<lparr>connections := m_emplace (cn_id c) c (connections w),
        connection_handles := m_emplace (cn_handle c) (cn_id c) (connection_handles w)\<rparr>)"

definition take_id :: "int net" where
  "take_id =
     andThen (read_state next_id) (\<lambda>i. andThen (add64 i 1) (\<lambda>next. andThen (change (\<lambda>w. w\<lparr>next_id := next\<rparr>)) (\<lambda>_. ret i)))"

section \<open>Handlers\<close>

definition refuse_unless_open :: "net_env \<Rightarrow> Connection \<Rightarrow> string \<Rightarrow> unit net" where
  "refuse_unless_open N conn reason =
     (if on_connect_open (ne_hooks N) conn then ret ()
      else andThen (Connection_Close N conn reason) (\<lambda>_. RemoveConnection N conn))"

definition Network_OnOpen :: "net_env \<Rightarrow> int \<Rightarrow> unit net" where
  "Network_OnOpen N h =
     andThen take_id (\<lambda>new_id.
     andThen (Connection_new N True False h [] new_id) (\<lambda>conn.
     andThen (insert_connection conn) (\<lambda>_.
     refuse_unless_open N conn ''connections exceed'')))"

definition Network_OnClose :: "net_env \<Rightarrow> int \<Rightarrow> unit net" where
  "Network_OnClose N h =
     andThen (read_state (GetConnectionFromHandle h)) (\<lambda>conn.
     case conn of None \<Rightarrow> ret () | Some conn \<Rightarrow> RemoveConnection N conn)"

definition Network_OnFailed :: "net_env \<Rightarrow> int \<Rightarrow> unit net" where
  "Network_OnFailed N h =
     andThen (read_state (GetConnectionFromHandle h)) (\<lambda>conn.
     case conn of
       None \<Rightarrow> ret ()
     | Some conn \<Rightarrow> andThen (GetErrorCode conn) (\<lambda>_. RemoveConnection N conn))"

definition Network_OnClientOpen :: "net_env \<Rightarrow> int \<Rightarrow> unit net" where
  "Network_OnClientOpen N h =
     andThen (read_state (GetConnectionFromHandle h)) (\<lambda>conn.
     case conn of
       None \<Rightarrow> ret ()
     | Some conn \<Rightarrow>
         andThen (SetConnectTime N conn) (\<lambda>conn.
         andThen (store_conn conn) (\<lambda>_.
         refuse_unless_open N conn ''no reason'')))"

definition Network_OnPong :: "net_env \<Rightarrow> int \<Rightarrow> unit net" where
  "Network_OnPong N h =
     andThen (read_state (GetConnectionFromHandle h)) (\<lambda>peer.
     case peer of None \<Rightarrow> ret () | Some peer \<Rightarrow> andThen (TouchReceiveTime N peer) store_conn)"

definition OnRequestPing :: "net_env \<Rightarrow> WsMessage \<Rightarrow> int \<Rightarrow> bool net" where
  "OnRequestPing N message conn_id =
     (case parse_Ping (ne_pb N) (wm_data message) of
        None \<Rightarrow> ret False
      | Some nonce \<Rightarrow>
          andThen (read_state (GetConnection conn_id)) (\<lambda>con.
          case con of
            None \<Rightarrow> ret False
          | Some con \<Rightarrow> SendResponse N con message (pb_Pong (ne_pb N) nonce)))"

definition OnResponsePing :: "net_env \<Rightarrow> WsMessage \<Rightarrow> int \<Rightarrow> bool net" where
  "OnResponsePing N message conn_id =
     (case parse_Pong (ne_pb N) (wm_data message) of
        None \<Rightarrow> ret False
      | Some _ \<Rightarrow>
          andThen (read_state (GetConnection conn_id)) (\<lambda>conn.
          case conn of
            None \<Rightarrow> ret True
          | Some conn \<Rightarrow>
              andThen (TouchReceiveTime N conn) (\<lambda>conn.
              andThen (SetDelay N conn) (\<lambda>conn.
              andThen (store_conn conn) (\<lambda>_. ret True)))))"

text \<open>The only registered type is the ping; \<open>None\<close>: no method, the message is dropped.\<close>

definition process_message :: "net_env \<Rightarrow> WsMessage \<Rightarrow> int \<Rightarrow> bool option net" where
  "process_message N message conn_id =
     (if wm_type message \<noteq> OVERLAY_PING then ret None
      else if wm_request message then andThen (OnRequestPing N message conn_id) (\<lambda>r. ret (Some r))
      else andThen (OnResponsePing N message conn_id) (\<lambda>r. ret (Some r)))"

definition Network_OnMessage :: "net_env \<Rightarrow> int \<Rightarrow> string \<Rightarrow> unit net" where
  "Network_OnMessage N h msg =
     (let message = parse_WsMessage (ne_pb N) msg in
      andThen (read_state (GetConnectionFromHandle h)) (\<lambda>conn.
      case conn of
        None \<Rightarrow> ret ()
      | Some conn \<Rightarrow>
          andThen (TouchReceiveTime N conn) (\<lambda>conn.
          andThen (store_conn conn) (\<lambda>_.
          andThen (process_message N message (cn_id conn)) (\<lambda>r.
          if r = Some False then RemoveConnection_id N (cn_id conn) else ret ())))))"

definition Network_Connect :: "net_env \<Rightarrow> string \<Rightarrow> bool net" where
  "Network_Connect N uri =
     andThen (WssSocketClient_GetConnect (ne_lib N) uri new_Result) (\<lambda>(con, _).
     case con of
       None \<Rightarrow> ret False
     | Some con \<Rightarrow>
         andThen (GetHandle con) (\<lambda>h.
         andThen take_id (\<lambda>new_id.
         andThen (Connection_new N False True h uri new_id) (\<lambda>peer.
         andThen (insert_connection peer) (\<lambda>_.
         andThen (WssSocketClient_Connect (ne_lib N) h) (\<lambda>_.
         ret True))))))"

section \<open>The network thread\<close>

text \<open>The connection of the iterator, looked at once; \<open>None\<close>: it stays.\<close>

definition check_connection :: "net_env \<Rightarrow> int \<Rightarrow> Connection \<Rightarrow> Connection list net" where
  "check_connection N now c =
     andThen (read_state connect_time_out) (\<lambda>time_out.
     andThen (NeedPing N (time_out div 4) c) (\<lambda>need.
     andThen (if need then
         andThen (read_state net_ec) (\<lambda>ec.
         andThen (PingCustom N ec c) (\<lambda>(_, c).
         andThen (store_conn c) (\<lambda>_. ret c)))
       else ret c) (\<lambda>c.
     andThen (IsDataExpired N time_out c) (\<lambda>expired.
     andThen (if expired then andThen (Connection_Close N c ''expired'') (\<lambda>_. ret [c]) else ret []) (\<lambda>l.
     if on_network_timer (ne_hooks N) c now then ret l
     else andThen (Connection_Close N c ''app error'') (\<lambda>_. ret (l @ [c])))))))"

primrec check_connections :: "net_env \<Rightarrow> int \<Rightarrow> (int \<times> Connection) list \<Rightarrow> Connection list net" where
  "check_connections N now [] = ret []"
| "check_connections N now (ic # l) =
     andThen (check_connection N now (snd ic)) (\<lambda>d. andThen (check_connections N now l) (\<lambda>ds. ret (d @ ds)))"

primrec remove_all :: "net_env \<Rightarrow> Connection list \<Rightarrow> unit net" where
  "remove_all N [] = ret ()"
| "remove_all N (c # l) = andThen (RemoveConnection N c) (\<lambda>_. remove_all N l)"

text \<open>One check of all connections; it returns the new \<open>last_check_time\<close>.\<close>

definition check_all :: "net_env \<Rightarrow> int \<Rightarrow> int net" where
  "check_all N now =
     andThen (read_state connections) (\<lambda>l.
     andThen (check_connections N now l) (\<lambda>delete_list.
     andThen (remove_all N delete_list) (\<lambda>_.
     andThen (change (\<lambda>w. w\<lparr>connections_delete := filter (\<lambda>x. \<not> fst x < now) (connections_delete w)\<rparr>)) (\<lambda>_.
     ret now))))"

text \<open>One turn of the loop.\<close>

definition network_turn :: "net_env \<Rightarrow> int \<Rightarrow> int net" where
  "network_turn N last_check =
     andThen (net_now (ne_lib N)) (\<lambda>now.
     andThen (add64 now (- last_check)) (\<lambda>d.
     if d > 1000000 then check_all N now else ret last_check))"

text \<open>What \<open>Start\<close> does before its loop; \<open>ip\<close> is \<open>None\<close> for an address that \<open>IsNone\<close>.\<close>

definition Start_setup :: "net_env \<Rightarrow> string option \<Rightarrow> bool net" where
  "Start_setup N ip =
     andThen
       (case ip of
          None \<Rightarrow> ret True
        | Some ip \<Rightarrow>
            andThen (WssSocketServer_Listen (ne_lib N) ip new_Result) (\<lambda>(_, err).
            if result_code err \<noteq> 0 then ret False
            else
              andThen (WssSocketServer_StartAccept (ne_lib N) err) (\<lambda>(_, err).
              if result_code err \<noteq> 0 then ret False
              else andThen (change (\<lambda>w. w\<lparr>listen_port := ws_local_port (ne_lib N) (net_trace w)\<rparr>)) (\<lambda>_. ret True)))) (\<lambda>init_res.
     andThen (change (\<lambda>w. w\<lparr>thread_inited := True, net_enabled := init_res \<or> net_enabled w\<rparr>)) (\<lambda>_. ret init_res))"

definition Network_Stop :: "unit net" where
  "Network_Stop = change (\<lambda>w. w\<lparr>net_enabled := False\<rparr>)"

primrec network_loop :: "net_env \<Rightarrow> nat \<Rightarrow> int \<Rightarrow> int net" where
  "network_loop N 0 last_check = ret last_check"
| "network_loop N (Suc n) last_check =
     andThen (read_state net_enabled) (\<lambda>enabled.
     if enabled then andThen (network_turn N last_check) (network_loop N n) else ret last_check)"

section \<open>Events\<close>

text \<open>What the library and the timers make happen: events of the server carry the handle of the library,
  events of a client connection its object.\<close>

datatype net_event =
    ServerOpen hdl | ServerClose hdl | ServerMessage hdl string | ServerFailed hdl | ServerPong hdl
  | ClientOpen ptr | ClientClose ptr | ClientMessage ptr string | ClientFailed ptr | ClientPong ptr
  | ConnectTo string | Turn int | SocketTimers int

definition with_server_handle :: "hdl \<Rightarrow> bool \<Rightarrow> (int \<Rightarrow> unit net) \<Rightarrow> unit net" where
  "with_server_handle h known k =
     andThen (read_state (server_handle h)) (\<lambda>out_hdl. if known \<and> out_hdl < 0 then ret () else k out_hdl)"

definition with_client :: "ptr \<Rightarrow> (int \<Rightarrow> unit net) \<Rightarrow> unit net" where
  "with_client p k = andThen (deref p) (\<lambda>c. k (wc_id c))"

fun handle_event :: "net_env \<Rightarrow> net_event \<Rightarrow> unit net" where
  "handle_event N (ServerOpen h) =
     andThen (WssSocketServer_OnOpen (ne_lib N) h) (\<lambda>i. if i < 0 then ret () else Network_OnOpen N i)"
| "handle_event N (ServerClose h) = with_server_handle h True (Network_OnClose N)"
| "handle_event N (ServerMessage h msg) = with_server_handle h True (\<lambda>i. Network_OnMessage N i msg)"
| "handle_event N (ServerFailed h) = with_server_handle h False (Network_OnFailed N)"
| "handle_event N (ServerPong h) = with_server_handle h False (Network_OnPong N)"
| "handle_event N (ClientOpen p) = with_client p (Network_OnClientOpen N)"
| "handle_event N (ClientClose p) = with_client p (Network_OnClose N)"
| "handle_event N (ClientMessage p msg) = with_client p (\<lambda>i. Network_OnMessage N i msg)"
| "handle_event N (ClientFailed p) = with_client p (Network_OnFailed N)"
| "handle_event N (ClientPong p) = with_client p (Network_OnPong N)"
| "handle_event N (ConnectTo uri) = andThen (Network_Connect N uri) (\<lambda>_. ret ())"
| "handle_event N (Turn last_check) = andThen (network_turn N last_check) (\<lambda>_. ret ())"
| "handle_event N (SocketTimers t) = andThen (SocketClient_OnTimer t) (\<lambda>_. SocketServer_OnTimer t)"

end
