(* ===== verification/Network_Facts.thy ===== *)
theory Network_Facts
  imports Network
begin

text \<open>
  What holds of the network in every run: the tables of \<open>Network\<close> and of the socket adapter stay in step
  (\<open>network_ok\<close>), and no handler follows a null pointer or one to a deleted object. \<open>evolved\<close> and \<open>acts\<close> say
  what an operation of the adapter may do to the network around it; the triples of \<open>Programs\<close> carry the rest.
  The last sections treat the check of silent connections and sending.
\<close>

section \<open>What the adapter may change\<close>

text \<open>\<open>evolved X w w'\<close>: a step of the adapter that leaves the tables of the network alone and loses at most
  the sockets \<open>X\<close>.\<close>

definition evolved :: "(side \<times> int) set \<Rightarrow> network \<Rightarrow> network \<Rightarrow> bool" where
  "evolved X w w' \<longleftrightarrow> adapter_ok w' \<and> adapter.more w' = adapter.more w \<and> g_id w \<le> g_id w' \<and>
     (\<forall>s h. (s, h) \<notin> X \<longrightarrow> GetConnectFromHandle s h w \<noteq> None \<longrightarrow> GetConnectFromHandle s h w' \<noteq> None)"

definition acts :: "(side \<times> int) set \<Rightarrow> 'a net \<Rightarrow> ('a \<Rightarrow> bool) \<Rightarrow> bool" where
  "acts X m Q \<longleftrightarrow> (\<forall>w. adapter_ok w \<longrightarrow>
     (case m w of Done a w' \<Rightarrow> evolved X w w' \<and> Q a | Fault f w' \<Rightarrow> f = SignedOverflow))"

lemma evolved_refl: "adapter_ok w \<Longrightarrow> evolved X w w"
  by (simp add: evolved_def)

lemma evolved_trans: "evolved X w w' \<Longrightarrow> evolved X w' w'' \<Longrightarrow> evolved X w w''"
  unfolding evolved_def by fastforce

lemma acts_ret: "Q a \<Longrightarrow> acts X (ret a) Q"
  by (simp add: acts_def ret_def evolved_refl)

lemma acts_read: "acts X (read_state f) (\<lambda>_. True)"
  by (simp add: acts_def read_state_def evolved_refl)

lemma acts_andThen: "acts X m R \<Longrightarrow> (\<And>a. R a \<Longrightarrow> acts X (k a) Q) \<Longrightarrow> acts X (andThen m k) Q"
  unfolding acts_def
proof (intro allI impI)
  fix w :: network
  assume m: "\<forall>w. adapter_ok w \<longrightarrow> (case m w of Done a w' \<Rightarrow> evolved X w w' \<and> R a | Fault f w' \<Rightarrow> f = SignedOverflow)"
    and k: "\<And>a. R a \<Longrightarrow> \<forall>w. adapter_ok w \<longrightarrow> (case k a w of Done b w' \<Rightarrow> evolved X w w' \<and> Q b | Fault f w' \<Rightarrow> f = SignedOverflow)"
    and ok: "adapter_ok w"
  show "case andThen m k w of Done b w' \<Rightarrow> evolved X w w' \<and> Q b | Fault f w' \<Rightarrow> f = SignedOverflow"
  proof (cases "m w")
    case (Done a w1)
    with m ok have ev: "evolved X w w1" "R a" by (auto dest: spec [of _ w])
    then have "adapter_ok w1" by (simp add: evolved_def)
    with k [OF ev(2)] ev(1) Done show ?thesis
      by (auto simp: andThen_def split: outcome.splits dest!: spec [of _ w1] intro: evolved_trans)
  next
    case (Fault f w1)
    with m ok show ?thesis by (auto simp: andThen_def dest: spec [of _ w])
  qed
qed

lemma acts_any: "acts X m Q \<Longrightarrow> acts X m (\<lambda>_. True)"
  by (force simp: acts_def split: outcome.splits)

lemma acts_if: "(b \<Longrightarrow> acts X m Q) \<Longrightarrow> (\<not> b \<Longrightarrow> acts X n Q) \<Longrightarrow> acts X (if b then m else n) Q"
  by simp

lemma acts_option: "(x = None \<Longrightarrow> acts X m Q) \<Longrightarrow> (\<And>a. x = Some a \<Longrightarrow> acts X (k a) Q) \<Longrightarrow> acts X (case x of None \<Rightarrow> m | Some a \<Rightarrow> k a) Q"
  by (cases x) simp_all

lemma acts_prod: "(\<And>a b. p = (a, b) \<Longrightarrow> acts X (k a b) Q) \<Longrightarrow> acts X (case p of (a, b) \<Rightarrow> k a b) Q"
  by (cases p) simp

lemma evolved_log: "adapter_ok w \<Longrightarrow> evolved X w (net_log io w)"
  by (simp add: evolved_def GetConnectFromHandle_def)

lemma acts_now: "acts X (net_now L) (\<lambda>_. True)"
  by (simp add: acts_def net_now_def evolved_log)

lemma acts_call: "acts X (ws_call L io r) (\<lambda>_. True)"
  by (simp add: acts_def ws_call_def evolved_log split: prod.splits)

lemma acts_add64: "acts X (add64 a b) (\<lambda>r. r = a + b)"
  by (simp add: acts_def add64_def ret_def fault_def evolved_refl)

lemma evolved_moved:
  assumes "adapter_ok w" and "GetConnectFromHandle s h w = Some p" and "(s, h) \<in> X"
  shows "evolved X w (conn_moved s h t p (net_log io' (net_log io w)))"
proof -
  have "adapter_ok (conn_moved s h t p (net_log io' (net_log io w)))"
    using assms by (intro moved_ok) (simp_all add: GetConnectFromHandle_def)
  moreover have "GetConnectFromHandle s' h' (conn_moved s h t p (net_log io' (net_log io w))) \<noteq> None"
    if "(s', h') \<notin> X" "GetConnectFromHandle s' h' w \<noteq> None" for s' h'
  proof (cases "s' = s")
    case True
    then have "h' \<noteq> h" using that assms(3) by auto
    moreover have "sorted_map (conns s w)" using assms(1) by (simp add: adapter_ok_def tables_sorted_side)
    ultimately show ?thesis using that True by (simp add: GetConnectFromHandle_def map_of_erase)
  next
    case False
    then show ?thesis using that by (simp add: GetConnectFromHandle_def)
  qed
  ultimately show ?thesis by (simp add: evolved_def)
qed

lemma acts_close: "(s, h) \<in> X \<Longrightarrow> acts X (close_conn L s d h r ec) (\<lambda>_. True)"
  unfolding acts_def close_conn_run
  by (auto simp: Let_def evolved_refl split: option.splits prod.splits intro: evolved_moved dest: found_heap)

lemma acts_call_on:
  "acts X (andThen (read_state (GetConnectFromHandle s h)) (\<lambda>iter.
      case iter of None \<Rightarrow> ret x | Some p \<Rightarrow> andThen (deref p) (\<lambda>c. andThen (ws_call L (io c) ec) (\<lambda>e. ret (f e))))) (\<lambda>_. True)"
  unfolding acts_def
proof (intro allI impI)
  fix w :: network
  assume ok: "adapter_ok w"
  have found: "\<exists>c. conn_heap w p = Some c" if "GetConnectFromHandle s h w = Some p" for p using found_heap [OF ok that] .
  show "case andThen (read_state (GetConnectFromHandle s h)) (\<lambda>iter.
      case iter of None \<Rightarrow> ret x | Some p \<Rightarrow> andThen (deref p) (\<lambda>c. andThen (ws_call L (io c) ec) (\<lambda>e. ret (f e)))) w of
      Done a w' \<Rightarrow> evolved X w w' \<and> True | Fault f w' \<Rightarrow> f = SignedOverflow"
    using evolved_refl [OF ok, of X] evolved_log [OF ok, of X]
    by (auto simp: prog_simps deref_def ws_call_def split: option.splits prod.splits dest!: found)
qed

lemma acts_send: "acts X (send_conn L s h message ec) (\<lambda>_. True)"
  unfolding send_conn_def by (rule acts_call_on)

lemma acts_pause: "acts X (WssSocketServer_PauseReading L h ec) (\<lambda>_. True)"
  unfolding WssSocketServer_PauseReading_def by (rule acts_call_on)

lemma acts_connect: "acts X (WssSocketClient_Connect L h) (\<lambda>_. True)"
  unfolding WssSocketClient_Connect_def by (rule acts_call_on)

lemma acts_remote:
  assumes "Q x" and "\<And>a. Q (f a)"
  shows "acts X (andThen (read_state (GetConnectFromHandle s h)) (\<lambda>con.
      case con of None \<Rightarrow> ret x | Some p \<Rightarrow> andThen (GetConnRemoteAddr L p) (\<lambda>addr. ret (f addr)))) Q"
  unfolding acts_def
proof (intro allI impI)
  fix w :: network
  assume ok: "adapter_ok w"
  have found: "\<exists>c. conn_heap w p = Some c" if "GetConnectFromHandle s h w = Some p" for p using found_heap [OF ok that] .
  show "case andThen (read_state (GetConnectFromHandle s h)) (\<lambda>con.
      case con of None \<Rightarrow> ret x | Some p \<Rightarrow> andThen (GetConnRemoteAddr L p) (\<lambda>addr. ret (f addr))) w of
      Done a w' \<Rightarrow> evolved X w w' \<and> Q a | Fault f w' \<Rightarrow> f = SignedOverflow"
    using evolved_refl [OF ok, of X] assms
    by (auto simp: prog_simps deref_def GetConnRemoteAddr_def split: option.splits dest!: found)
qed

section \<open>Connections under the methods\<close>

text \<open>What the methods never change.\<close>

definition same_conn :: "Connection \<Rightarrow> Connection \<Rightarrow> bool" where
  "same_conn c c' \<longleftrightarrow> cn_id c' = cn_id c \<and> cn_handle c' = cn_handle c \<and> in_bound c' = in_bound c \<and>
     cn_server c' = cn_server c \<and> cn_client c' = cn_client c"

lemma acts_touch: "acts X (TouchReceiveTime N c) (same_conn c)"
  unfolding TouchReceiveTime_def by (intro acts_andThen [OF acts_now] acts_ret) (simp add: same_conn_def)

lemma acts_connect_time: "acts X (SetConnectTime N c) (same_conn c)"
  unfolding SetConnectTime_def by (intro acts_andThen [OF acts_now] acts_ret) (simp add: same_conn_def)

lemma acts_since: "acts X (since N t) (\<lambda>_. True)"
  unfolding since_def by (intro acts_andThen [OF acts_now] acts_any [OF acts_add64])

lemma acts_delay: "acts X (SetDelay N c) (same_conn c)"
  unfolding SetDelay_def by (intro acts_andThen [OF acts_since] acts_ret) (simp add: same_conn_def)

lemma acts_need_ping: "acts X (NeedPing N t c) (\<lambda>_. True)"
  unfolding NeedPing_def by (intro acts_if acts_andThen [OF acts_since] acts_ret) simp_all

lemma acts_expired: "acts X (IsDataExpired N t c) (\<lambda>_. True)"
  unfolding IsDataExpired_def by (intro acts_if acts_andThen [OF acts_since] acts_ret) simp_all

lemma acts_socket_send: "acts X (socket_send N c m r) (\<lambda>_. True)"
  unfolding socket_send_def WssSocketServer_Send_def WssSocketClient_Send_def
  by (intro acts_if acts_andThen [where R = "\<lambda>_. True"] acts_send acts_prod acts_ret) simp_all

lemma acts_send_loop: "acts X (send_loop N c m n r) (\<lambda>_. True)"
proof (induction n arbitrary: r)
  case (Suc n)
  then show ?case by (auto intro!: acts_andThen [OF acts_socket_send] acts_if acts_ret simp del: not_gr_zero)
qed (simp add: acts_ret)

lemma acts_SendByteMessage: "acts X (SendByteMessage N c m) (\<lambda>_. True)"
  unfolding SendByteMessage_def by (intro acts_andThen [OF acts_send_loop] acts_ret) simp

lemma acts_SendResponse: "acts X (SendResponse N c m d) (\<lambda>_. True)"
  unfolding SendResponse_def SendMsg_def by (rule acts_SendByteMessage)

lemma acts_SendRequest: "acts X (SendRequest N c t d) (\<lambda>r. same_conn c (snd r))"
  unfolding SendRequest_def
  by (intro acts_andThen [OF acts_add64] acts_andThen [OF acts_SendByteMessage] acts_ret) (simp add: same_conn_def)

lemma same_conn_trans: "same_conn c c' \<Longrightarrow> same_conn c' c'' \<Longrightarrow> same_conn c c''"
  by (simp add: same_conn_def)

lemma acts_PingCustom: "acts X (PingCustom N ec c) (\<lambda>r. same_conn c (snd r))"
  unfolding PingCustom_def
  by (intro acts_andThen [OF acts_now] acts_andThen [OF acts_SendRequest] acts_prod acts_ret) (auto simp: same_conn_def)

lemma acts_Close: "(side_of c, cn_handle c) \<in> X \<Longrightarrow> acts X (Connection_Close N c reason) (\<lambda>_. True)"
  unfolding Connection_Close_def WssSocketServer_Close_def WssSocketClient_Close_def
  by (intro acts_if acts_ret acts_andThen [OF acts_pause] acts_prod acts_andThen [OF acts_close]) (simp_all add: side_of_def)

definition fresh_conn :: "bool \<Rightarrow> int \<Rightarrow> int \<Rightarrow> Connection \<Rightarrow> bool" where
  "fresh_conn server h i c \<longleftrightarrow> cn_id c = i \<and> cn_handle c = h \<and> in_bound c = server \<and> cn_server c = server \<and> cn_client c = (\<not> server)"

lemma acts_Connection_new: "acts X (Connection_new N server (\<not> server) h uri i) (fresh_conn server h i)"
  unfolding Connection_new_def Let_def
  by (intro acts_andThen [OF acts_now] acts_if acts_ret acts_remote)
    (simp_all add: fresh_conn_def)

section \<open>The tables in step\<close>

text \<open>Connections and handles belong together one to one, and every connection outside \<open>D\<close> has its socket
  object. \<open>D\<close> are the connections a check has closed but not yet removed.\<close>

definition conn_ok :: "int set \<Rightarrow> network \<Rightarrow> int \<Rightarrow> Connection \<Rightarrow> bool" where
  "conn_ok D w i c \<longleftrightarrow> cn_id c = i \<and> i < next_id w \<and> cn_server c = in_bound c \<and> cn_client c = (\<not> in_bound c) \<and>
     map_of (connection_handles w) (cn_handle c) = Some i \<and> cn_handle c < g_id w \<and>
     (i \<notin> D \<longrightarrow> GetConnectFromHandle (side_of c) (cn_handle c) w \<noteq> None)"

definition network_ok :: "int set \<Rightarrow> network \<Rightarrow> bool" where
  "network_ok D w \<longleftrightarrow> adapter_ok w \<and> sorted_map (connections w) \<and> sorted_map (connections_delete w) \<and>
     sorted_map (connection_handles w) \<and> (\<forall>i c. GetConnection i w = Some c \<longrightarrow> conn_ok D w i c) \<and>
     (\<forall>h i. map_of (connection_handles w) h = Some i \<longrightarrow> (\<exists>c. GetConnection i w = Some c \<and> cn_handle c = h))"

lemma more_fields:
  fixes w w' :: network
  assumes "adapter.more w' = adapter.more w"
  shows "connections w' = connections w" "connections_delete w' = connections_delete w"
    "connection_handles w' = connection_handles w" "next_id w' = next_id w" "connect_time_out w' = connect_time_out w"
    "GetConnection i w' = GetConnection i w"
  using assms by (cases w; cases w'; simp add: GetConnection_def)+

lemma network_ok_evolved:
  assumes ok: "network_ok D w" and ev: "evolved X w w'"
    and lost: "\<And>i c. GetConnection i w = Some c \<Longrightarrow> (side_of c, cn_handle c) \<in> X \<Longrightarrow> i \<in> D'" and D: "D \<subseteq> D'"
  shows "network_ok D' w'"
proof -
  have more: "adapter.more w' = adapter.more w" and ad: "adapter_ok w'" "g_id w \<le> g_id w'" using ev by (auto simp: evolved_def)
  have "conn_ok D' w' i c" if "GetConnection i w = Some c" for i c
  proof -
    have c: "conn_ok D w i c" using ok that by (simp add: network_ok_def)
    moreover have "GetConnectFromHandle (side_of c) (cn_handle c) w' \<noteq> None" if "i \<notin> D'"
    proof -
      have "(side_of c, cn_handle c) \<notin> X" using lost [OF \<open>GetConnection i w = Some c\<close>] that by blast
      moreover have "GetConnectFromHandle (side_of c) (cn_handle c) w \<noteq> None" using c that D unfolding conn_ok_def by blast
      ultimately show ?thesis using ev unfolding evolved_def by blast
    qed
    ultimately show ?thesis using ad(2) by (auto simp: conn_ok_def more_fields [OF more])
  qed
  then show ?thesis using ok ad(1) by (auto simp: network_ok_def more_fields [OF more])
qed

abbreviation "overflow_only \<equiv> {SignedOverflow}"

text \<open>A step of the adapter that loses no socket, run in the network; \<open>R\<close> is about the tables of the network.\<close>

definition table_only :: "(network \<Rightarrow> bool) \<Rightarrow> bool" where
  "table_only R \<longleftrightarrow> (\<forall>w w'. adapter.more w' = adapter.more w \<longrightarrow> R w \<longrightarrow> R w')"

lemma acts_hoare:
  assumes "acts {} m Q" and "table_only R"
  shows "hoare overflow_only (\<lambda>w. network_ok D w \<and> R w) m (\<lambda>a w. network_ok D w \<and> R w \<and> Q a)"
  unfolding hoare_def
proof (intro allI impI)
  fix w :: network
  assume w: "network_ok D w \<and> R w"
  then have "adapter_ok w" by (simp add: network_ok_def)
  with assms(1) have m: "case m w of Done a w' \<Rightarrow> evolved {} w w' \<and> Q a | Fault f w' \<Rightarrow> f = SignedOverflow"
    by (simp add: acts_def)
  show "case m w of Done a w' \<Rightarrow> network_ok D w' \<and> R w' \<and> Q a | Fault f w' \<Rightarrow> f \<in> overflow_only"
  proof (cases "m w")
    case (Done a w')
    with m have ev: "evolved {} w w'" "Q a" by simp_all
    then have "network_ok D w'" using network_ok_evolved [of D w "{}" w' D] w by simp
    moreover have "R w'" using assms(2) w ev(1) by (simp add: table_only_def evolved_def)
    ultimately show ?thesis using Done ev(2) by simp
  qed (use m in simp)
qed

lemma table_only_present: "table_only (\<lambda>w. GetConnection i w = x)"
  unfolding table_only_def by (metis more_fields(6))

lemma table_only_True: "table_only (\<lambda>_. True)"
  by (simp add: table_only_def)

section \<open>Storing and removing\<close>

lemma same_side: "same_conn c c' \<Longrightarrow> side_of c' = side_of c"
  by (simp add: same_conn_def side_of_def)

lemma conns_more [simp]:
  "GetConnectFromHandle s h (w\<lparr>connections := m\<rparr>) = GetConnectFromHandle s h w"
  "GetConnectFromHandle s h (w\<lparr>connections_delete := md\<rparr>) = GetConnectFromHandle s h w"
  "GetConnectFromHandle s h (w\<lparr>connection_handles := mh\<rparr>) = GetConnectFromHandle s h w"
  "GetConnectFromHandle s h (w\<lparr>next_id := n\<rparr>) = GetConnectFromHandle s h w"
  by (cases s; simp add: GetConnectFromHandle_def)+

lemma adapter_ok_fields [simp]:
  "adapter_ok (w\<lparr>connections := m\<rparr>) = adapter_ok w" "adapter_ok (w\<lparr>connections_delete := md\<rparr>) = adapter_ok w"
  "adapter_ok (w\<lparr>connection_handles := mh\<rparr>) = adapter_ok w" "adapter_ok (w\<lparr>next_id := n\<rparr>) = adapter_ok w"
proof -
  have "conns s (w\<lparr>connections := m\<rparr>) = conns s w" "conns s (w\<lparr>connections_delete := md\<rparr>) = conns s w"
    "conns s (w\<lparr>connection_handles := mh\<rparr>) = conns s w" "conns s (w\<lparr>next_id := n\<rparr>) = conns s w" for s by (cases s; simp)+
  then show "adapter_ok (w\<lparr>connections := m\<rparr>) = adapter_ok w" "adapter_ok (w\<lparr>connections_delete := md\<rparr>) = adapter_ok w"
    "adapter_ok (w\<lparr>connection_handles := mh\<rparr>) = adapter_ok w" "adapter_ok (w\<lparr>next_id := n\<rparr>) = adapter_ok w"
    by (simp_all add: adapter_ok_def tables_sorted_def entries_ok_def owned_def)
qed

lemma handle_conn:
  "network_ok D w \<Longrightarrow> map_of (connection_handles w) h = Some i \<Longrightarrow> \<exists>c. GetConnection i w = Some c \<and> cn_handle c = h"
  unfolding network_ok_def by blast

lemma store_ok:
  assumes ok: "network_ok D w" and old: "GetConnection (cn_id c) w = Some c0" and same: "same_conn c0 c"
  shows "network_ok D (w\<lparr>connections := m_put (cn_id c) c (connections w)\<rparr>)" (is "network_ok D ?w")
proof -
  have get: "GetConnection i ?w = (if i = cn_id c then Some c else GetConnection i w)" for i
    using ok by (simp add: GetConnection_def map_of_put network_ok_def)
  have c0: "conn_ok D w (cn_id c) c0" using ok old by (simp add: network_ok_def)
  then have "conn_ok D ?w (cn_id c) c" using same same_side [OF same] by (simp add: conn_ok_def same_conn_def)
  moreover have "conn_ok D ?w i d" if "conn_ok D w i d" for i d using that by (simp add: conn_ok_def)
  moreover have "\<exists>d. GetConnection i ?w = Some d \<and> cn_handle d = h" if h: "map_of (connection_handles w) h = Some i" for h i
  proof -
    obtain d where d: "GetConnection i w = Some d" "cn_handle d = h" using handle_conn [OF ok h] by blast
    have "GetConnection i ?w = Some (if i = cn_id c then c else d)" unfolding get using d by simp
    moreover have "cn_handle (if i = cn_id c then c else d) = h" using d old same by (auto simp: same_conn_def)
    ultimately show ?thesis by blast
  qed
  ultimately show ?thesis using ok by (auto simp: network_ok_def get split: if_splits)
qed

text \<open>A connection that may be removed: it is there, or it is gone together with its handle.\<close>

definition removable :: "Connection \<Rightarrow> network \<Rightarrow> bool" where
  "removable c w \<longleftrightarrow> (\<exists>c0. GetConnection (cn_id c) w = Some c0 \<and> same_conn c0 c) \<or>
     (GetConnection (cn_id c) w = None \<and> map_of (connection_handles w) (cn_handle c) = None)"

lemma same_handle_same_id:
  "network_ok D w \<Longrightarrow> GetConnection i w = Some c \<Longrightarrow> map_of (connection_handles w) (cn_handle c) = Some i"
  by (simp add: network_ok_def conn_ok_def)

lemma erase_ok:
  assumes ok: "network_ok (insert (cn_id c) D) w" and rem: "removable c w"
  shows "network_ok (D - {cn_id c}) (w\<lparr>connections_delete := m_emplace t c (connections_delete w),
     connections := m_erase (cn_id c) (connections w), connection_handles := m_erase (cn_handle c) (connection_handles w)\<rparr>)"
    (is "network_ok _ ?w")
proof -
  have sorted: "sorted_map (connections w)" "sorted_map (connection_handles w)" "sorted_map (connections_delete w)"
    using ok by (auto simp: network_ok_def)
  have get: "GetConnection i ?w = (if i = cn_id c then None else GetConnection i w)" for i
    by (simp add: GetConnection_def map_of_erase sorted)
  have other: "cn_handle d \<noteq> cn_handle c" if "GetConnection i w = Some d" "i \<noteq> cn_id c" for i d
  proof
    assume "cn_handle d = cn_handle c"
    then have h: "map_of (connection_handles w) (cn_handle c) = Some i" using same_handle_same_id [OF ok that(1)] by simp
    then obtain c0 where "GetConnection (cn_id c) w = Some c0" "cn_handle c0 = cn_handle c"
      using rem by (auto simp: removable_def same_conn_def)
    with same_handle_same_id [OF ok] h that(2) show False by fastforce
  qed
  have "conn_ok (D - {cn_id c}) ?w i d" if "GetConnection i w = Some d" "i \<noteq> cn_id c" for i d
    using ok that other [OF that] by (auto simp: network_ok_def conn_ok_def map_of_erase sorted)
  moreover have "\<exists>d. GetConnection i ?w = Some d \<and> cn_handle d = h" if "map_of (connection_handles ?w) h = Some i" for h i
  proof -
    from that have h: "map_of (connection_handles w) h = Some i" "h \<noteq> cn_handle c"
      by (auto simp: map_of_erase sorted split: if_splits)
    then obtain d where d: "GetConnection i w = Some d" "cn_handle d = h" using handle_conn [OF ok h(1)] by blast
    moreover have "i \<noteq> cn_id c" using d h(2) rem by (auto simp: removable_def same_conn_def)
    ultimately show ?thesis by (simp add: get)
  qed
  ultimately show ?thesis using ok sorted by (auto simp: network_ok_def get split: if_splits)
qed


section \<open>The handlers\<close>

text \<open>A handler looks a connection up and goes on with it, if there is one.\<close>

lemma find_ok:
  assumes "\<And>w i c. network_ok {} w \<Longrightarrow> look w = Some c \<Longrightarrow> GetConnection (cn_id c) w = Some c"
    and "\<And>c. hoare overflow_only (\<lambda>w. network_ok {} w \<and> GetConnection (cn_id c) w = Some c) (k c) (\<lambda>_. network_ok {})"
  shows "hoare overflow_only (network_ok {}) (andThen (read_state look) (\<lambda>x. case x of None \<Rightarrow> ret r | Some c \<Rightarrow> k c)) (\<lambda>_. network_ok {})"
  unfolding hoare_def
proof (intro allI impI)
  fix w
  assume ok: "network_ok {} w"
  show "case andThen (read_state look) (\<lambda>x. case x of None \<Rightarrow> ret r | Some c \<Rightarrow> k c) w of
      Done a w' \<Rightarrow> network_ok {} w' | Fault f w' \<Rightarrow> f \<in> overflow_only"
  proof (cases "look w")
    case None
    with ok show ?thesis by (simp add: prog_simps)
  next
    case (Some c)
    then have "GetConnection (cn_id c) w = Some c" using assms(1) ok by blast
    with ok Some assms(2) [of c] show ?thesis by (simp add: prog_simps hoare_def)
  qed
qed

lemma found_by_handle: "network_ok D w \<Longrightarrow> GetConnectionFromHandle h w = Some c \<Longrightarrow> GetConnection (cn_id c) w = Some c"
  by (auto simp: GetConnectionFromHandle_def network_ok_def conn_ok_def split: option.splits)

lemma found_by_id: "network_ok D w \<Longrightarrow> GetConnection i w = Some c \<Longrightarrow> GetConnection (cn_id c) w = Some c"
  by (auto simp: network_ok_def conn_ok_def)

lemma stored: "network_ok D w \<Longrightarrow> GetConnection (cn_id c) (w\<lparr>connections := m_put (cn_id c) c (connections w)\<rparr>) = Some c"
  by (simp add: GetConnection_def map_of_put network_ok_def)

lemma store_hoare:
  assumes same: "same_conn c0 c"
  shows "hoare overflow_only (\<lambda>w. network_ok D w \<and> GetConnection (cn_id c0) w = Some c0) (store_conn c)
     (\<lambda>_ w. network_ok D w \<and> GetConnection (cn_id c) w = Some c)"
  unfolding store_conn_def
proof (rule hoare_change)
  fix w
  assume w: "network_ok D w \<and> GetConnection (cn_id c0) w = Some c0"
  moreover have "cn_id c = cn_id c0" using same by (simp add: same_conn_def)
  ultimately show "network_ok D (w\<lparr>connections := m_put (cn_id c) c (connections w)\<rparr>) \<and>
      GetConnection (cn_id c) (w\<lparr>connections := m_put (cn_id c) c (connections w)\<rparr>) = Some c"
    using store_ok [OF _ _ same] stored by metis
qed

lemma close_evolves:
  "hoare overflow_only (\<lambda>w. network_ok D w \<and> removable c w \<and> adapter.more w = z) (Connection_Close N c reason)
     (\<lambda>_ w. network_ok (insert (cn_id c) D) w \<and> removable c w \<and> adapter.more w = z)"
  unfolding hoare_def
proof (intro allI impI)
  fix w
  assume w: "network_ok D w \<and> removable c w \<and> adapter.more w = z"
  then have ok: "network_ok D w" and rem: "removable c w" by simp_all
  have m: "case Connection_Close N c reason w of Done a w' \<Rightarrow> evolved {(side_of c, cn_handle c)} w w' \<and> True
      | Fault f w' \<Rightarrow> f = SignedOverflow"
    using acts_Close [of c "{(side_of c, cn_handle c)}" N reason] ok unfolding acts_def network_ok_def by blast
  show "case Connection_Close N c reason w of
      Done a w' \<Rightarrow> network_ok (insert (cn_id c) D) w' \<and> removable c w' \<and> adapter.more w' = z
    | Fault f w' \<Rightarrow> f \<in> overflow_only"
  proof (cases "Connection_Close N c reason w")
    case (Done a w')
    with m have ev: "evolved {(side_of c, cn_handle c)} w w'" by simp
    then have more: "adapter.more w' = adapter.more w" by (simp add: evolved_def)
    have "network_ok (insert (cn_id c) D) w'"
    proof (rule network_ok_evolved [OF ok ev])
      fix i d
      assume d: "GetConnection i w = Some d" "(side_of d, cn_handle d) \<in> {(side_of c, cn_handle c)}"
      then have h: "map_of (connection_handles w) (cn_handle c) = Some i" using same_handle_same_id [OF ok d(1)] by simp
      then obtain c0 where c0: "GetConnection (cn_id c) w = Some c0" "cn_handle c0 = cn_handle c"
        using rem by (auto simp: removable_def same_conn_def)
      have "map_of (connection_handles w) (cn_handle c) = Some (cn_id c)" using same_handle_same_id [OF ok c0(1)] c0(2) by simp
      with h show "i \<in> insert (cn_id c) D" by simp
    qed blast
    then show ?thesis using Done w more by (simp add: removable_def more_fields [OF more])
  qed (use m in simp)
qed

definition erased :: "Connection \<Rightarrow> int \<Rightarrow> network \<Rightarrow> network" where
  "erased c t w = w\<lparr>connections_delete := m_emplace t c (connections_delete w),
     connections := m_erase (cn_id c) (connections w), connection_handles := m_erase (cn_handle c) (connection_handles w)\<rparr>"

lemma erased_gone:
  "network_ok D w \<Longrightarrow> GetConnection i (erased c t w) = (if i = cn_id c then None else GetConnection i w) \<and>
   map_of (connection_handles (erased c t w)) = (map_of (connection_handles w))(cn_handle c := None)"
  by (simp add: erased_def GetConnection_def map_of_erase network_ok_def)

lemma removable_erased:
  assumes ok: "network_ok D w" and c: "removable c w" and x: "removable x w"
  shows "removable x (erased c t w)"
proof (cases "cn_id x = cn_id c")
  case True
  then have "GetConnection (cn_id x) (erased c t w) = None" using erased_gone [OF ok] by simp
  moreover have "cn_handle x = cn_handle c \<or> map_of (connection_handles w) (cn_handle x) = None"
  proof (cases "GetConnection (cn_id c) w")
    case None
    then show ?thesis using x True by (simp add: removable_def)
  next
    case (Some c0)
    then have "same_conn c0 c" "same_conn c0 x" using c x True by (auto simp: removable_def)
    then show ?thesis by (simp add: same_conn_def)
  qed
  then have "map_of (connection_handles (erased c t w)) (cn_handle x) = None"
    using erased_gone [OF ok, of "cn_id c" c t] by auto
  ultimately show ?thesis by (simp add: removable_def)
next
  case False
  then show ?thesis using x erased_gone [OF ok, of "cn_id x" c t] by (auto simp: removable_def)
qed

definition rems :: "Connection list \<Rightarrow> network \<Rightarrow> bool" where
  "rems ds w \<longleftrightarrow> (\<forall>x \<in> set ds. removable x w)"

lemma table_only_rems: "table_only (rems ds)"
  unfolding table_only_def rems_def removable_def by (metis more_fields(3,6))

lemma RemoveConnection_hoare:
  "hoare overflow_only (\<lambda>w. network_ok D w \<and> rems (c # ds) w) (RemoveConnection N c)
     (\<lambda>_ w. network_ok (D - {cn_id c}) w \<and> rems ds w)"
proof -
  let ?I = "\<lambda>w. network_ok (insert (cn_id c) D) w \<and> rems (c # ds) w"
  have close: "hoare overflow_only (\<lambda>w. network_ok D w \<and> rems (c # ds) w) (Connection_Close N c ''no reason'') (\<lambda>_. ?I)"
    unfolding hoare_def
  proof (intro allI impI)
    fix w
    assume w: "network_ok D w \<and> rems (c # ds) w"
    then have "network_ok D w \<and> removable c w \<and> adapter.more w = adapter.more w" by (simp add: rems_def)
    then have "case Connection_Close N c ''no reason'' w of
        Done a w' \<Rightarrow> network_ok (insert (cn_id c) D) w' \<and> removable c w' \<and> adapter.more w' = adapter.more w
      | Fault f w' \<Rightarrow> f \<in> overflow_only"
      using close_evolves [of D c "adapter.more w" N "''no reason''"] unfolding hoare_def by blast
    then show "case Connection_Close N c ''no reason'' w of Done a w' \<Rightarrow> ?I w' | Fault f w' \<Rightarrow> f \<in> overflow_only"
      using w table_only_rems [of "c # ds"] unfolding table_only_def by (auto split: outcome.splits)
  qed
  have now: "hoare overflow_only ?I (net_now (ne_lib N)) (\<lambda>_. ?I)"
    by (rule hoare_post [OF acts_hoare [OF acts_now table_only_rems]]) simp
  have sum: "hoare overflow_only ?I (add64 t u) (\<lambda>_. ?I)" for t u
    by (rule hoare_post [OF acts_hoare [OF acts_add64 table_only_rems]]) simp
  have erase: "hoare overflow_only ?I (change (erased c t)) (\<lambda>_ w. network_ok (D - {cn_id c}) w \<and> rems ds w)" for t
    using erase_ok removable_erased by (intro hoare_change) (auto simp: rems_def erased_def)
  have change: "(\<lambda>w. w\<lparr>connections_delete := m_emplace t c (connections_delete w), connections := m_erase (cn_id c) (connections w),
      connection_handles := m_erase (cn_handle c) (connection_handles w)\<rparr>) = erased c t" for t
    by (simp add: erased_def fun_eq_iff)
  show ?thesis
    unfolding RemoveConnection_def change
    by (rule hoare_andThen [OF close], rule hoare_andThen [OF now], rule hoare_andThen [OF sum], rule erase)
qed

lemma present_removable: "GetConnection (cn_id c) w = Some c \<Longrightarrow> removable c w"
  by (auto simp: removable_def same_conn_def)

lemma Remove_present:
  "hoare overflow_only (\<lambda>w. network_ok {} w \<and> GetConnection (cn_id c) w = Some c) (RemoveConnection N c) (\<lambda>_. network_ok {})"
proof -
  have "hoare overflow_only (\<lambda>w. network_ok {} w \<and> rems [c] w) (RemoveConnection N c) (\<lambda>_ w. network_ok ({} - {cn_id c}) w \<and> rems [] w)"
    by (rule RemoveConnection_hoare)
  then show ?thesis by (rule hoare_pre [OF hoare_post]) (auto simp: rems_def present_removable)
qed

lemma refuse_ok:
  "hoare overflow_only (\<lambda>w. network_ok {} w \<and> GetConnection (cn_id c) w = Some c) (refuse_unless_open N c reason) (\<lambda>_. network_ok {})"
  unfolding refuse_unless_open_def
proof (rule hoare_if)
  have close: "hoare overflow_only (\<lambda>w. network_ok {} w \<and> GetConnection (cn_id c) w = Some c) (Connection_Close N c reason)
      (\<lambda>_ w. network_ok {cn_id c} w \<and> rems [c] w)"
    using close_evolves [of "{}" c _ N reason] present_removable unfolding hoare_def rems_def by (fastforce split: outcome.splits)
  have remove: "hoare overflow_only (\<lambda>w. network_ok {cn_id c} w \<and> rems [c] w) (RemoveConnection N c) (\<lambda>_. network_ok {})"
    by (rule hoare_post [OF RemoveConnection_hoare]) simp
  show "hoare overflow_only (\<lambda>w. network_ok {} w \<and> GetConnection (cn_id c) w = Some c)
      (andThen (Connection_Close N c reason) (\<lambda>_. RemoveConnection N c)) (\<lambda>_. network_ok {})"
    by (rule hoare_andThen [OF close remove])
qed (rule hoare_ret, simp)

lemma OnClose_ok: "hoare overflow_only (network_ok {}) (Network_OnClose N h) (\<lambda>_. network_ok {})"
  unfolding Network_OnClose_def by (rule find_ok [OF found_by_handle Remove_present])

lemma GetErrorCode_ok:
  "hoare F (\<lambda>w. network_ok {} w \<and> GetConnection (cn_id c) w = Some c) (GetErrorCode c)
     (\<lambda>r w. network_ok {} w \<and> GetConnection (cn_id c) w = Some c \<and> r = new_Result)"
proof -
  have "GetConnectFromHandle (side_of c) (cn_handle c) w \<noteq> None" if "network_ok {} w \<and> GetConnection (cn_id c) w = Some c" for w
    using that unfolding network_ok_def conn_ok_def by blast
  then show ?thesis
    by (fastforce simp: hoare_def GetErrorCode_def prog_simps split: option.splits outcome.splits)
qed

lemma OnFailed_ok: "hoare overflow_only (network_ok {}) (Network_OnFailed N h) (\<lambda>_. network_ok {})"
  unfolding Network_OnFailed_def
  by (rule find_ok [OF found_by_handle], assumption, assumption,
      rule hoare_andThen [OF GetErrorCode_ok hoare_pre [OF Remove_present]]) simp

lemma acts_keep:
  "acts {} m Q \<Longrightarrow> hoare overflow_only (\<lambda>w. network_ok D w \<and> GetConnection i w = x) m
     (\<lambda>a w. (network_ok D w \<and> GetConnection i w = x) \<and> Q a)"
  by (rule hoare_post [OF acts_hoare [OF _ table_only_present]]) simp_all

lemma touch_then:
  assumes "acts {} m (same_conn c)"
    and "\<And>c'. same_conn c c' \<Longrightarrow> hoare overflow_only (\<lambda>w. network_ok {} w \<and> GetConnection (cn_id c') w = Some c') (k c') (\<lambda>_. network_ok {})"
  shows "hoare overflow_only (\<lambda>w. network_ok {} w \<and> GetConnection (cn_id c) w = Some c)
     (andThen m (\<lambda>c'. andThen (store_conn c') (\<lambda>_. k c'))) (\<lambda>_. network_ok {})"
  by (rule hoare_andThen [OF acts_keep [OF assms(1)]], rule hoare_assume, rule hoare_andThen [OF store_hoare assms(2)])

lemma OnClientOpen_ok: "hoare overflow_only (network_ok {}) (Network_OnClientOpen N h) (\<lambda>_. network_ok {})"
  unfolding Network_OnClientOpen_def by (rule find_ok [OF found_by_handle touch_then [OF acts_connect_time refuse_ok]])

lemma OnPong_ok: "hoare overflow_only (network_ok {}) (Network_OnPong N h) (\<lambda>_. network_ok {})"
proof -
  have eq: "andThen (TouchReceiveTime N c) store_conn = andThen (TouchReceiveTime N c) (\<lambda>c'. andThen (store_conn c') (\<lambda>_. ret ()))" for c
    by (simp add: fun_eq_iff store_conn_def andThen_def change_def ret_def split: outcome.splits)
  show ?thesis
    unfolding Network_OnPong_def eq
    by (rule find_ok [OF found_by_handle touch_then [OF acts_touch]], assumption, assumption) (rule hoare_ret, simp)
qed

lemma acts_hoare_ok: "acts {} m Q \<Longrightarrow> hoare overflow_only (network_ok {}) m (\<lambda>_. network_ok {})"
  using acts_hoare [OF _ table_only_True, of m Q "{}"] by (rule hoare_pre [OF hoare_post]) simp_all

lemma OnRequestPing_ok: "hoare overflow_only (network_ok {}) (OnRequestPing N m i) (\<lambda>_. network_ok {})"
proof (rule acts_hoare_ok)
  show "acts {} (OnRequestPing N m i) (\<lambda>_. True)"
    unfolding OnRequestPing_def
    by (intro acts_option acts_ret acts_andThen [OF acts_read] acts_SendResponse) simp_all
qed

lemma OnResponsePing_ok: "hoare overflow_only (network_ok {}) (OnResponsePing N m i) (\<lambda>_. network_ok {})"
proof -
  have two: "acts {} (andThen (TouchReceiveTime N c) (SetDelay N)) (same_conn c)" for c
  proof (rule acts_andThen [OF acts_touch])
    fix c'
    assume same: "same_conn c c'"
    have "acts {} (SetDelay N c') (same_conn c')" by (rule acts_delay)
    then show "acts {} (SetDelay N c') (same_conn c)"
      using same_conn_trans [OF same] by (force simp: acts_def split: outcome.splits)
  qed
  have "hoare overflow_only (\<lambda>w. network_ok {} w \<and> GetConnection (cn_id c) w = Some c)
      (andThen (andThen (TouchReceiveTime N c) (SetDelay N)) (\<lambda>c. andThen (store_conn c) (\<lambda>_. ret True))) (\<lambda>_. network_ok {})" for c
    by (rule touch_then [OF two]) (rule hoare_ret, simp)
  then have step: "hoare overflow_only (\<lambda>w. network_ok {} w \<and> GetConnection (cn_id c) w = Some c)
      (andThen (TouchReceiveTime N c) (\<lambda>c. andThen (SetDelay N c) (\<lambda>c. andThen (store_conn c) (\<lambda>_. ret True)))) (\<lambda>_. network_ok {})" for c
    unfolding andThen_assoc .
  show ?thesis
    unfolding OnResponsePing_def
    by (cases "parse_Pong (ne_pb N) (wm_data m)") (simp_all add: hoare_ret find_ok [OF found_by_id step])
qed

lemma process_message_ok: "hoare overflow_only (network_ok {}) (process_message N m i) (\<lambda>_. network_ok {})"
  unfolding process_message_def
  by (intro hoare_if hoare_ret hoare_andThen [OF OnRequestPing_ok] hoare_andThen [OF OnResponsePing_ok])

lemma Remove_id_ok: "hoare overflow_only (network_ok {}) (RemoveConnection_id N i) (\<lambda>_. network_ok {})"
  unfolding RemoveConnection_id_def by (rule find_ok [OF found_by_id Remove_present])

lemma OnMessage_ok: "hoare overflow_only (network_ok {}) (Network_OnMessage N h msg) (\<lambda>_. network_ok {})"
  unfolding Network_OnMessage_def Let_def
proof (rule find_ok [OF found_by_handle touch_then [OF acts_touch]], assumption, assumption)
  fix c' :: Connection
  have "hoare overflow_only (network_ok {})
      (andThen (process_message N (parse_WsMessage (ne_pb N) msg) (cn_id c')) (\<lambda>r.
         if r = Some False then RemoveConnection_id N (cn_id c') else ret ())) (\<lambda>_. network_ok {})"
    by (intro hoare_andThen [OF process_message_ok] hoare_if Remove_id_ok hoare_ret)
  then show "hoare overflow_only (\<lambda>w. network_ok {} w \<and> GetConnection (cn_id c') w = Some c')
      (andThen (process_message N (parse_WsMessage (ne_pb N) msg) (cn_id c')) (\<lambda>r.
         if r = Some False then RemoveConnection_id N (cn_id c') else ret ())) (\<lambda>_. network_ok {})"
    by (rule hoare_pre) simp
qed

section \<open>New connections\<close>

text \<open>A handle the adapter has just given out.\<close>

definition new_handle :: "side \<Rightarrow> int \<Rightarrow> network \<Rightarrow> bool" where
  "new_handle s h w \<longleftrightarrow> network_ok {} w \<and> GetConnectFromHandle s h w \<noteq> None \<and>
     map_of (connection_handles w) h = None \<and> h < g_id w"

definition new_numbered :: "side \<Rightarrow> int \<Rightarrow> int \<Rightarrow> network \<Rightarrow> bool" where
  "new_numbered s h i w \<longleftrightarrow> new_handle s h w \<and> i < next_id w \<and> GetConnection i w = None"

lemma take_id_ok: "hoare overflow_only (new_handle s h) take_id (\<lambda>i. new_numbered s h i)"
proof -
  have "new_numbered s h (next_id w) (w\<lparr>next_id := next_id w + 1\<rparr>)" if "new_handle s h w" for w
  proof -
    have ok: "network_ok {} w" using that by (simp add: new_handle_def)
    have "GetConnection (next_id w) w = None"
      using ok by (cases "GetConnection (next_id w) w") (auto simp: network_ok_def conn_ok_def)
    moreover have "conn_ok {} (w\<lparr>next_id := next_id w + 1\<rparr>) i c" if "conn_ok {} w i c" for i c
      using that by (simp add: conn_ok_def)
    ultimately show ?thesis
      using that by (auto simp: new_numbered_def new_handle_def network_ok_def GetConnection_def)
  qed
  then show ?thesis
    by (auto simp: hoare_def take_id_def prog_simps add64_def split: outcome.splits)
qed

lemma acts_numbered:
  assumes "acts {} m Q"
  shows "hoare overflow_only (new_numbered s h i) m (\<lambda>a w. new_numbered s h i w \<and> Q a)"
  unfolding hoare_def
proof (intro allI impI)
  fix w
  assume w: "new_numbered s h i w"
  then have ok: "network_ok {} w" by (simp add: new_numbered_def new_handle_def)
  have m: "case m w of Done a w' \<Rightarrow> evolved {} w w' \<and> Q a | Fault f w' \<Rightarrow> f = SignedOverflow"
    using assms ok unfolding acts_def network_ok_def by blast
  show "case m w of Done a w' \<Rightarrow> new_numbered s h i w' \<and> Q a | Fault f w' \<Rightarrow> f \<in> overflow_only"
  proof (cases "m w")
    case (Done a w')
    with m have ev: "evolved {} w w'" "Q a" by simp_all
    then have more: "adapter.more w' = adapter.more w" and "g_id w \<le> g_id w'" by (simp_all add: evolved_def)
    moreover have "network_ok {} w'" using network_ok_evolved [OF ok ev(1)] by simp
    moreover have "GetConnectFromHandle s h w' \<noteq> None"
      using w ev(1) unfolding evolved_def new_numbered_def new_handle_def by blast
    ultimately show ?thesis using w Done ev(2) by (simp add: new_numbered_def new_handle_def more_fields [OF more])
  qed (use m in simp)
qed

lemma insert_ok:
  assumes c: "fresh_conn (s = Server) h i c"
  shows "hoare overflow_only (new_numbered s h i) (insert_connection c)
     (\<lambda>_ w. network_ok {} w \<and> GetConnection (cn_id c) w = Some c)"
  unfolding insert_connection_def
proof (rule hoare_change)
  fix w
  assume w: "new_numbered s h i w"
  let ?w = "w\<lparr>connections := m_emplace i c (connections w), connection_handles := m_emplace h i (connection_handles w)\<rparr>"
  have ok: "network_ok {} w" and free: "GetConnection i w = None" "map_of (connection_handles w) h = None"
    using w by (auto simp: new_numbered_def new_handle_def)
  have ids: "cn_id c = i" "cn_handle c = h" "side_of c = s" using c by (cases s; simp add: fresh_conn_def side_of_def)+
  have get: "GetConnection j ?w = (if j = i then Some c else GetConnection j w)" for j
    using ok free by (auto simp: GetConnection_def map_of_emplace network_ok_def map_of_None_keys)
  have hs: "map_of (connection_handles ?w) = (map_of (connection_handles w))(h \<mapsto> i)"
    using ok free by (auto simp: map_of_emplace network_ok_def map_of_None_keys)
  have "map_of (connection_handles ?w) (cn_handle c) = Some i" unfolding hs by (simp add: ids)
  then have "conn_ok {} ?w i c"
    using w c unfolding conn_ok_def new_numbered_def new_handle_def fresh_conn_def by (simp add: ids(3))
  moreover have "conn_ok {} ?w j d" if "GetConnection j w = Some d" for j d
  proof -
    have d: "conn_ok {} w j d" using ok that by (simp add: network_ok_def)
    then have "cn_handle d \<noteq> h" using free by (auto simp: conn_ok_def)
    with d show ?thesis unfolding conn_ok_def hs by simp
  qed
  moreover have "\<exists>d. GetConnection j ?w = Some d \<and> cn_handle d = k" if "map_of (connection_handles ?w) k = Some j" for j k
  proof (cases "k = h")
    case True
    then have "j = i" using that unfolding hs by simp
    then have "GetConnection j ?w = Some c" unfolding get by simp
    then show ?thesis using ids(2) True by blast
  next
    case False
    then have "map_of (connection_handles w) k = Some j" using that unfolding hs by simp
    then obtain d where d: "GetConnection j w = Some d" "cn_handle d = k" using handle_conn [OF ok] by blast
    then have "j \<noteq> i" using free by auto
    with d have "GetConnection j ?w = Some d" unfolding get by simp
    with d show ?thesis by blast
  qed
  ultimately have "network_ok {} ?w \<and> GetConnection i ?w = Some c"
    using ok by (auto simp: network_ok_def get split: if_splits)
  then show "network_ok {} (w\<lparr>connections := m_emplace (cn_id c) c (connections w),
      connection_handles := m_emplace (cn_handle c) (cn_id c) (connection_handles w)\<rparr>) \<and>
    GetConnection (cn_id c) (w\<lparr>connections := m_emplace (cn_id c) c (connections w),
      connection_handles := m_emplace (cn_handle c) (cn_id c) (connection_handles w)\<rparr>) = Some c"
    by (simp add: ids)
qed

lemma Network_OnOpen_ok: "hoare overflow_only (new_handle Server h) (Network_OnOpen N h) (\<lambda>_. network_ok {})"
  unfolding Network_OnOpen_def
proof (rule hoare_andThen [OF take_id_ok], rule hoare_andThen [OF acts_numbered])
  show "acts {} (Connection_new N True False h [] i) (fresh_conn True h i)" for i
    using acts_Connection_new [of "{}" N True h "[]" i] by simp
  show "hoare overflow_only (\<lambda>w. new_numbered Server h i w \<and> fresh_conn True h i c)
      (andThen (insert_connection c) (\<lambda>_. refuse_unless_open N c ''connections exceed'')) (\<lambda>_. network_ok {})" for i c
    by (rule hoare_assume, rule hoare_andThen [OF insert_ok refuse_ok]) simp
qed

lemma evolved_added:
  assumes ok: "adapter_ok w" and "wc_id c = g_id w" "wc_client c = (s = Client)"
  shows "evolved {} w (added s c (net_log io w))" "GetConnectFromHandle s (g_id w) (added s c (net_log io w)) \<noteq> None"
proof -
  have new: "adapter_ok (added s c (net_log io w))" using added_ok [of "net_log io w" c s] assms by simp
  have sorted: "sorted_map (conns s w)" using ok by (simp add: adapter_ok_def tables_sorted_side)
  have "GetConnectFromHandle s' h (added s c (net_log io w)) \<noteq> None" if "GetConnectFromHandle s' h w \<noteq> None" for s' h
    using that sorted by (cases "s' = s") (auto simp: GetConnectFromHandle_def map_of_put)
  then show "evolved {} w (added s c (net_log io w))" using new by (simp add: evolved_def)
  show "GetConnectFromHandle s (g_id w) (added s c (net_log io w)) \<noteq> None"
    using sorted by (simp add: GetConnectFromHandle_def map_of_put)
qed

lemma new_handle_added:
  assumes ok: "network_ok {} w" and ev: "evolved {} w w'" and get: "GetConnectFromHandle s (g_id w) w' \<noteq> None" and "g_id w < g_id w'"
  shows "new_handle s (g_id w) w'"
proof -
  have more: "adapter.more w' = adapter.more w" using ev by (simp add: evolved_def)
  have "map_of (connection_handles w) (g_id w) = None"
  proof (rule ccontr)
    assume "map_of (connection_handles w) (g_id w) \<noteq> None"
    then obtain i c where c: "GetConnection i w = Some c" "cn_handle c = g_id w" using handle_conn [OF ok] by blast
    then have "conn_ok {} w i c" using ok by (simp add: network_ok_def)
    then show False using c(2) by (simp add: conn_ok_def)
  qed
  then show ?thesis
    using network_ok_evolved [OF ok ev] get assms(4) by (simp add: new_handle_def more_fields [OF more])
qed

lemma get_ids [simp]: "GetConnectFromHandle s h (w'\<lparr>hdl_to_ids := m\<rparr>) = GetConnectFromHandle s h w'"
  by (cases s; simp add: GetConnectFromHandle_def)

lemma evolved_ids: "evolved X w w' \<Longrightarrow> sorted_map m \<Longrightarrow> evolved X w (w'\<lparr>hdl_to_ids := m\<rparr>)"
  by (simp add: evolved_def adapter_ok_ids)

lemma server_opened:
  "hoare overflow_only (network_ok {}) (WssSocketServer_OnOpen L h) (\<lambda>i w. network_ok {} w \<and> (i < 0 \<or> new_handle Server i w))"
  unfolding hoare_def
proof (intro allI impI)
  fix w
  assume ok: "network_ok {} w"
  let ?c = "\<lparr>wc_id = g_id w, wc_client = False, wc_hdl = h, wc_uri = []\<rparr>"
  let ?l = "net_log (GetConFromHdl h) w"
  let ?w = "(added Server ?c ?l)\<lparr>hdl_to_ids := m_put h (g_id w) (hdl_to_ids w)\<rparr>"
  have ad: "adapter_ok w" and sorted: "sorted_map (hdl_to_ids w)"
    using ok by (auto simp: network_ok_def adapter_ok_def tables_sorted_def)
  have "evolved {} w (added Server ?c ?l)" "GetConnectFromHandle Server (g_id w) (added Server ?c ?l) \<noteq> None"
    using evolved_added [OF ad, of ?c Server "GetConFromHdl h"] by simp_all
  then have ev: "evolved {} w ?w" and get: "GetConnectFromHandle Server (g_id w) ?w \<noteq> None"
    using sorted by (simp_all add: evolved_ids)
  have new: "new_handle Server (g_id w) ?w" by (rule new_handle_added [OF ok ev get]) simp
  have "network_ok {} ?l" using network_ok_evolved [OF ok evolved_log [OF ad, of "{}"]] by simp
  moreover have "network_ok {} ?w" using new by (simp add: new_handle_def)
  ultimately show "case WssSocketServer_OnOpen L h w of
      Done i w' \<Rightarrow> network_ok {} w' \<and> (i < 0 \<or> new_handle Server i w') | Fault f w' \<Rightarrow> f \<in> overflow_only"
    using new by (simp add: OnOpen_run Let_def split: prod.splits)
qed

lemma client_opened:
  "hoare overflow_only (network_ok {}) (WssSocketClient_GetConnect L uri err)
     (\<lambda>r w. network_ok {} w \<and> (\<forall>p. fst r = Some p \<longrightarrow> (\<exists>c. conn_heap w p = Some c \<and> new_handle Client (wc_id c) w)))"
  unfolding hoare_def
proof (intro allI impI)
  fix w
  assume ok: "network_ok {} w"
  let ?l = "net_log (GetConnectionTo uri) w"
  have ad: "adapter_ok w" using ok by (simp add: network_ok_def)
  have new: "new_handle Client (g_id w) (added Client c ?l)" if "wc_id c = g_id w" "wc_client c" for c
    by (rule new_handle_added [OF ok evolved_added [OF ad]]) (simp_all add: that)
  have "network_ok {} ?l" using network_ok_evolved [OF ok evolved_log [OF ad, of "{}"]] by simp
  moreover have "network_ok {} (added Client c ?l)" if "wc_id c = g_id w" "wc_client c" for c
    using new [OF that] by (simp add: new_handle_def)
  ultimately show "case WssSocketClient_GetConnect L uri err w of
      Done r w' \<Rightarrow> network_ok {} w' \<and> (\<forall>p. fst r = Some p \<longrightarrow> (\<exists>c. conn_heap w' p = Some c \<and> new_handle Client (wc_id c) w'))
    | Fault f w' \<Rightarrow> f \<in> overflow_only"
    using new by (simp add: GetConnect_run Let_def split: prod.splits option.splits)
qed

lemma Network_Connect_ok: "hoare overflow_only (network_ok {}) (Network_Connect N uri) (\<lambda>_. network_ok {})"
proof -
  have handle: "hoare overflow_only (\<lambda>w. \<exists>c. conn_heap w p = Some c \<and> new_handle Client (wc_id c) w) (GetHandle p) (\<lambda>h. new_handle Client h)" for p
    by (auto simp: hoare_def GetHandle_def deref_def prog_simps)
  have rest: "hoare overflow_only (new_handle Client h)
      (andThen take_id (\<lambda>new_id. andThen (Connection_new N False True h uri new_id) (\<lambda>peer.
       andThen (insert_connection peer) (\<lambda>_. andThen (WssSocketClient_Connect (ne_lib N) h) (\<lambda>_. ret True))))) (\<lambda>_. network_ok {})" for h
  proof (rule hoare_andThen [OF take_id_ok], rule hoare_andThen [OF acts_numbered])
    show "acts {} (Connection_new N False True h uri i) (fresh_conn False h i)" for i
      using acts_Connection_new [of "{}" N False h uri i] by simp
    have fin: "hoare overflow_only (\<lambda>w. network_ok {} w \<and> GetConnection (cn_id c) w = Some c)
        (andThen (WssSocketClient_Connect (ne_lib N) h) (\<lambda>_. ret True)) (\<lambda>_. network_ok {})" for c :: Connection
      by (rule hoare_andThen [OF hoare_pre [OF acts_hoare_ok [OF acts_connect]] hoare_ret]) simp_all
    show "hoare overflow_only (\<lambda>w. new_numbered Client h i w \<and> fresh_conn False h i c)
        (andThen (insert_connection c) (\<lambda>_. andThen (WssSocketClient_Connect (ne_lib N) h) (\<lambda>_. ret True))) (\<lambda>_. network_ok {})" for i c
      by (rule hoare_assume, rule hoare_andThen [OF insert_ok fin]) simp
  qed
  show ?thesis
    unfolding Network_Connect_def
  proof (rule hoare_andThen [OF client_opened])
    fix r :: "ptr option \<times> Result"
    obtain con e where r: "r = (con, e)" by (cases r)
    show "hoare overflow_only
        (\<lambda>w. network_ok {} w \<and> (\<forall>p. fst r = Some p \<longrightarrow> (\<exists>c. conn_heap w p = Some c \<and> new_handle Client (wc_id c) w)))
        (case r of (con, _) \<Rightarrow> case con of None \<Rightarrow> ret False | Some con \<Rightarrow>
          andThen (GetHandle con) (\<lambda>h. andThen take_id (\<lambda>new_id. andThen (Connection_new N False True h uri new_id) (\<lambda>peer.
            andThen (insert_connection peer) (\<lambda>_. andThen (WssSocketClient_Connect (ne_lib N) h) (\<lambda>_. ret True)))))) (\<lambda>_. network_ok {})"
    proof (cases con)
      case None
      then show ?thesis unfolding r by (simp add: hoare_def ret_def)
    next
      case (Some p)
      show ?thesis unfolding r Some prod.case option.case
        by (rule hoare_pre [OF hoare_andThen [OF handle rest]]) simp
    qed
  qed
qed

section \<open>The check\<close>

definition checked :: "int set \<Rightarrow> Connection list \<Rightarrow> (int \<times> Connection) list \<Rightarrow> network \<Rightarrow> bool" where
  "checked D ds l w \<longleftrightarrow> network_ok D w \<and> rems ds w \<and> (\<forall>(i, c) \<in> set l. GetConnection i w = Some c)"

lemma table_only_checked: "table_only (\<lambda>w. rems ds w \<and> (\<forall>(i, c) \<in> set l. GetConnection i w = Some c))"
  unfolding table_only_def
proof (intro allI impI)
  fix w w' :: network
  assume more: "adapter.more w' = adapter.more w" and R: "rems ds w \<and> (\<forall>(i, c) \<in> set l. GetConnection i w = Some c)"
  have "GetConnection i w' = GetConnection i w" for i by (rule more_fields(6) [OF more])
  moreover have "rems ds w'" using table_only_rems [of ds] more R unfolding table_only_def by blast
  ultimately show "rems ds w' \<and> (\<forall>(i, c) \<in> set l. GetConnection i w' = Some c)" using R by simp
qed

lemma acts_checked: "acts {} m Q \<Longrightarrow> hoare overflow_only (checked D ds l) m (\<lambda>a w. checked D ds l w \<and> Q a)"
  unfolding checked_def using acts_hoare [OF _ table_only_checked, of m Q D ds l] by (simp add: conj_assoc)

lemma removable_same:
  assumes x: "removable x w" and old: "GetConnection (cn_id c) w = Some c0" and same: "same_conn c0 c"
    and sorted: "sorted_map (connections w)"
  shows "removable x (w\<lparr>connections := m_put (cn_id c) c (connections w)\<rparr>)"
proof (cases "cn_id x = cn_id c")
  case True
  then have "same_conn c0 x" using x old by (auto simp: removable_def)
  then have "same_conn c x" using same by (simp add: same_conn_def)
  moreover have "GetConnection (cn_id c) (w\<lparr>connections := m_put (cn_id c) c (connections w)\<rparr>) = Some c"
    using sorted by (simp add: GetConnection_def map_of_put)
  ultimately show ?thesis using True by (simp add: removable_def)
next
  case False
  then have "GetConnection (cn_id x) (w\<lparr>connections := m_put (cn_id c) c (connections w)\<rparr>) = GetConnection (cn_id x) w"
    using sorted by (simp add: GetConnection_def map_of_put)
  then show ?thesis using x by (simp add: removable_def)
qed

lemma store_checked:
  assumes same: "same_conn c0 c" and "cn_id c0 \<notin> fst ` set l"
  shows "hoare overflow_only (checked D ds ((cn_id c0, c0) # l)) (store_conn c) (\<lambda>_. checked D ds ((cn_id c, c) # l))"
  unfolding store_conn_def
proof (rule hoare_change)
  fix w
  assume w: "checked D ds ((cn_id c0, c0) # l) w"
  let ?w = "w\<lparr>connections := m_put (cn_id c) c (connections w)\<rparr>"
  have idc: "cn_id c = cn_id c0" using same by (simp add: same_conn_def)
  have ok: "network_ok D w" and old: "GetConnection (cn_id c) w = Some c0" using w idc by (auto simp: checked_def)
  have sorted: "sorted_map (connections w)" using ok by (simp add: network_ok_def)
  have get: "GetConnection i ?w = (if i = cn_id c then Some c else GetConnection i w)" for i
    using sorted by (simp add: GetConnection_def map_of_put)
  have "network_ok D ?w" by (rule store_ok [OF ok old same])
  moreover have "rems ds ?w" using w removable_same [OF _ old same sorted] by (simp add: checked_def rems_def)
  moreover have "\<forall>(i, d) \<in> set l. GetConnection i ?w = Some d"
  proof -
    have "i \<noteq> cn_id c" if "(i, d) \<in> set l" for i d using assms(2) idc that by force
    then show ?thesis using w unfolding checked_def get by auto
  qed
  ultimately show "checked D ds ((cn_id c, c) # l) ?w" using get [of "cn_id c"] by (simp add: checked_def)
qed

lemma close_checked:
  "hoare overflow_only (\<lambda>w. checked D ds l w \<and> removable c w) (Connection_Close N c reason)
     (\<lambda>_ w. checked (insert (cn_id c) D) (ds @ [c]) l w \<and> removable c w)"
  unfolding hoare_def
proof (intro allI impI)
  fix w
  assume w: "checked D ds l w \<and> removable c w"
  then have "network_ok D w \<and> removable c w \<and> adapter.more w = adapter.more w" by (simp add: checked_def)
  then have m: "case Connection_Close N c reason w of
      Done a w' \<Rightarrow> network_ok (insert (cn_id c) D) w' \<and> removable c w' \<and> adapter.more w' = adapter.more w
    | Fault f w' \<Rightarrow> f \<in> overflow_only"
    using close_evolves [of D c "adapter.more w" N reason] unfolding hoare_def by blast
  show "case Connection_Close N c reason w of
      Done a w' \<Rightarrow> checked (insert (cn_id c) D) (ds @ [c]) l w' \<and> removable c w' | Fault f w' \<Rightarrow> f \<in> overflow_only"
  proof (cases "Connection_Close N c reason w")
    case (Done a w')
    with m have m': "network_ok (insert (cn_id c) D) w'" "removable c w'" "adapter.more w' = adapter.more w" by simp_all
    then have "rems ds w' \<and> (\<forall>(i, c) \<in> set l. GetConnection i w' = Some c)"
      using w table_only_checked [of ds l] unfolding table_only_def checked_def by blast
    then show ?thesis using Done m' by (simp add: checked_def rems_def ball_Un)
  qed (use m in simp)
qed

definition closing :: "int set \<Rightarrow> Connection list \<Rightarrow> (int \<times> Connection) list \<Rightarrow> Connection \<Rightarrow> Connection list \<Rightarrow> network \<Rightarrow> bool" where
  "closing D ds l c d w \<longleftrightarrow> checked (D \<union> cn_id ` set d) (ds @ d) l w \<and> removable c w \<and> set d \<subseteq> {c}"

lemma close_one:
  "hoare overflow_only (closing D ds l c d) (andThen (Connection_Close N c reason) (\<lambda>_. ret (d @ [c])))
     (\<lambda>d'. closing D ds l c d')"
proof -
  have "hoare overflow_only (\<lambda>w. checked (D \<union> cn_id ` set d) (ds @ d) l w \<and> removable c w) (Connection_Close N c reason)
      (\<lambda>_ w. checked (insert (cn_id c) (D \<union> cn_id ` set d)) ((ds @ d) @ [c]) l w \<and> removable c w)"
    by (rule close_checked)
  then have "hoare overflow_only (closing D ds l c d) (Connection_Close N c reason)
      (\<lambda>_. closing D ds l c (d @ [c]))"
    unfolding closing_def hoare_def by (fastforce split: outcome.splits)
  then show ?thesis by (rule hoare_andThen [OF _ hoare_ret])
qed

lemma check_connection_ok:
  assumes new: "cn_id c \<notin> fst ` set l"
  shows "hoare overflow_only (checked D ds ((cn_id c, c) # l)) (check_connection N now c)
     (\<lambda>d. checked (D \<union> cn_id ` set d) (ds @ d) l)"
proof -
  let ?I = "\<lambda>c. checked D ds ((cn_id c, c) # l)"
  have ping: "hoare overflow_only (?I c)
      (if need then andThen (read_state net_ec) (\<lambda>ec. andThen (PingCustom N ec c) (\<lambda>(_, c). andThen (store_conn c) (\<lambda>_. ret c)))
       else ret c) (\<lambda>c'. ?I c')" for need
  proof (rule hoare_if)
    have store: "hoare overflow_only (\<lambda>w. ?I c w \<and> same_conn c (snd r)) (case r of (_, c) \<Rightarrow> andThen (store_conn c) (\<lambda>_. ret c)) (\<lambda>c'. ?I c')" for r :: "bool \<times> Connection"
      by (rule hoare_assume) (auto split: prod.splits intro!: hoare_andThen [OF store_checked [OF _ new]] hoare_ret)
    show "hoare overflow_only (?I c) (andThen (read_state net_ec) (\<lambda>ec. andThen (PingCustom N ec c) (\<lambda>(_, c). andThen (store_conn c) (\<lambda>_. ret c)))) (\<lambda>c'. ?I c')"
      by (rule hoare_read_andThen, rule hoare_pre, rule hoare_andThen [OF acts_checked [OF acts_PingCustom] store]) simp
  qed (simp add: hoare_ret)
  have look: "hoare overflow_only (?I c) m (\<lambda>_. ?I c)" if "acts {} m (\<lambda>_. True)" for m :: "bool net" and c
    using acts_checked [OF that] by (rule hoare_post) simp
  have start: "closing D ds l c' [] w" if "?I c' w" for c' w
    using that by (simp add: closing_def checked_def present_removable)
  have expired: "hoare overflow_only (?I c') (if b then andThen (Connection_Close N c' reason) (\<lambda>_. ret [c']) else ret [])
      (\<lambda>d. closing D ds l c' d)" for b c' reason
    by (rule hoare_if, rule hoare_pre [OF close_one [where d = "[]", simplified]], rule start, assumption, rule hoare_ret, rule start)
  have app: "hoare overflow_only (closing D ds l c' d)
      (if b then ret d else andThen (Connection_Close N c' reason) (\<lambda>_. ret (d @ [c'])))
      (\<lambda>d. checked (D \<union> cn_id ` set d) (ds @ d) l)" for b c' reason d
    by (rule hoare_if, rule hoare_ret, simp add: closing_def, rule hoare_post [OF close_one], simp add: closing_def)
  show ?thesis
    unfolding check_connection_def
    by (rule hoare_read_andThen, rule hoare_pre,
        rule hoare_andThen [OF look [OF acts_need_ping] hoare_andThen [OF ping hoare_andThen [OF look [OF acts_expired]
          hoare_andThen [OF expired app]]]]) simp
qed

lemma check_connections_ok:
  "distinct (map fst l) \<Longrightarrow> \<forall>(i, c) \<in> set l. cn_id c = i \<Longrightarrow>
   hoare overflow_only (checked D ds l) (check_connections N now l) (\<lambda>d. checked (D \<union> cn_id ` set d) (ds @ d) [])"
proof (induction l arbitrary: D ds)
  case Nil
  then show ?case by (simp add: hoare_ret)
next
  case (Cons ic l)
  then have ic: "ic = (cn_id (snd ic), snd ic)" and new: "cn_id (snd ic) \<notin> fst ` set l" by (cases ic; auto)+
  have first: "hoare overflow_only (checked D ds (ic # l)) (check_connection N now (snd ic)) (\<lambda>d. checked (D \<union> cn_id ` set d) (ds @ d) l)"
    by (subst ic) (rule check_connection_ok [OF new])
  have rest: "hoare overflow_only (checked (D \<union> cn_id ` set d) (ds @ d) l)
      (andThen (check_connections N now l) (\<lambda>ds'. ret (d @ ds'))) (\<lambda>d'. checked (D \<union> cn_id ` set d') (ds @ d') [])" for d
    by (rule hoare_andThen [OF Cons.IH hoare_ret]) (use Cons.prems in \<open>auto simp: Un_assoc image_Un\<close>)
  show ?case by (simp add: hoare_andThen [OF first rest])
qed

lemma remove_all_ok:
  "D \<subseteq> cn_id ` set l \<Longrightarrow> hoare overflow_only (\<lambda>w. network_ok D w \<and> rems l w) (remove_all N l) (\<lambda>_. network_ok {})"
proof (induction l arbitrary: D)
  case Nil
  then show ?case by (auto intro!: hoare_ret)
next
  case (Cons c l)
  then have "D - {cn_id c} \<subseteq> cn_id ` set l" by auto
  then show ?case by (simp add: hoare_andThen [OF RemoveConnection_hoare Cons.IH])
qed

lemma all_checked:
  assumes ok: "network_ok {} w"
  shows "checked {} [] (connections w) w \<and> distinct (map fst (connections w)) \<and> (\<forall>(i, c) \<in> set (connections w). cn_id c = i)"
proof -
  have "sorted_map (connections w)" using ok by (simp add: network_ok_def)
  then have dist: "distinct (map fst (connections w))" using sorted_map_distinct by (simp add: keys_def)
  then have get: "\<forall>(i, c) \<in> set (connections w). GetConnection i w = Some c" by (auto simp: GetConnection_def)
  moreover have "\<forall>(i, c) \<in> set (connections w). cn_id c = i"
    using get ok unfolding network_ok_def conn_ok_def by fast
  ultimately show ?thesis using dist ok by (simp add: checked_def rems_def)
qed

lemma check_all_ok: "hoare overflow_only (network_ok {}) (check_all N now) (\<lambda>_. network_ok {})"
  unfolding check_all_def
proof (rule hoare_read_andThen)
  fix l :: "(int, Connection) smap"
  let ?ids = "distinct (map fst l) \<and> (\<forall>(i, c) \<in> set l. cn_id c = i)"
  let ?clean = "\<lambda>_. andThen (change (\<lambda>w. w\<lparr>connections_delete := filter (\<lambda>x. \<not> fst x < now) (connections_delete w)\<rparr>)) (\<lambda>_. ret now)"
  let ?body = "andThen (check_connections N now l) (\<lambda>dl. andThen (remove_all N dl) ?clean)"
  have clean: "hoare overflow_only (network_ok {}) (?clean u) (\<lambda>_. network_ok {})" for u :: unit
    by (rule hoare_andThen [OF hoare_change hoare_ret])
      (auto simp: network_ok_def conn_ok_def GetConnection_def sorted_map_filter)
  have rem: "hoare overflow_only (checked ({} \<union> cn_id ` set d) ([] @ d) []) (remove_all N d) (\<lambda>_. network_ok {})" for d
    by (rule hoare_pre [OF remove_all_ok [of "cn_id ` set d"]]) (simp_all add: checked_def)
  have "hoare overflow_only (checked {} [] l) ?body (\<lambda>_. network_ok {})" if ?ids
    by (rule hoare_andThen [OF check_connections_ok hoare_andThen [OF rem clean]]) (use that in auto)
  then have "hoare overflow_only (\<lambda>w. checked {} [] l w \<and> ?ids) ?body (\<lambda>_. network_ok {})" by (rule hoare_assume)
  then show "hoare overflow_only (\<lambda>w. network_ok {} w \<and> l = connections w) ?body (\<lambda>_. network_ok {})"
    by (rule hoare_pre) (use all_checked in blast)
qed

lemma network_turn_ok: "hoare overflow_only (network_ok {}) (network_turn N lct) (\<lambda>_. network_ok {})"
  unfolding network_turn_def
  by (rule hoare_andThen [OF acts_hoare_ok [OF acts_now]], rule hoare_andThen [OF acts_hoare_ok [OF acts_add64]],
      rule hoare_if, rule check_all_ok, rule hoare_ret)

section \<open>Every event\<close>

lemma conns_dropped: "conns side (set_delayed s m (heap_without D w)) = conns side w"
  by (cases side; cases s) (simp_all add: heap_without_def)

lemma dropped_frame:
  fixes w :: network
  shows "adapter.more (set_delayed s m (heap_without D w)) = adapter.more w"
    "g_id (set_delayed s m (heap_without D w)) = g_id w"
  by (cases s; simp add: heap_without_def)+

lemma evolved_dropped: "adapter_ok w \<Longrightarrow>
   evolved {} w (set_delayed s (filter P (delayed s w)) (heap_without (set_mset (vals (filter (\<lambda>x. \<not> P x) (delayed s w)))) w))"
  using drop_delayed_ok [of w s P]
  by (simp only: evolved_def GetConnectFromHandle_def conns_dropped dropped_frame) simp

lemma acts_delete_timer: "acts {} (delete_timer s t) (\<lambda>_. True)"
  unfolding acts_def using evolved_dropped [where P = "\<lambda>x. \<not> fst x < t"] by (simp add: delete_timer_run)

text \<open>The library reports an event of a client connection only while its object exists: an object is deleted
  five minutes after its connection was closed.\<close>

definition event_live :: "net_event \<Rightarrow> network \<Rightarrow> bool" where
  "event_live e w \<longleftrightarrow> (\<forall>p. e = ClientOpen p \<or> e = ClientClose p \<or> e = ClientFailed p \<or> e = ClientPong p \<or>
     (\<exists>msg. e = ClientMessage p msg) \<longrightarrow> conn_heap w p \<noteq> None)"

lemma server_event:
  "(\<And>i. hoare overflow_only (network_ok {}) (k i) (\<lambda>_. network_ok {})) \<Longrightarrow>
   hoare overflow_only (network_ok {}) (with_server_handle h b k) (\<lambda>_. network_ok {})"
  unfolding with_server_handle_def
  by (rule hoare_read_andThen, rule hoare_if) (auto intro: hoare_ret hoare_pre)

lemma client_event:
  "(\<And>i. hoare overflow_only (network_ok {}) (k i) (\<lambda>_. network_ok {})) \<Longrightarrow>
   hoare overflow_only (\<lambda>w. network_ok {} w \<and> conn_heap w p \<noteq> None) (with_client p k) (\<lambda>_. network_ok {})"
  unfolding with_client_def by (rule hoare_andThen [OF deref_ok]) (auto intro: hoare_pre)

lemma event_ok: "hoare overflow_only (\<lambda>w. network_ok {} w \<and> event_live e w) (handle_event N e) (\<lambda>_. network_ok {})"
proof (cases e)
  case (ServerOpen h)
  have "hoare overflow_only (\<lambda>w. network_ok {} w \<and> (i < 0 \<or> new_handle Server i w)) (if i < 0 then ret () else Network_OnOpen N i)
      (\<lambda>_. network_ok {})" for i
    by (rule hoare_if) (auto intro: hoare_ret hoare_pre [OF Network_OnOpen_ok])
  then show ?thesis unfolding ServerOpen handle_event.simps
    by (intro hoare_pre [OF hoare_andThen [OF server_opened]]) auto
qed (simp_all add: event_live_def, auto intro!: hoare_pre [OF server_event] hoare_pre [OF client_event] OnClose_ok OnMessage_ok OnFailed_ok OnPong_ok
    OnClientOpen_ok hoare_pre [OF hoare_andThen [OF Network_Connect_ok hoare_ret]] hoare_pre [OF hoare_andThen [OF network_turn_ok hoare_ret]]
    hoare_pre [OF hoare_andThen [OF acts_hoare_ok [OF acts_delete_timer] acts_hoare_ok [OF acts_delete_timer]]]
    simp: SocketClient_OnTimer_def SocketServer_OnTimer_def)

section \<open>Reachable networks\<close>

lemma new_network_ok: "network_ok {} new_network"
proof -
  have "conns side new_network = []" for side by (cases side) (simp_all add: new_network_def)
  then show ?thesis
    by (simp add: network_ok_def adapter_ok_def tables_sorted_def entries_ok_def)
      (simp add: new_network_def owned_def sorted_map_def GetConnection_def)
qed

lemma own_fields_conns [simp]:
  "conns s (w\<lparr>thread_inited := a\<rparr>) = conns s w" "conns s (w\<lparr>net_enabled := a\<rparr>) = conns s w"
  "conns s (w\<lparr>listen_port := c\<rparr>) = conns s w"
  by (cases s; simp)+

lemma own_fields_ok [simp]:
  "network_ok D (w\<lparr>thread_inited := a\<rparr>) = network_ok D w" "network_ok D (w\<lparr>net_enabled := a\<rparr>) = network_ok D w"
  "network_ok D (w\<lparr>listen_port := c\<rparr>) = network_ok D w"
  by (simp_all add: network_ok_def conn_ok_def GetConnection_def GetConnectFromHandle_def
      adapter_ok_def tables_sorted_def entries_ok_def owned_def)

lemma Stop_ok: "hoare overflow_only (network_ok {}) Network_Stop (\<lambda>_. network_ok {})"
  unfolding Network_Stop_def by (rule hoare_change) simp

lemma Start_ok: "hoare overflow_only (network_ok {}) (Start_setup N ip) (\<lambda>_. network_ok {})"
proof -
  have call: "hoare overflow_only (network_ok {}) (ws_call L io r) (\<lambda>_. network_ok {})" for L io r
    by (rule acts_hoare_ok [OF acts_call])
  have accept: "hoare overflow_only (network_ok {}) (WssSocketServer_StartAccept L r) (\<lambda>_. network_ok {})" for L r
    unfolding WssSocketServer_StartAccept_def by (rule hoare_andThen [OF call hoare_ret])
  have listen: "hoare overflow_only (network_ok {}) (WssSocketServer_Listen L a r) (\<lambda>_. network_ok {})" for L a r
    unfolding WssSocketServer_Listen_def by (rule hoare_andThen [OF call hoare_ret])
  have port: "hoare overflow_only (network_ok {}) (change (\<lambda>w. w\<lparr>listen_port := f w\<rparr>)) (\<lambda>_. network_ok {})" for f
    by (rule hoare_change) simp
  have flags: "hoare overflow_only (network_ok {})
      (andThen (change (\<lambda>w. w\<lparr>thread_inited := True, net_enabled := b \<or> net_enabled w\<rparr>)) (\<lambda>_. ret b)) (\<lambda>_. network_ok {})" for b
    by (rule hoare_andThen [OF hoare_change hoare_ret]) simp_all
  have accepted: "hoare overflow_only (network_ok {}) (case x of (_, err) \<Rightarrow> if result_code err \<noteq> 0 then ret False
      else andThen (change (\<lambda>w. w\<lparr>listen_port := f w\<rparr>)) (\<lambda>_. ret True)) (\<lambda>_. network_ok {})" for x :: "bool \<times> Result" and f
    by (cases x; simp) (intro conjI impI hoare_ret hoare_andThen [OF port]; assumption)
  have listened: "hoare overflow_only (network_ok {}) (case x of (_, err) \<Rightarrow> if result_code err \<noteq> 0 then ret False
      else andThen (WssSocketServer_StartAccept L err) (\<lambda>(_, err). if result_code err \<noteq> 0 then ret False
      else andThen (change (\<lambda>w. w\<lparr>listen_port := f w\<rparr>)) (\<lambda>_. ret True))) (\<lambda>_. network_ok {})" for x :: "bool \<times> Result" and f L
    by (cases x; simp) (intro conjI impI hoare_ret hoare_andThen [OF accept accepted]; assumption)
  show ?thesis
    unfolding Start_setup_def
    by (rule hoare_andThen [OF hoare_option flags]) (rule hoare_ret, assumption, rule hoare_andThen [OF listen listened])
qed

text \<open>One event, reported while its object is there and handled without a fault.\<close>

inductive network_reachable :: "net_env \<Rightarrow> network \<Rightarrow> bool" for N where
  at_start: "network_reachable N new_network"
| set_up: "network_reachable N w \<Longrightarrow> Start_setup N ip w = Done b w' \<Longrightarrow> network_reachable N w'"
| event: "network_reachable N w \<Longrightarrow> event_live e w \<Longrightarrow> handle_event N e w = Done () w' \<Longrightarrow> network_reachable N w'"
| stopped: "network_reachable N w \<Longrightarrow> Network_Stop w = Done () w' \<Longrightarrow> network_reachable N w'"

lemma reachable_ok: "network_reachable N w \<Longrightarrow> network_ok {} w"
proof (induction rule: network_reachable.induct)
  case (set_up w ip b w')
  then show ?case using hoare_Done [OF Start_ok] by blast
next
  case (event w e w')
  then show ?case using hoare_Done [OF event_ok [of e N]] by blast
next
  case (stopped w w')
  then show ?case using hoare_Done [OF Stop_ok] by blast
qed (rule new_network_ok)

text \<open>C18: In every reachable state every event of a live object is handled to its end and leaves the tables of
  connections, handles and socket objects in step; no null pointer and no deleted object is read. The only other
  outcome is an overflow of the 64-bit counters and times.\<close>

theorem network_events_are_safe:
  assumes "network_reachable N w" and "event_live e w"
  shows "(\<exists>w'. handle_event N e w = Done () w' \<and> network_ok {} w') \<or> (\<exists>w'. handle_event N e w = Fault SignedOverflow w')"
proof (cases "handle_event N e w")
  case (Done u w')
  then show ?thesis using hoare_Done [OF event_ok [of e N]] reachable_ok [OF assms(1)] assms(2) by auto
next
  case (Fault f w')
  then have "f \<in> overflow_only"
    by (rule hoare_Fault [OF event_ok [of e N], rotated]) (simp add: reachable_ok [OF assms(1)] assms(2))
  then show ?thesis using Fault by simp
qed

text \<open>A library that opens every connection and whose clock shows the number of calls so far.\<close>

definition sample_net :: net_env where
  "sample_net = \<lparr>ne_lib = \<lparr>ws_clock = int \<circ> length, ws_answer = (\<lambda>_ _. (0, [])), ws_new_hdl = (\<lambda>tr _. Some (length tr)),
       ws_local_port = (\<lambda>_. 0), ws_remote = (\<lambda>_ _. [])\<rparr>,
     ne_pb = \<lparr>pb_WsMessage = wm_data, parse_WsMessage = (\<lambda>s. \<lparr>wm_type = 1, wm_request = True, wm_sequence = 0, wm_data = s\<rparr>),
       pb_Ping = (\<lambda>_. []), parse_Ping = (\<lambda>_. Some 0), pb_Pong = (\<lambda>_. []), parse_Pong = (\<lambda>_. Some 0)\<rparr>,
     ne_hooks = base_hooks\<rparr>"

definition connected_net :: network where
  "connected_net = state_of (handle_event sample_net (ConnectTo ''wss'') new_network)"

fun runs_to :: "('a, 's) outcome \<Rightarrow> ('s \<Rightarrow> bool) \<Rightarrow> bool" where
  "runs_to (Done a s) P = P s"
| "runs_to (Fault f s) P = False"

lemma runs_to_Done: "runs_to r P \<Longrightarrow> \<exists>a. r = Done a (state_of r) \<and> P (state_of r)"
  by (cases r) simp_all

lemma connected_net_run:
  "handle_event sample_net (ConnectTo ''wss'') new_network = Done () connected_net"
  "map fst (connections connected_net) = [0]" "conn_heap connected_net 0 \<noteq> None"
proof -
  let ?P = "\<lambda>w. map fst (connections w) = [0] \<and> (case conn_heap w 0 of None \<Rightarrow> False | Some _ \<Rightarrow> True)"
  have "runs_to (handle_event sample_net (ConnectTo ''wss'') new_network) ?P" by code_simp
  from runs_to_Done [OF this] show "handle_event sample_net (ConnectTo ''wss'') new_network = Done () connected_net"
    "map fst (connections connected_net) = [0]" "conn_heap connected_net 0 \<noteq> None"
    by (auto simp: connected_net_def split: option.splits)
qed

lemma connected_net_reachable: "network_reachable sample_net connected_net"
  by (rule network_reachable.event [OF network_reachable.at_start _ connected_net_run(1)]) (simp add: event_live_def)

theorem network_events_are_safe_witness:
  "network_reachable sample_net connected_net \<and> connections connected_net \<noteq> [] \<and>
   (\<exists>w'. handle_event sample_net (ClientOpen 0) connected_net = Done () w' \<and> network_ok {} w')"
proof -
  have live: "event_live (ClientOpen 0) connected_net" using connected_net_run(3) by (simp add: event_live_def)
  have "runs_to (handle_event sample_net (ClientOpen 0) connected_net) (\<lambda>w. connections w \<noteq> [])" by code_simp
  then show ?thesis
    using network_events_are_safe [OF connected_net_reachable live] connected_net_reachable connected_net_run(2) by auto
qed

end
