(* ===== verification/Network_Check.thy ===== *)
theory Network_Check
  imports Network_Facts
begin

text \<open>
  What a turn of the network thread does to the connections, and how often a message is handed to its socket.
  A predicate that speaks only of the tables of the network holds on over every operation of the adapter
  (\<open>table_predicate\<close>); the check is then a loop over the connections that were there when it began.
\<close>

section \<open>The check of silent connections\<close>

text \<open>What the check looks at in a connection, and its decision when the clock shows \<open>t\<close>.\<close>

definition stamp :: "Connection \<Rightarrow> int \<times> int \<times> int" where
  "stamp c = (cn_id c, connect_end_time c, last_receive_time c)"

definition silent_conn :: "int \<Rightarrow> int \<Rightarrow> Connection \<Rightarrow> bool" where
  "silent_conn t limit c \<longleftrightarrow> connect_end_time c > 0 \<and> t - last_receive_time c > limit"

definition stamped :: "(int \<Rightarrow> (int \<times> int \<times> int) option) \<Rightarrow> int \<Rightarrow> network \<Rightarrow> bool" where
  "stamped S limit w \<longleftrightarrow> sorted_map (connections w) \<and> connect_time_out w = limit \<and>
     (\<forall>i. map_option stamp (GetConnection i w) = S i)"

lemma table_only_stamped: "table_only (stamped S limit)"
  unfolding table_only_def stamped_def by (metis more_fields(1,5,6))

named_theorems tables_kept

lemma table_onlyD: "table_only I \<Longrightarrow> I w \<Longrightarrow> adapter.more w' = adapter.more w \<Longrightarrow> I w'"
  unfolding table_only_def by blast

text \<open>A predicate on the tables of the network holds on over every operation of the adapter.\<close>

locale table_predicate =
  fixes I :: "network \<Rightarrow> bool"
  assumes I: "table_only I"
begin

lemma kept_now [tables_kept]: "keeps I (net_now L)"
  by (auto simp: keeps_def net_now_def elim!: table_onlyD [OF I])

lemma kept_call [tables_kept]: "keeps I (ws_call L io r)"
  by (auto simp: keeps_def ws_call_def split: prod.splits elim!: table_onlyD [OF I])

lemma kept_change: "(\<And>w. adapter.more (f w) = adapter.more w) \<Longrightarrow> keeps I (change f)"
  by (rule keeps_change) (erule table_onlyD [OF I], simp)

lemma kept_deref [tables_kept]: "keeps I (deref p)"
  unfolding deref_def by (intro keeps_intros)

lemma kept_close [tables_kept]: "keeps I (close_conn L s d h r ec)"
  unfolding close_conn_def by (intro keeps_intros tables_kept kept_change) simp_all

lemma kept_send [tables_kept]: "keeps I (send_conn L s h m ec)"
  unfolding send_conn_def by (intro keeps_intros tables_kept)

lemma kept_pause [tables_kept]: "keeps I (WssSocketServer_PauseReading L h ec)"
  unfolding WssSocketServer_PauseReading_def by (intro keeps_intros tables_kept)

lemma kept_Close [tables_kept]: "keeps I (Connection_Close N c reason)"
  unfolding Connection_Close_def WssSocketServer_Close_def WssSocketClient_Close_def by (intro keeps_intros tables_kept)

lemma kept_socket_send [tables_kept]: "keeps I (socket_send N c m r)"
  unfolding socket_send_def WssSocketServer_Send_def WssSocketClient_Send_def by (intro keeps_intros tables_kept)

lemma kept_send_loop [tables_kept]: "keeps I (send_loop N c m n r)"
  by (induction n arbitrary: r) (auto intro!: keeps_intros tables_kept)

lemma kept_SendRequest [tables_kept]: "keeps I (SendRequest N c type data)"
  unfolding SendRequest_def SendByteMessage_def by (intro keeps_intros tables_kept)

lemma kept_PingCustom [tables_kept]: "keeps I (PingCustom N ec c)"
  unfolding PingCustom_def by (intro keeps_intros tables_kept)

lemma kept_NeedPing [tables_kept]: "keeps I (NeedPing N i c)"
  unfolding NeedPing_def since_def by (intro keeps_intros tables_kept)

lemma yields_now: "\<forall>tr. ws_clock L tr = t \<Longrightarrow> yields I (net_now L) (\<lambda>r. r = t)"
  by (auto simp: yields_def net_now_def elim!: table_onlyD [OF I])

lemma yields_silent:
  assumes "\<forall>tr. ws_clock (ne_lib N) tr = t"
  shows "yields I (IsDataExpired N limit c) (\<lambda>r. r = silent_conn t limit c)"
  unfolding IsDataExpired_def since_def andThen_assoc silent_conn_def
  by (rule yields_if, rule yields_andThen [OF yields_now [OF assms]], rule yields_andThen [OF yields_add64])
    (auto intro: yields_ret)

lemma yields_SendRequest: "yields I (SendRequest N c type data) (\<lambda>r. stamp (snd r) = stamp c)"
  unfolding SendRequest_def
  by (rule yields_andThen [OF yields_add64])
    (rule yields_andThen [OF yields_top], auto simp: SendByteMessage_def stamp_def intro!: yields_ret keeps_intros tables_kept)

lemma yields_PingCustom: "yields I (PingCustom N ec c) (\<lambda>r. stamp (snd r) = stamp c)"
  unfolding PingCustom_def
  by (rule yields_andThen [OF yields_top [OF kept_now]], rule yields_andThen [OF yields_SendRequest])
    (auto intro!: yields_andThen [OF yields_top [OF kept_now]] yields_ret simp: stamp_def)

end

interpretation stamps: table_predicate "stamped S limit" for S limit
  by unfold_locales (rule table_only_stamped)

lemma keeps_store: "S (cn_id c) = Some (stamp c) \<Longrightarrow> keeps (stamped S limit) (store_conn c)"
  unfolding store_conn_def
  by (rule keeps_change) (auto simp: stamped_def GetConnection_def map_of_put)

lemma yields_check:
  assumes clock: "\<forall>tr. ws_clock (ne_lib N) tr = t" and hook: "\<forall>c. on_network_timer (ne_hooks N) c t"
    and c: "S (cn_id c) = Some (stamp c)"
  shows "yields (stamped S limit) (check_connection N t c) (\<lambda>d. map cn_id d = (if silent_conn t limit c then [cn_id c] else []))"
proof -
  have same: "silent_conn t limit c' = silent_conn t limit c \<and> cn_id c' = cn_id c" if "stamp c' = stamp c" for c'
    using that by (auto simp: stamp_def silent_conn_def)
  have limit: "yields (stamped S limit) (read_state connect_time_out) (\<lambda>r. r = limit)"
    by (simp add: yields_def read_state_def stamped_def)
  have ping: "yields (stamped S limit)
      (if b then andThen (read_state net_ec) (\<lambda>ec. andThen (PingCustom N ec c) (\<lambda>(_, c). andThen (store_conn c) (\<lambda>_. ret c))) else ret c)
      (\<lambda>c'. stamp c' = stamp c)" for b
    by (intro yields_if yields_ret yields_andThen [OF yields_top [OF keeps_read]] yields_andThen [OF stamps.yields_PingCustom])
      (auto split: prod.splits intro!: yields_andThen [OF yields_top [OF keeps_store]] yields_ret simp: c stamp_def)
  have expired: "yields (stamped S limit) (if b then andThen (Connection_Close N c' reason) (\<lambda>_. ret [c']) else ret [])
      (\<lambda>d. map cn_id d = (if b then [cn_id c'] else []))" for b c' reason
    by (intro yields_if yields_andThen [OF yields_top [OF stamps.kept_Close]] yields_ret) simp_all
  have hooked: "yields (stamped S limit) (if on_network_timer (ne_hooks N) c' t then ret l
      else andThen (Connection_Close N c' reason) (\<lambda>_. ret (l @ [c']))) (\<lambda>d. map cn_id d = ids)"
    if "map cn_id l = ids" for c' l ids reason
    using that hook by (simp add: yields_ret)
  have decided: "yields (stamped S limit) (andThen (IsDataExpired N limit c') (\<lambda>expired.
      andThen (if expired then andThen (Connection_Close N c' ''expired'') (\<lambda>_. ret [c']) else ret []) (\<lambda>l.
      if on_network_timer (ne_hooks N) c' t then ret l else andThen (Connection_Close N c' ''app error'') (\<lambda>_. ret (l @ [c'])))))
      (\<lambda>d. map cn_id d = (if silent_conn t limit c then [cn_id c] else []))" if "stamp c' = stamp c" for c'
    unfolding conjunct1 [OF same [OF that], symmetric] conjunct2 [OF same [OF that], symmetric]
    by (rule yields_andThen [OF stamps.yields_silent [OF clock]], rule yields_andThen [OF expired], rule hooked) simp
  show ?thesis
    unfolding check_connection_def
    by (rule yields_andThen [OF limit], rule yields_andThen [OF yields_top [OF stamps.kept_NeedPing]], rule yields_andThen [OF ping],
        simp only:, rule decided)
qed

lemma yields_checks:
  assumes clock: "\<forall>tr. ws_clock (ne_lib N) tr = t" and hook: "\<forall>c. on_network_timer (ne_hooks N) c t"
  shows "\<forall>(i, c) \<in> set l. cn_id c = i \<and> S i = Some (stamp c) \<Longrightarrow>
    yields (stamped S limit) (check_connections N t l) (\<lambda>d. map cn_id d = map fst (filter (\<lambda>(i, c). silent_conn t limit c) l))"
proof (induction l)
  case (Cons ic l)
  then have Sc: "S (cn_id (snd ic)) = Some (stamp (snd ic))" and id: "cn_id (snd ic) = fst ic" by (cases ic; auto)+
  then have first: "yields (stamped S limit) (check_connection N t (snd ic))
      (\<lambda>d. map cn_id d = (if silent_conn t limit (snd ic) then [fst ic] else []))"
    using yields_check [where S = S and c = "snd ic" and limit = limit, OF clock hook Sc] unfolding id by blast
  have rest: "yields (stamped S limit) (check_connections N t l) (\<lambda>d. map cn_id d = map fst (filter (\<lambda>(i, c). silent_conn t limit c) l))"
    using Cons by simp
  show ?case
    unfolding check_connections.simps
    by (rule yields_andThen [OF first], rule yields_andThen [OF rest], rule yields_ret) (cases ic; auto)
qed (simp add: yields_ret)

definition without :: "int set \<Rightarrow> (int \<Rightarrow> 'a option) \<Rightarrow> int \<Rightarrow> 'a option" where
  "without X S = (\<lambda>i. if i \<in> X then None else S i)"

lemma remove_one:
  "hoare UNIV (stamped S limit) (RemoveConnection N c) (\<lambda>_. stamped (without {cn_id c} S) limit)"
  unfolding RemoveConnection_def
  by (rule hoare_andThen [OF keeps_hoare [OF stamps.kept_Close]], rule hoare_andThen [OF keeps_hoare [OF stamps.kept_now]],
      rule hoare_andThen [OF keeps_hoare [OF keeps_add64]], rule hoare_change)
    (auto simp: stamped_def without_def GetConnection_def map_of_erase)

lemma remove_list:
  "hoare UNIV (stamped S limit) (remove_all N d) (\<lambda>_. stamped (without (cn_id ` set d) S) limit)"
proof (induction d arbitrary: S)
  case (Cons c d)
  have "without (cn_id ` set d) (without {cn_id c} S) = without (cn_id ` set (c # d)) S" by (auto simp: without_def)
  with Cons [of "without {cn_id c} S"] show ?case by (simp add: hoare_andThen [OF remove_one])
qed (simp add: without_def hoare_ret)

lemma hoare_check_all:
  assumes clock: "\<forall>tr. ws_clock (ne_lib N) tr = t" and hook: "\<forall>c. on_network_timer (ne_hooks N) c t"
    and ids: "\<forall>(i, c) \<in> set l. cn_id c = i \<and> S i = Some (stamp c)"
  shows "hoare UNIV (\<lambda>w. stamped S limit w \<and> connections w = l) (check_all N t)
    (\<lambda>r w. r = t \<and> stamped (without (fst ` {(i, c) \<in> set l. silent_conn t limit c}) S) limit w)"
  unfolding check_all_def
proof (rule hoare_read_andThen)
  fix l'
  let ?X = "fst ` {(i, c) \<in> set l. silent_conn t limit c}"
  let ?clean = "\<lambda>_. andThen (change (\<lambda>w. w\<lparr>connections_delete := filter (\<lambda>x. \<not> fst x < t) (connections_delete w)\<rparr>)) (\<lambda>_. ret t)"
  have X: "cn_id ` set d = ?X" if "map cn_id d = map fst (filter (\<lambda>(i, c). silent_conn t limit c) l)" for d
    using arg_cong [OF that, of set] by (auto simp: image_iff)
  have checks: "hoare UNIV (stamped S limit) (check_connections N t l) (\<lambda>d w. stamped S limit w \<and> cn_id ` set d = ?X)"
    by (rule hoare_post [OF yields_hoare [OF yields_checks [OF clock hook ids]]]) (simp add: X)
  have clean: "hoare UNIV (stamped S' limit) (?clean u) (\<lambda>r w. r = t \<and> stamped S' limit w)" for S' and u :: unit
    by (rule hoare_andThen [OF hoare_change hoare_ret]) (simp_all add: stamped_def GetConnection_def)
  have removed: "hoare UNIV (stamped S limit) (andThen (remove_all N d) ?clean) (\<lambda>r w. r = t \<and> stamped (without ?X S) limit w)"
    if "cn_id ` set d = ?X" for d
    by (rule hoare_andThen [OF remove_list [of S limit N d, unfolded that] clean])
  show "hoare UNIV (\<lambda>w. (stamped S limit w \<and> connections w = l) \<and> l' = connections w)
      (andThen (check_connections N t l') (\<lambda>dl. andThen (remove_all N dl) ?clean))
      (\<lambda>r w. r = t \<and> stamped (without ?X S) limit w)"
  proof (rule hoare_pre [OF hoare_assume [where b = "l' = l"]])
    assume "l' = l"
    then show "hoare UNIV (stamped S limit) (andThen (check_connections N t l') (\<lambda>dl. andThen (remove_all N dl) ?clean))
        (\<lambda>r w. r = t \<and> stamped (without ?X S) limit w)"
      using hoare_andThen [OF checks hoare_assume [OF removed]] by simp
  qed simp
qed

lemma turn_checks:
  assumes clock: "\<forall>tr. ws_clock (ne_lib N) tr = t" and due: "t - last_check > 1000000"
    and run: "network_turn N last_check w = Done r w'"
  shows "check_all N t (net_log ClockNow w) = Done r w'"
  using run due by (auto simp: network_turn_def net_now_def andThen_def clock add64_def ret_def fault_def split: if_splits)

text \<open>C19: Whatever the library did so far (\<open>N0\<close>): while the clock stands at \<open>t\<close> and no hook objects, a check that is due removes exactly the connections that
  were open and silent for longer than the limit, and keeps the open time and the last receive time of the others.
  A connection that never opened is never silent: it stays however long it waits.\<close>

theorem check_removes_exactly_the_silent:
  assumes reach: "network_reachable N0 w" and clock: "\<forall>tr. ws_clock (ne_lib N) tr = t"
    and hook: "\<forall>c. on_network_timer (ne_hooks N) c t" and due: "t - last_check > 1000000"
    and run: "network_turn N last_check w = Done r w'"
  shows "r = t \<and> (\<forall>i. map_option stamp (GetConnection i w') =
    (case GetConnection i w of None \<Rightarrow> None | Some c \<Rightarrow> if silent_conn t (connect_time_out w) c then None else Some (stamp c)))"
proof -
  let ?w = "net_log ClockNow w" and ?l = "connections w" and ?limit = "connect_time_out w"
  let ?S = "\<lambda>i. map_option stamp (GetConnection i w)" and ?X = "fst ` {(i, c) \<in> set (connections w). silent_conn t (connect_time_out w) c}"
  have ok: "network_ok {} w" by (rule reachable_ok [OF reach])
  then have sorted: "sorted_map ?l" by (simp add: network_ok_def)
  have same: "connections ?w = ?l" "connect_time_out ?w = ?limit" "GetConnection i ?w = GetConnection i w" for i
    using more_fields [of ?w w] by simp_all
  have "stamped ?S ?limit ?w \<and> connections ?w = ?l" using sorted by (simp add: stamped_def same)
  moreover have get: "(i, c) \<in> set ?l \<longleftrightarrow> GetConnection i w = Some c" for i c
    using sorted_map_distinct [OF sorted] by (simp add: GetConnection_def keys_def)
  then have "\<forall>(i, c) \<in> set ?l. cn_id c = i \<and> ?S i = Some (stamp c)" using all_checked [OF ok] by auto
  ultimately have after: "r = t \<and> stamped (without ?X ?S) ?limit w'"
    by (intro hoare_Done [OF hoare_check_all [OF clock hook] _ turn_checks [OF clock due run]])
  have "i \<in> ?X \<longleftrightarrow> (\<exists>c. GetConnection i w = Some c \<and> silent_conn t ?limit c)" for i
    using get by (force simp: image_iff)
  with after show ?thesis by (auto simp: stamped_def without_def split: option.split)
qed

text \<open>A connection that opened at once, checked when the clock stands at one hundred seconds.\<close>

definition standing_net :: net_env where
  "standing_net = sample_net\<lparr>ne_lib := (ne_lib sample_net)\<lparr>ws_clock := \<lambda>_. 100000000\<rparr>\<rparr>"

definition opened_net :: network where
  "opened_net = state_of (handle_event sample_net (ClientOpen 0) connected_net)"

lemma opened_net_reachable: "network_reachable sample_net opened_net"
proof (rule network_reachable.event [OF connected_net_reachable])
  show "event_live (ClientOpen 0) connected_net" using connected_net_run(3) by (simp add: event_live_def)
  have "runs_to (handle_event sample_net (ClientOpen 0) connected_net) (\<lambda>w. connections w \<noteq> [])" by code_simp
  from runs_to_Done [OF this] show "handle_event sample_net (ClientOpen 0) connected_net = Done () opened_net"
    by (simp add: opened_net_def)
qed

theorem check_removes_exactly_the_silent_witness:
  "GetConnection 0 opened_net \<noteq> None \<and>
   (\<exists>w'. network_turn standing_net 0 opened_net = Done 100000000 w' \<and> GetConnection 0 w' = None)"
proof -
  have clock: "\<forall>tr. ws_clock (ne_lib standing_net) tr = 100000000" by (simp add: standing_net_def)
  have hook: "\<forall>c. on_network_timer (ne_hooks standing_net) c 100000000"
    by (simp add: standing_net_def sample_net_def base_hooks_def OnNetworkTimer_def)
  have "case GetConnection 0 opened_net of None \<Rightarrow> False | Some c \<Rightarrow> silent_conn 100000000 (connect_time_out opened_net) c" by code_simp
  then obtain c where c: "GetConnection 0 opened_net = Some c" "silent_conn 100000000 (connect_time_out opened_net) c"
    by (auto split: option.splits)
  have "runs_to (network_turn standing_net 0 opened_net) (\<lambda>w. True)" by code_simp
  then obtain r w' where run: "network_turn standing_net 0 opened_net = Done r w'" using runs_to_Done by blast
  have due: "100000000 - 0 > (1000000 :: int)" by simp
  note removed = check_removes_exactly_the_silent [OF opened_net_reachable clock hook due run]
  have "map_option stamp (GetConnection 0 w') = None" using conjunct2 [OF removed, rule_format, of 0] c by simp
  then show ?thesis using run c(1) conjunct1 [OF removed] by simp
qed

section \<open>Sending\<close>

definition attempt_ok :: "ws_lib \<Rightarrow> net_io list \<Rightarrow> net_io \<Rightarrow> nat \<Rightarrow> bool" where
  "attempt_ok L tr io k \<longleftrightarrow> fst (ws_answer L (tr @ replicate k io) io) = 0"

lemma socket_send_run:
  assumes "has_socket c" and "GetConnectFromHandle (side_of c) (cn_handle c) w = Some p" and "conn_heap w p = Some wc"
  shows "\<exists>r'. socket_send N c m r w = Done r' (net_log (WsSend (side_of c) (wc_hdl wc) m) w) \<and>
    result_code r' = fst (ws_answer (ne_lib N) (net_trace w) (WsSend (side_of c) (wc_hdl wc) m))"
  using assms
  by (cases "in_bound c")
    (auto simp: socket_send_def side_of_def WssSocketServer_Send_def WssSocketClient_Send_def send_conn_def deref_def
      ws_call_def prog_simps set_code_def set_desc_def split: prod.splits)

lemma send_loop_run:
  fixes m
  assumes sock: "has_socket c" and p: "GetConnectFromHandle (side_of c) (cn_handle c) w = Some p" "conn_heap w p = Some wc"
  defines "io \<equiv> WsSend (side_of c) (wc_hdl wc) m"
  shows "tr = net_trace w @ replicate k io \<Longrightarrow> \<forall>j < k. \<not> attempt_ok (ne_lib N) (net_trace w) io j \<Longrightarrow>
    \<exists>k' r'. k \<le> k' \<and> k' \<le> k + n \<and>
      send_loop N c m (Suc n) r (w\<lparr>net_trace := tr\<rparr>) = Done r' (w\<lparr>net_trace := net_trace w @ replicate (Suc k') io\<rparr>) \<and>
      (\<forall>j < k'. \<not> attempt_ok (ne_lib N) (net_trace w) io j) \<and> (k' = k + n \<or> attempt_ok (ne_lib N) (net_trace w) io k') \<and>
      (result_code r' = 0 \<longleftrightarrow> attempt_ok (ne_lib N) (net_trace w) io k')"
proof (induction n arbitrary: k tr r)
  case 0
  have q: "GetConnectFromHandle (side_of c) (cn_handle c) (w\<lparr>net_trace := tr\<rparr>) = Some p" "conn_heap (w\<lparr>net_trace := tr\<rparr>) p = Some wc"
    using p by (cases "side_of c"; simp add: GetConnectFromHandle_def)+
  obtain r' where "socket_send N c m r (w\<lparr>net_trace := tr\<rparr>) = Done r' (net_log io (w\<lparr>net_trace := tr\<rparr>))"
    "result_code r' = fst (ws_answer (ne_lib N) tr io)"
    using socket_send_run [OF sock q, of N m r] by (auto simp: io_def)
  then show ?case using 0
    by (auto simp: prog_simps net_log_def attempt_ok_def replicate_append_same)
next
  case (Suc n)
  have q: "GetConnectFromHandle (side_of c) (cn_handle c) (w\<lparr>net_trace := tr\<rparr>) = Some p" "conn_heap (w\<lparr>net_trace := tr\<rparr>) p = Some wc"
    using p by (cases "side_of c"; simp add: GetConnectFromHandle_def)+
  obtain r' where r': "socket_send N c m r (w\<lparr>net_trace := tr\<rparr>) = Done r' (net_log io (w\<lparr>net_trace := tr\<rparr>))"
    "result_code r' = fst (ws_answer (ne_lib N) tr io)"
    using socket_send_run [OF sock q, of N m r] by (auto simp: io_def)
  have log: "net_log io (w\<lparr>net_trace := tr\<rparr>) = w\<lparr>net_trace := net_trace w @ replicate (Suc k) io\<rparr>"
    using Suc.prems(1) by (simp add: net_log_def replicate_append_same)
  show ?case
  proof (cases "attempt_ok (ne_lib N) (net_trace w) io k")
    case True
    then have "result_code r' = 0" using r'(2) Suc.prems(1) by (simp add: attempt_ok_def)
    then show ?thesis using True Suc.prems r'(1) log
      by (intro exI [of _ k] exI [of _ r']) (simp add: prog_simps)
  next
    case False
    then have "result_code r' \<noteq> 0" using r'(2) Suc.prems(1) by (simp add: attempt_ok_def)
    then have step: "send_loop N c m (Suc (Suc n)) r (w\<lparr>net_trace := tr\<rparr>) =
        send_loop N c m (Suc n) r' (w\<lparr>net_trace := net_trace w @ replicate (Suc k) io\<rparr>)"
      using r'(1) log by (simp add: prog_simps)
    have "\<forall>j < Suc k. \<not> attempt_ok (ne_lib N) (net_trace w) io j" using False Suc.prems(2) by (auto simp: less_Suc_eq)
    from Suc.IH [OF refl this, of r'] show ?thesis unfolding step by (metis Suc_leD add_Suc_shift)
  qed
qed

text \<open>C20: A message to a connection of the table is handed to its socket at most three times, again only while
  the attempts before failed; \<open>SendByteMessage\<close> tells whether the last attempt succeeded and changes nothing else.\<close>

theorem message_is_tried_up_to_three_times:
  assumes "network_reachable N w" and "GetConnection i w = Some c"
  shows "\<exists>p wc k. GetConnectFromHandle (side_of c) (cn_handle c) w = Some p \<and> conn_heap w p = Some wc \<and> k \<le> 2 \<and>
    (let io = WsSend (side_of c) (wc_hdl wc) m; ok = attempt_ok (ne_lib N) (net_trace w) io in
      SendByteMessage N c m w = Done (ok k) (w\<lparr>net_trace := net_trace w @ replicate (Suc k) io\<rparr>) \<and>
      (\<forall>j < k. \<not> ok j) \<and> (k = 2 \<or> ok k))"
proof -
  have ok: "network_ok {} w" by (rule reachable_ok [OF assms(1)])
  then have c: "conn_ok {} w i c" using assms(2) by (simp add: network_ok_def)
  then obtain p where p: "GetConnectFromHandle (side_of c) (cn_handle c) w = Some p" by (auto simp: conn_ok_def)
  obtain wc where wc: "conn_heap w p = Some wc" using found_live [OF _ p] ok by (auto simp: network_ok_def)
  have "has_socket c" using c by (auto simp: conn_ok_def has_socket_def)
  from send_loop_run [OF this p wc, of "net_trace w" 0 m N 2 new_Result]
  show ?thesis
    by (auto simp: SendByteMessage_def andThen_def ret_def numeral_3_eq_3 numeral_2_eq_2 p wc Let_def)
qed

theorem message_is_tried_up_to_three_times_witness:
  "\<exists>c p wc. GetConnection 0 connected_net = Some c \<and> GetConnectFromHandle (side_of c) (cn_handle c) connected_net = Some p \<and>
     conn_heap connected_net p = Some wc \<and>
     (\<exists>b w'. SendByteMessage sample_net c ''m'' connected_net = Done b w')"
proof -
  obtain c where c: "GetConnection 0 connected_net = Some c"
    using connected_net_run(2) by (cases "connections connected_net") (auto simp: GetConnection_def)
  from message_is_tried_up_to_three_times [OF connected_net_reachable c, of "''m''"]
  obtain p wc where "GetConnectFromHandle (side_of c) (cn_handle c) connected_net = Some p"
    "conn_heap connected_net p = Some wc" "\<exists>b w'. SendByteMessage sample_net c ''m'' connected_net = Done b w'"
    by (auto simp: Let_def)
  with c show ?thesis by blast
qed

end
