(* ===== verification/Aes.thy ===== *)
theory Aes
  imports Text
begin

text \<open>
  The AES wrappers of \<open>utils/crypto.cpp\<close>, which decrypt the private keys of the configuration. The cipher
  of OpenSSL is the record \<open>aes_lib\<close>: \<open>aes_cbc_encrypt\<close> and \<open>aes_cbc_decrypt\<close> return the bytes that
  \<open>AES_cbc_encrypt\<close> writes, \<open>aes_ctr_stream\<close> the stream that \<open>AES_ctr128_encrypt\<close> starts from a fresh
  counter. \<open>aes_ok\<close> is what its documentation says of them.

  Proved: a text whose length is no multiple of the block size is read back; for the others one more
  block is decrypted that was never encrypted, and what it gives is appended. The counter mode starts
  again every 1024 bytes.
\<close>

section \<open>The cipher\<close>

definition AES_BLOCK_SIZE :: nat where "AES_BLOCK_SIZE = 16"

record aes_lib =
  aes_cbc_encrypt :: "string \<Rightarrow> string \<Rightarrow> string \<Rightarrow> string"    \<comment> \<open>key, vector, data\<close>
  aes_cbc_decrypt :: "string \<Rightarrow> string \<Rightarrow> string \<Rightarrow> string"
  aes_ctr_stream :: "string \<Rightarrow> string \<Rightarrow> nat \<Rightarrow> string"

definition zeros :: "nat \<Rightarrow> string" where
  "zeros n = replicate n (CHR 0x00)"

text \<open>The bytes that fill up the last block.\<close>

definition block_pad :: "nat \<Rightarrow> nat" where
  "block_pad n = (16 - n mod 16) mod 16"

text \<open>Encryption fills the last block with zeros; decryption undoes it on whole blocks, and what it makes of
  the first blocks does not depend on the later ones.\<close>

definition aes_ok :: "aes_lib \<Rightarrow> bool" where
  "aes_ok L \<longleftrightarrow>
     (\<forall>k v d. length (aes_cbc_encrypt L k v d) = length d + block_pad (length d)) \<and>
     (\<forall>k v d. aes_cbc_decrypt L k v (aes_cbc_encrypt L k v d) = d @ zeros (block_pad (length d))) \<and>
     (\<forall>k v c. length (aes_cbc_decrypt L k v c) = length c) \<and>
     (\<forall>k v a b. 16 dvd length a \<longrightarrow> take (length a) (aes_cbc_decrypt L k v (a @ b)) = aes_cbc_decrypt L k v a) \<and>
     (\<forall>k v n. length (aes_ctr_stream L k v n) = n) \<and>
     (\<forall>k v m n. m \<le> n \<longrightarrow> take m (aes_ctr_stream L k v n) = aes_ctr_stream L k v m)"

lemma aes_okD:
  assumes "aes_ok L"
  shows "length (aes_cbc_encrypt L k v d) = length d + block_pad (length d)"
    and "aes_cbc_decrypt L k v (aes_cbc_encrypt L k v d) = d @ zeros (block_pad (length d))"
    and "length (aes_cbc_decrypt L k v c) = length c"
    and "16 dvd length a \<Longrightarrow> take (length a) (aes_cbc_decrypt L k v (a @ b)) = aes_cbc_decrypt L k v a"
    and "length (aes_ctr_stream L k v n) = n"
    and "m \<le> n \<Longrightarrow> take m (aes_ctr_stream L k v n) = aes_ctr_stream L k v m"
  using assms by (simp_all add: aes_ok_def)

section \<open>\<open>Aes\<close>\<close>

definition aes_key_size :: "nat \<Rightarrow> bool" where
  "aes_key_size n \<longleftrightarrow> n = 16 \<or> n = 24 \<or> n = 32"

text \<open>A call writes its result over the front of the buffer.\<close>

definition overwrite :: "string \<Rightarrow> string \<Rightarrow> string" where
  "overwrite out buf = out @ drop (length out) buf"

definition Aes_Decrypto :: "aes_lib \<Rightarrow> string \<Rightarrow> string \<Rightarrow> string" where
  "Aes_Decrypto L input key =
     (if \<not> aes_key_size (length key) then []
      else
        let iv = zeros AES_BLOCK_SIZE;
            enc_out = overwrite (aes_cbc_decrypt L key iv input) (zeros (length input))
        in c_str enc_out)"

definition Aes_Crypto :: "aes_lib \<Rightarrow> string \<Rightarrow> string \<Rightarrow> string" where
  "Aes_Crypto L input key =
     (if \<not> aes_key_size (length key) then ''key error''
      else
        let len = (if (length input + 1) mod AES_BLOCK_SIZE = 0 then length input + 1
                   else ((length input + 1) div AES_BLOCK_SIZE + 1) * AES_BLOCK_SIZE);
            iv = zeros AES_BLOCK_SIZE
        in overwrite (aes_cbc_encrypt L key iv input) (zeros len))"

definition CryptoHex :: "aes_lib \<Rightarrow> string \<Rightarrow> string \<Rightarrow> string" where
  "CryptoHex L input key = BinToHexString (Aes_Crypto L input key)"

definition HexDecrypto :: "aes_lib \<Rightarrow> string \<Rightarrow> string \<Rightarrow> string" where
  "HexDecrypto L input key = Aes_Decrypto L (HexStringToBin input False) key"

definition GetDataSecuretKey :: string where
  "GetDataSecuretKey = c_str (''HCPwz!H1Y3jaJ*|qw8K<eo7>Qih)rPq1'' @ [CHR 0x00])"

section \<open>\<open>AesCtr\<close>\<close>

record AesCtr =
  key_valid :: bool
  ctr_ckey :: string
  ctr_iv :: string

definition BYTES_SIZE :: nat where "BYTES_SIZE = 1024"

definition AesCtr_new :: "string \<Rightarrow> string \<Rightarrow> AesCtr" where
  "AesCtr_new iv ckey = \<lparr>key_valid = aes_key_size (length ckey), ctr_ckey = ckey, ctr_iv = take 16 iv\<rparr>"

text \<open>\<open>InitCtr\<close> and one call of the library: every call starts with a fresh counter.\<close>

definition ctr_once :: "aes_lib \<Rightarrow> AesCtr \<Rightarrow> string \<Rightarrow> string" where
  "ctr_once L c indata = map2 byte_xor indata (aes_ctr_stream L (ctr_ckey c) (ctr_iv c) (length indata))"

primrec ctr_loop :: "aes_lib \<Rightarrow> AesCtr \<Rightarrow> nat \<Rightarrow> string \<Rightarrow> string" where
  "ctr_loop L c 0 indata = []"
| "ctr_loop L c (Suc n) indata = ctr_once L c (take BYTES_SIZE indata) @ ctr_loop L c n (drop BYTES_SIZE indata)"

definition AesCtr_Encrypt :: "aes_lib \<Rightarrow> AesCtr \<Rightarrow> string \<Rightarrow> string" where
  "AesCtr_Encrypt L c instr =
     (if length instr < BYTES_SIZE then ctr_once L c instr
      else
        let n = length instr div BYTES_SIZE; mod_len = length instr mod BYTES_SIZE in
        ctr_loop L c n instr @ (if mod_len \<noteq> 0 then ctr_once L c (drop (n * BYTES_SIZE) instr) else []))"

section \<open>Reading back\<close>

lemma c_str_zeros [simp]: "c_str (s @ zeros n) = c_str s"
  by (induction s) (simp_all add: c_str_def zeros_def takeWhile_eq_Nil_iff)

lemma c_str_append: "nul_free s \<Longrightarrow> c_str (s @ t) = s @ c_str t"
  by (induction s) (simp_all add: c_str_def nul_free_def)

lemma next_block:
  "(if (n + 1) mod 16 = 0 then n + 1 else ((n + 1) div 16 + 1) * 16) = n + block_pad n + (if 16 dvd n then 16 else 0)"
  for n :: nat
proof -
  obtain q r where n: "n = q * 16 + r" and r: "r < 16" by (metis div_mult_mod_eq mod_less_divisor zero_less_numeral)
  show ?thesis
  proof (cases "r = 15")
    case False
    with r have "(q * 16 + r + 1) mod 16 = r + 1" "(q * 16 + r + 1) div 16 = q" by simp_all
    then show ?thesis using r unfolding n by (simp add: block_pad_def dvd_eq_mod_eq_0)
  qed (simp add: n block_pad_def dvd_eq_mod_eq_0)
qed

lemma Crypto_bytes:
  assumes "aes_ok L" and "aes_key_size (length key)"
  shows "Aes_Crypto L input key = aes_cbc_encrypt L key (zeros 16) input @
    (if 16 dvd length input then zeros 16 else [])"
  using assms(2) unfolding Aes_Crypto_def AES_BLOCK_SIZE_def next_block
  by (simp add: overwrite_def aes_okD [OF assms(1)] zeros_def)

text \<open>C38: An encrypted text is read back, if its length is no multiple of 16. Otherwise \<open>Crypto\<close> leaves the last
  block of its result unencrypted, and decrypting that block puts further bytes behind the text.\<close>

theorem aes_text_is_read_back:
  assumes "aes_ok L" and "aes_key_size (length key)" and "nul_free text"
  shows "HexDecrypto L (CryptoHex L text key) key =
    (if 16 dvd length text
     then text @ c_str (drop (length text) (aes_cbc_decrypt L key (zeros 16) (aes_cbc_encrypt L key (zeros 16) text @ zeros 16)))
     else text)"
proof -
  let ?e = "aes_cbc_encrypt L key (zeros 16) text" and ?d = "aes_cbc_decrypt L key (zeros 16)"
  have run: "HexDecrypto L (CryptoHex L text key) key = c_str (?d (?e @ (if 16 dvd length text then zeros 16 else [])))"
    using assms(2)
    by (simp add: HexDecrypto_def CryptoHex_def HexStringToBin_BinToHexString Crypto_bytes [OF assms(1,2)]
        Aes_Decrypto_def overwrite_def AES_BLOCK_SIZE_def aes_okD(3) [OF assms(1)] zeros_def)
  show ?thesis
  proof (cases "16 dvd length text")
    case True
    then have pad: "block_pad (length text) = 0" by (auto simp: block_pad_def)
    have "take (length text) (?d (?e @ zeros 16)) = text"
      using aes_okD(4) [OF assms(1), of ?e key "zeros 16" "zeros 16"] True
      by (simp add: aes_okD(1,2) [OF assms(1)] pad zeros_def)
    then have "?d (?e @ zeros 16) = text @ drop (length text) (?d (?e @ zeros 16))"
      using append_take_drop_id [of "length text" "?d (?e @ zeros 16)"] by simp
    then have "c_str (?d (?e @ zeros 16)) = text @ c_str (drop (length text) (?d (?e @ zeros 16)))"
      using c_str_append [OF assms(3)] by (rule ssubst [where t = "?d (?e @ zeros 16)"])
    then show ?thesis using run True by simp
  qed (simp add: run aes_okD(2) [OF assms(1)] assms(3))
qed

text \<open>A cipher that encrypts nothing, but turns a block of zeros into one of ones when it decrypts.\<close>

definition toy_aes :: aes_lib where
  "toy_aes = \<lparr>aes_cbc_encrypt = (\<lambda>k v d. d @ zeros (block_pad (length d))), aes_cbc_decrypt = (\<lambda>k v c. c),
     aes_ctr_stream = (\<lambda>k v n. replicate n (CHR ''k''))\<rparr>"

lemma toy_aes_ok: "aes_ok toy_aes"
  by (simp add: aes_ok_def toy_aes_def zeros_def)

theorem aes_text_is_read_back_witness:
  "HexDecrypto toy_aes (CryptoHex toy_aes ''priSPK'' GetDataSecuretKey) GetDataSecuretKey = ''priSPK''"
proof -
  have "aes_key_size (length GetDataSecuretKey)" by code_simp
  moreover have "nul_free ''priSPK''" by (simp add: nul_free_def)
  moreover have "\<not> 16 dvd length ''priSPK''" by code_simp
  ultimately show ?thesis using aes_text_is_read_back [OF toy_aes_ok] by presburger
qed

section \<open>The counter mode\<close>

lemma nth_ctr_once: "aes_ok L \<Longrightarrow> i < length d \<Longrightarrow>
   ctr_once L c d ! i = byte_xor (d ! i) (aes_ctr_stream L (ctr_ckey c) (ctr_iv c) (length d) ! i)"
  by (simp add: ctr_once_def aes_okD)

lemma length_ctr_once [simp]: "aes_ok L \<Longrightarrow> length (ctr_once L c d) = length d"
  by (simp add: ctr_once_def aes_okD)

lemma stream_nth: "aes_ok L \<Longrightarrow> i < m \<Longrightarrow> m \<le> n \<Longrightarrow> aes_ctr_stream L k v m ! i = aes_ctr_stream L k v n ! i"
  by (metis aes_okD(6) nth_take)

lemma ctr_loop_bytes:
  assumes ok: "aes_ok L"
  shows "n * 1024 \<le> length d \<Longrightarrow> length (ctr_loop L c n d) = n * 1024 \<and>
    (\<forall>i < n * 1024. ctr_loop L c n d ! i = byte_xor (d ! i) (aes_ctr_stream L (ctr_ckey c) (ctr_iv c) 1024 ! (i mod 1024)))"
proof (induction n arbitrary: d)
  case (Suc n)
  let ?a = "ctr_once L c (take 1024 d)" and ?b = "ctr_loop L c n (drop 1024 d)"
  have first: "length ?a = 1024" using Suc.prems ok by simp
  have rest: "length ?b = n * 1024"
    "\<forall>i < n * 1024. ?b ! i = byte_xor (drop 1024 d ! i) (aes_ctr_stream L (ctr_ckey c) (ctr_iv c) 1024 ! (i mod 1024))"
    using Suc.IH [of "drop 1024 d"] Suc.prems by simp_all
  have loop: "ctr_loop L c (Suc n) d = ?a @ ?b" by (simp add: BYTES_SIZE_def)
  have "(?a @ ?b) ! i = byte_xor (d ! i) (aes_ctr_stream L (ctr_ckey c) (ctr_iv c) 1024 ! (i mod 1024))"
    if i: "i < Suc n * 1024" for i
  proof (cases "i < 1024")
    case True
    then show ?thesis using first Suc.prems ok by (simp add: nth_append nth_ctr_once)
  next
    case False
    then have "i - 1024 < n * 1024" "drop 1024 d ! (i - 1024) = d ! i" using i Suc.prems by simp_all
    moreover have "(i - 1024) mod 1024 = i mod 1024" using False by (simp add: le_mod_geq)
    moreover have "(?a @ ?b) ! i = ?b ! (i - 1024)" using False first by (simp add: nth_append)
    ultimately show ?thesis using rest(2) by simp
  qed
  then show ?case unfolding loop using first rest(1) by simp
qed simp

lemma byte_xor_twice: "byte_xor (byte_xor a b) b = a"
proof -
  have small: "take_bit 8 (byte x) = byte x" for x by (simp add: take_bit_nat_eq_self)
  have "take_bit 8 (byte a XOR byte b) = byte a XOR byte b" by (simp only: take_bit_xor small)
  then have "byte a XOR byte b < 256" using take_bit_nat_less_exp [of 8 "byte a XOR byte b"] by simp
  then show ?thesis by (simp add: byte_xor_def xor.assoc xor_self_eq)
qed

text \<open>Every byte is combined with the byte of the stream at its position modulo 1024: the same stream covers
  every block, so encrypting twice gives the text back, and the difference of two blocks of 1024 bytes shows
  through the encryption.\<close>

theorem ctr_stream_repeats:
  assumes "aes_ok L" and "i < length d"
  shows "length (AesCtr_Encrypt L c d) = length d \<and>
    AesCtr_Encrypt L c d ! i = byte_xor (d ! i) (aes_ctr_stream L (ctr_ckey c) (ctr_iv c) 1024 ! (i mod 1024)) \<and>
    AesCtr_Encrypt L c (AesCtr_Encrypt L c d) ! i = d ! i"
proof -
  let ?ks = "aes_ctr_stream L (ctr_ckey c) (ctr_iv c) 1024"
  have bytes: "length (AesCtr_Encrypt L c x) = length x \<and> (\<forall>j < length x. AesCtr_Encrypt L c x ! j = byte_xor (x ! j) (?ks ! (j mod 1024)))"
    for x
  proof (cases "length x < 1024")
    case True
    then show ?thesis
      using assms(1) by (auto simp: AesCtr_Encrypt_def BYTES_SIZE_def nth_ctr_once stream_nth [of L _ "length x" 1024])
  next
    case False
    let ?n = "length x div 1024" and ?m = "length x mod 1024"
    let ?a = "ctr_loop L c ?n x" and ?b = "if ?m \<noteq> 0 then ctr_once L c (drop (?n * 1024) x) else []"
    have run: "AesCtr_Encrypt L c x = ?a @ ?b" using False by (simp add: AesCtr_Encrypt_def BYTES_SIZE_def Let_def)
    have a: "length ?a = ?n * 1024" "\<forall>j < ?n * 1024. ?a ! j = byte_xor (x ! j) (?ks ! (j mod 1024))"
      using ctr_loop_bytes [OF assms(1), of ?n x c] by simp_all
    have len: "length x - ?n * 1024 = ?m" by (simp add: minus_div_mult_eq_mod)
    then have b: "length ?b = ?m" using assms(1) by simp
    have "(?a @ ?b) ! j = byte_xor (x ! j) (?ks ! (j mod 1024))" if j: "j < length x" for j
    proof (cases "j < ?n * 1024")
      case True
      then show ?thesis using a by (simp add: nth_append)
    next
      case False
      define i where "i = j - ?n * 1024"
      have i: "i < ?m" "j = ?n * 1024 + i" using False j len by (simp_all add: i_def)
      then have "?b ! i = byte_xor (drop (?n * 1024) x ! i) (aes_ctr_stream L (ctr_ckey c) (ctr_iv c) ?m ! i)"
        using assms(1) by (simp add: nth_ctr_once len)
      moreover have "aes_ctr_stream L (ctr_ckey c) (ctr_iv c) ?m ! i = ?ks ! i"
        by (rule stream_nth [OF assms(1) i(1)]) simp
      moreover have "j mod 1024 = i" using i by simp
      ultimately show ?thesis using False a(1) i(2) j by (simp add: nth_append)
    qed
    then show ?thesis using a(1) b by (simp add: run)
  qed
  show ?thesis using bytes assms(2) by (simp add: byte_xor_twice)
qed

theorem ctr_stream_repeats_witness:
  "AesCtr_Encrypt toy_aes (AesCtr_new (zeros 16) GetDataSecuretKey)
     (AesCtr_Encrypt toy_aes (AesCtr_new (zeros 16) GetDataSecuretKey) ''text'') ! 1 = CHR ''e''"
  using ctr_stream_repeats [OF toy_aes_ok, of 1 "''text''" "AesCtr_new (zeros 16) GetDataSecuretKey"] by simp

end
