(* ===== verification/Base58.thy ===== *)
theory Base58
  imports Prelude
begin

text \<open>
  \<open>Base58::Encode\<close> and \<open>Base58::Decode\<close> of \<open>utils/crypto.cpp\<close>. Both keep a vector of digits, most
  significant first, and for every input character multiply it by the base of the input and add
  the character, from the back to the front with a carry: \<open>push_digit\<close> is this inner loop, on the
  digits from the back. The size of the vector in \<open>Decode\<close> is
  \<open>std::size_t(left_size * log2(58.0) / 8 + 2)\<close>, computed in floating point; it is the parameter
  \<open>new_size\<close>, and what the code relies on is \<open>roomy\<close>: this many bytes hold any number of
  \<open>left_size\<close> digits.

  Proved: \<open>Encode\<close> writes the number the bytes stand for, and \<open>Decode\<close> is its inverse.
\<close>

section \<open>The code\<close>

definition kBase58Dictionary :: string where
  "kBase58Dictionary = ''123456789AbCDEFGHJKLMNPQRSTuVWXYZaBcdefghijkmnopqrstUvwxyz''"

definition kBase58digits :: "int list" where
  "kBase58digits = [
      -1, -1, -1, -1, -1, -1, -1, -1, -1, -1, -1, -1, -1, -1, -1, -1,
      -1, -1, -1, -1, -1, -1, -1, -1, -1, -1, -1, -1, -1, -1, -1, -1,
      -1, -1, -1, -1, -1, -1, -1, -1, -1, -1, -1, -1, -1, -1, -1, -1,
      -1, 0, 1, 2, 3, 4, 5, 6, 7, 8, -1, -1, -1, -1, -1, -1,
      -1, 9, 34, 11, 12, 13, 14, 15, 16, -1, 17, 18, 19, 20, 21, -1,
      22, 23, 24, 25, 26, 52, 28, 29, 30, 31, 32, -1, -1, -1, -1, -1,
      -1, 33, 10, 35, 36, 37, 38, 39, 40, 41, 42, 43, -1, 44, 45, 46,
      47, 48, 49, 50, 51, 27, 53, 54, 55, 56, 57, -1, -1, -1, -1, -1]"

primrec push_digit :: "nat \<Rightarrow> nat \<Rightarrow> nat \<Rightarrow> nat list \<Rightarrow> nat list" where
  "push_digit m b carry [] = []"
| "push_digit m b carry (d # ds) =
     (let carry = carry + m * d in carry mod b # push_digit m b (carry div b) ds)"

definition leading :: "('a \<Rightarrow> bool) \<Rightarrow> 'a list \<Rightarrow> nat" where
  "leading P xs = length (takeWhile P xs)"

definition Base58_Encode :: "string \<Rightarrow> string" where
  "Base58_Encode str_in =
     (let zeros = leading (\<lambda>c. byte c = 0) str_in;
          first_no_zero = zeros - 1;
          b58 = replicate (length str_in * 138 div 100 + 1) 0;
          b58 = foldl (\<lambda>b58 c. rev (push_digit 256 58 (byte c) (rev b58))) b58 (drop first_no_zero str_in)
      in replicate zeros (CHR ''1'') @ map (\<lambda>d. kBase58Dictionary ! d) (dropWhile (\<lambda>d. d = 0) b58))"

text \<open>The index is a \<open>char\<close>, negative from 128 on: outside the table. A value of \<open>-1\<close> becomes 255.\<close>

definition digit_at :: "char \<Rightarrow> nat option" where
  "digit_at c = (if byte c < 128 then Some (nat (kBase58digits ! byte c mod 256)) else None)"

definition decode_char :: "nat option \<Rightarrow> nat list \<Rightarrow> int \<Rightarrow> nat list option" where
  "decode_char carry tmp_str j =
     (case carry of None \<Rightarrow> None
      | Some carry \<Rightarrow>
          let k = nat (j + 1) in Some (rev (push_digit 58 256 carry (rev (take k tmp_str))) @ drop k tmp_str))"

fun decode_chars :: "string \<Rightarrow> nat list \<Rightarrow> int \<Rightarrow> nat list option" where
  "decode_chars [] tmp_str j = Some tmp_str"
| "decode_chars (c # s) tmp_str j =
     (case decode_char (digit_at c) tmp_str j of None \<Rightarrow> None | Some tmp_str \<Rightarrow> decode_chars s tmp_str j)"

definition Base58_Decode :: "(nat \<Rightarrow> nat) \<Rightarrow> string \<Rightarrow> (int \<times> string) option" where
  "Base58_Decode new_size strIn =
     (let nZeros = leading (\<lambda>c. c = kBase58Dictionary ! 0) strIn;
          left_size = length strIn - nZeros;
          size = new_size left_size
      in case decode_chars (drop nZeros strIn) (replicate size 0) (i32 (int size - 1)) of
           None \<Rightarrow> None
         | Some tmp_str \<Rightarrow>
             let k = leading (\<lambda>d. d = 0) tmp_str;
                 strout = replicate nZeros (of_byte 0) @ map of_byte (drop k tmp_str)
             in Some (i32 (int (nZeros + length tmp_str - k)), strout))"

section \<open>Numbers in a base\<close>

text \<open>The value of digits, least significant first, and the digits without the zeros at the end.\<close>

primrec lsf :: "nat \<Rightarrow> nat list \<Rightarrow> nat" where
  "lsf b [] = 0"
| "lsf b (d # ds) = d + b * lsf b ds"

primrec strip :: "nat list \<Rightarrow> nat list" where
  "strip [] = []"
| "strip (d # ds) = (if strip ds = [] \<and> d = 0 then [] else d # strip ds)"

lemma length_push_digit [simp]: "length (push_digit m b c ds) = length ds"
  by (induction ds arbitrary: c) (simp_all add: Let_def)

lemma push_digit_range: "0 < b \<Longrightarrow> \<forall>d \<in> set (push_digit m b c ds). d < b"
  by (induction ds arbitrary: c) (simp_all add: Let_def)

lemma lsf_push_digit: "lsf b (push_digit m b c ds) = (c + m * lsf b ds) mod b ^ length ds"
proof (induction ds arbitrary: c)
  case (Cons d ds)
  have "(c + m * (d + b * lsf b ds)) mod (b * b ^ length ds) =
      b * ((c + m * d + b * (m * lsf b ds)) div b mod b ^ length ds) + (c + m * d + b * (m * lsf b ds)) mod b"
    by (subst mod_mult2_eq [symmetric]) (simp add: algebra_simps)
  also have "\<dots> = b * (((c + m * d) div b + m * lsf b ds) mod b ^ length ds) + (c + m * d) mod b"
    by (cases "b = 0") (simp_all add: add.commute)
  finally show ?case by (simp add: Cons Let_def)
qed simp

lemma lsf_less: "\<forall>d \<in> set ds. d < b \<Longrightarrow> lsf b ds < b ^ length ds"
proof (induction ds)
  case (Cons d ds)
  then have "d < b" "Suc (lsf b ds) \<le> b ^ length ds" by (simp_all add: Suc_le_eq)
  then have "d + b * lsf b ds < b * Suc (lsf b ds)" "b * Suc (lsf b ds) \<le> b * b ^ length ds"
    by (simp, simp only: mult_le_mono2)
  then show ?case by simp
qed simp

lemma lsf_strip_Nil: "\<forall>d \<in> set ds. d < b \<Longrightarrow> lsf b ds = 0 \<longleftrightarrow> strip ds = []"
  by (induction ds) auto

lemma strip_unique:
  "\<forall>d \<in> set xs \<union> set ys. d < b \<Longrightarrow> lsf b xs = lsf b ys \<Longrightarrow> strip xs = strip ys"
proof (induction xs arbitrary: ys)
  case Nil
  then show ?case using lsf_strip_Nil [of ys b] by simp
next
  case (Cons x xs)
  show ?case
  proof (cases ys)
    case Nil
    then show ?thesis using Cons.prems lsf_strip_Nil [of "x # xs" b] by simp
  next
    case (Cons y ys')
    from Cons.prems Cons have "x < b" "y < b" "x + b * lsf b xs = y + b * lsf b ys'" by simp_all
    moreover have "(x + b * u) mod b = x" "(x + b * u) div b = u" if "x < b" for x u
      using that by simp_all
    ultimately have "x = y" "lsf b xs = lsf b ys'" by metis+
    then show ?thesis using Cons Cons.IH [of ys'] Cons.prems(1) by simp
  qed
qed

lemma strip_append_zero: "strip (ds @ [0]) = strip ds"
  by (induction ds) auto

lemma strip_append_pos: "d \<noteq> 0 \<Longrightarrow> strip (ds @ [d]) = ds @ [d]"
  by (induction ds) auto

lemma dropWhile_zero: "dropWhile (\<lambda>d. d = 0) (rev ds) = rev (strip ds)"
  by (induction ds rule: rev_induct) (auto simp: strip_append_zero strip_append_pos)

lemma lsf_append: "lsf b (xs @ ys) = lsf b xs + b ^ length xs * lsf b ys"
  by (induction xs) (simp_all add: algebra_simps)

lemma lsf_zeros: "\<forall>d \<in> set ds. d = 0 \<Longrightarrow> lsf b ds = 0"
  by (induction ds) simp_all

text \<open>Reading digits from the front.\<close>

lemma foldl_lsf: "foldl (\<lambda>v c. m * v + f c) v cs = lsf m (rev (map f cs)) + m ^ length cs * v"
  by (induction cs arbitrary: v) (simp_all add: lsf_append algebra_simps)

lemma foldl_mod: "foldl (\<lambda>v c. m * v + f c) (v mod N) cs mod N = foldl (\<lambda>v c. m * v + f c) v cs mod (N :: nat)"
proof (induction cs arbitrary: v)
  case (Cons c cs)
  have "(m * (v mod N) + f c) mod N = (m * v + f c) mod N" by (metis mod_add_left_eq mod_mult_right_eq)
  then show ?case using Cons [of "m * (v mod N) + f c"] Cons [of "m * v + f c"] by simp
qed simp

definition push_chars :: "nat \<Rightarrow> nat \<Rightarrow> ('c \<Rightarrow> nat) \<Rightarrow> nat list \<Rightarrow> 'c list \<Rightarrow> nat list" where
  "push_chars m b f = foldl (\<lambda>ds c. rev (push_digit m b (f c) (rev ds)))"

lemma push_chars_value:
  "0 < b \<Longrightarrow> \<forall>d \<in> set ds. d < b \<Longrightarrow>
   length (push_chars m b f ds cs) = length ds \<and> (\<forall>d \<in> set (push_chars m b f ds cs). d < b) \<and>
   lsf b (rev (push_chars m b f ds cs)) = foldl (\<lambda>v c. m * v + f c) (lsf b (rev ds)) cs mod b ^ length ds"
proof (induction cs arbitrary: ds)
  case Nil
  then show ?case using lsf_less [of "rev ds" b] by (simp add: push_chars_def)
next
  case (Cons c cs)
  let ?ds = "rev (push_digit m b (f c) (rev ds))"
  have "\<forall>d \<in> set ?ds. d < b" using push_digit_range [OF Cons.prems(1)] by simp
  with Cons.IH [OF Cons.prems(1), of ?ds] show ?case
    using foldl_mod [of m f "f c + m * lsf b (rev ds)" "b ^ length ds" cs]
    by (simp add: push_chars_def lsf_push_digit add.commute)
qed

text \<open>The number a string of bytes stands for.\<close>

definition number :: "string \<Rightarrow> nat" where
  "number s = lsf 256 (rev (map byte s))"

lemma number_less: "number s < 256 ^ length s"
  using lsf_less [of "rev (map byte s)" 256] by (simp add: number_def)

lemma number_drop: "\<forall>c \<in> set (take k s). byte c = 0 \<Longrightarrow> number (drop k s) = number s"
proof -
  assume z: "\<forall>c \<in> set (take k s). byte c = 0"
  have "rev (map byte s) = rev (map byte (drop k s)) @ rev (map byte (take k s))"
    by (simp flip: rev_append map_append)
  moreover have "lsf 256 (rev (map byte (take k s))) = 0" using z by (intro lsf_zeros) auto
  ultimately show ?thesis by (simp add: number_def lsf_append)
qed

lemma number_zeros: "number (replicate n (of_byte 0) @ s) = number s"
  using number_drop [of n "replicate n (of_byte 0) @ s"] by simp

text \<open>Enough digits: \<open>256 ^ 100 < 58 ^ 138\<close>.\<close>

lemma encode_room: "256 ^ n < (58 :: nat) ^ (n * 138 div 100 + 1)"
proof -
  let ?k = "n * 138 div 100 + 1"
  have "n * 138 < 100 * ?k" by simp
  have "(256 :: nat) ^ 100 \<le> 58 ^ 138" by simp
  then have "((256 :: nat) ^ 100) ^ n \<le> (58 ^ 138) ^ n" by (rule power_mono) simp
  also have "\<dots> = 58 ^ (n * 138)" by (simp only: power_mult [symmetric] mult.commute)
  also have "\<dots> < 58 ^ (100 * ?k)" using \<open>n * 138 < 100 * ?k\<close> by (rule power_strict_increasing) simp
  finally have "(256 ^ n) ^ 100 < ((58 :: nat) ^ ?k) ^ 100"
    by (simp only: power_mult [symmetric] mult.commute)
  then show ?thesis by (rule power_less_imp_less_base) simp
qed

section \<open>Both ways\<close>

definition roomy :: "(nat \<Rightarrow> nat) \<Rightarrow> nat \<Rightarrow> bool" where
  "roomy new_size n \<longleftrightarrow> 58 ^ n \<le> (256 :: nat) ^ new_size n \<and> new_size n \<le> 2 ^ 31"

lemma leading_drop: "drop (leading P xs) xs = dropWhile P xs"
  by (simp add: leading_def dropWhile_eq_drop)

lemma leading_replicate: "(xs \<noteq> [] \<Longrightarrow> \<not> P (hd xs)) \<Longrightarrow> P z \<Longrightarrow> leading P (replicate n z @ xs) = n"
proof (induction n)
  case 0
  then show ?case by (cases xs) (simp_all add: leading_def)
qed (simp add: leading_def)

lemma lsf_strip: "lsf b (strip ds) = lsf b ds"
  by (induction ds) auto

lemma strip_range: "\<forall>d \<in> set ds. d < b \<Longrightarrow> \<forall>d \<in> set (strip ds). d < b"
  by (induction ds) auto

lemma Dictionary_digit:
  assumes "d < 58"
  shows "digit_at (kBase58Dictionary ! d) = Some d" and "kBase58Dictionary ! d = kBase58Dictionary ! 0 \<longleftrightarrow> d = 0"
proof -
  have "list_all (\<lambda>d. digit_at (kBase58Dictionary ! d) = Some d) [0..<58]" by code_simp
  then have *: "\<forall>d < 58. digit_at (kBase58Dictionary ! d) = Some d" by (simp only: list_all_iff set_upt) simp
  with assms show "digit_at (kBase58Dictionary ! d) = Some d" by blast
  show "kBase58Dictionary ! d = kBase58Dictionary ! 0 \<longleftrightarrow> d = 0" using * assms by (metis option.inject zero_less_numeral)
qed

lemma encode_digits:
  obtains ds where "Base58_Encode s = replicate (leading (\<lambda>c. byte c = 0) s) (CHR ''1'') @ map (\<lambda>d. kBase58Dictionary ! d) ds"
    and "lsf 58 (rev ds) = number s" and "\<forall>d \<in> set ds. d < 58" and "ds \<noteq> [] \<longrightarrow> hd ds \<noteq> 0"
proof -
  define z k where "z = leading (\<lambda>c. byte c = 0) s" and "k = length s * 138 div 100 + 1"
  define b58 where "b58 = push_chars 256 58 byte (replicate k 0) (drop (z - 1) s)"
  have "\<forall>c \<in> set (take (z - 1) s). byte c = 0"
  proof -
    have "take (z - 1) s = take (z - 1) (takeWhile (\<lambda>c. byte c = 0) s)"
      by (metis leading_def min.absorb1 diff_le_self take_take takeWhile_eq_take z_def)
    then show ?thesis by (metis in_set_takeD set_takeWhileD)
  qed
  from number_drop [OF this] have "foldl (\<lambda>v c. 256 * v + byte c) 0 (drop (z - 1) s) = number s"
    by (simp add: foldl_lsf number_def)
  moreover have "number s mod 58 ^ k = number s"
    using number_less [of s] encode_room [of "length s"] by (simp add: k_def)
  ultimately have b58: "lsf 58 (rev b58) = number s" "\<forall>d \<in> set b58. d < 58"
    using push_chars_value [of 58 "replicate k 0" 256 byte "drop (z - 1) s"] by (simp_all add: b58_def lsf_zeros)
  define ds where "ds = dropWhile (\<lambda>d. d = 0) b58"
  have ds: "ds = rev (strip (rev b58))" using dropWhile_zero [of "rev b58"] by (simp add: ds_def)
  show thesis
  proof (rule that)
    show "Base58_Encode s = replicate (leading (\<lambda>c. byte c = 0) s) (CHR ''1'') @ map (\<lambda>d. kBase58Dictionary ! d) ds"
      by (simp add: Base58_Encode_def Let_def ds_def b58_def push_chars_def z_def k_def)
    show "lsf 58 (rev ds) = number s" using b58(1) by (simp add: ds lsf_strip)
    show "\<forall>d \<in> set ds. d < 58" using b58(2) strip_range [of "rev b58" 58] by (simp add: ds)
    show "ds \<noteq> [] \<longrightarrow> hd ds \<noteq> 0" using hd_dropWhile [of "\<lambda>d. d = 0" b58] by (simp add: ds_def)
  qed
qed

lemma decode_chars_push:
  "\<forall>c \<in> set s. digit_at c = Some (f c) \<Longrightarrow> int (length tmp) \<le> 2 ^ 31 \<Longrightarrow>
   decode_chars s tmp (i32 (int (length tmp) - 1)) = Some (push_chars 58 256 f tmp s)"
proof (induction s arbitrary: tmp)
  case (Cons c s)
  let ?t = "rev (push_digit 58 256 (f c) (rev tmp))"
  have "i32 (int (length tmp) - 1) = int (length tmp) - 1" using Cons.prems(2) by (simp add: fits32_def)
  then have "decode_char (digit_at c) tmp (i32 (int (length tmp) - 1)) = Some ?t"
    using Cons.prems(1) by (simp add: decode_char_def Let_def)
  then show ?case using Cons.IH [of ?t] Cons.prems by (simp add: push_chars_def)
qed (simp add: push_chars_def)

lemma leading_zero_bytes:
  "leading (\<lambda>c. byte c = 0) s \<le> length s"
  "take (leading (\<lambda>c. byte c = 0) s) s = replicate (leading (\<lambda>c. byte c = 0) s) (of_byte 0)"
proof -
  let ?z = "leading (\<lambda>c. byte c = 0) s"
  show "?z \<le> length s" by (simp add: leading_def length_takeWhile_le)
  have "take ?z s = takeWhile (\<lambda>c. byte c = 0) s" by (simp add: leading_def flip: takeWhile_eq_take)
  moreover have "\<forall>c \<in> set (takeWhile (\<lambda>c. byte c = 0) s). c = of_byte 0"
    by (metis of_byte_byte set_takeWhileD)
  ultimately show "take ?z s = replicate ?z (of_byte 0)" by (metis leading_def replicate_eqI)
qed

lemma decode_encode:
  assumes room: "roomy new_size (length (Base58_Encode s) - leading (\<lambda>c. byte c = 0) s)"
  shows "Base58_Decode new_size (Base58_Encode s) = Some (i32 (int (length s)), s)"
proof -
  obtain ds where enc: "Base58_Encode s = replicate (leading (\<lambda>c. byte c = 0) s) (CHR ''1'') @ map (\<lambda>d. kBase58Dictionary ! d) ds"
    and ds: "lsf 58 (rev ds) = number s" "\<forall>d \<in> set ds. d < 58" "ds \<noteq> [] \<longrightarrow> hd ds \<noteq> 0"
    by (rule encode_digits [of s])
  define z where "z = leading (\<lambda>c. byte c = 0) s"
  define size where "size = new_size (length ds)"
  have size: "58 ^ length ds \<le> (256 :: nat) ^ size" "int size \<le> 2 ^ 31"
    using room by (simp_all add: roomy_def enc size_def)
  have one: "kBase58Dictionary ! 0 = CHR ''1''" by (simp add: kBase58Dictionary_def)
  have lead: "leading (\<lambda>c. c = kBase58Dictionary ! 0) (Base58_Encode s) = z"
    unfolding enc z_def [symmetric] one [symmetric]
  proof (rule leading_replicate)
    assume "map (\<lambda>d. kBase58Dictionary ! d) ds \<noteq> []"
    then show "hd (map (\<lambda>d. kBase58Dictionary ! d) ds) \<noteq> kBase58Dictionary ! 0"
      using ds(2,3) Dictionary_digit(2) [of "hd ds"] by (simp add: hd_map)
  qed simp
  define f where "f = (\<lambda>c. the (digit_at c))"
  define t where "t = push_chars 58 256 f (replicate size 0) (map (\<lambda>d. kBase58Dictionary ! d) ds)"
  have dig: "\<forall>c \<in> set (map (\<lambda>d. kBase58Dictionary ! d) ds). digit_at c = Some (f c)"
    using ds(2) Dictionary_digit(1) by (auto simp: f_def)
  have "map f (map (\<lambda>d. kBase58Dictionary ! d) ds) = ds"
    using ds(2) by (intro nth_equalityI) (simp_all add: f_def Dictionary_digit(1))
  then have "foldl (\<lambda>v c. 58 * v + f c) 0 (map (\<lambda>d. kBase58Dictionary ! d) ds) = number s"
    using ds(1) by (simp only: foldl_lsf mult_0_right add_0_right)
  moreover have "number s < 256 ^ size" using lsf_less [of "rev ds" 58] ds(1,2) size(1) by simp
  ultimately have t: "lsf 256 (rev t) = number s" "length t = size" "\<forall>d \<in> set t. d < 256"
    using push_chars_value [of 256 "replicate size 0" 58 f "map (\<lambda>d. kBase58Dictionary ! d) ds"]
    by (simp_all add: t_def lsf_zeros)
  have "strip (rev t) = strip (rev (map byte s))"
    using t(1,3) by (intro strip_unique [where b = 256]) (auto simp: number_def)
  then have "dropWhile (\<lambda>d. d = 0) t = dropWhile (\<lambda>d. d = 0) (map byte s)"
    using dropWhile_zero [of "rev t"] dropWhile_zero [of "rev (map byte s)"] by simp
  also have "\<dots> = map byte (drop z s)"
    by (simp add: z_def leading_drop dropWhile_map comp_def)
  finally have tail: "drop (leading (\<lambda>d. d = 0) t) t = map byte (drop z s)" by (simp add: leading_drop)
  note z = leading_zero_bytes [of s, folded z_def]
  have count: "z + size - leading (\<lambda>d. d = 0) t = length s"
  proof -
    have "length t - leading (\<lambda>d. d = 0) t = length s - z" using arg_cong [OF tail, of length] by simp
    moreover have "leading (\<lambda>d. d = 0) t \<le> size" by (metis leading_def length_takeWhile_le t(2))
    ultimately show ?thesis using t(2) z(1) by simp
  qed
  have bytes: "map of_byte (map byte (drop z s)) = drop z s" by (simp add: comp_def)
  have rest: "drop z (Base58_Encode s) = map (\<lambda>d. kBase58Dictionary ! d) ds" "length (Base58_Encode s) - z = length ds"
    by (simp_all add: enc z_def)
  have run: "decode_chars (map (\<lambda>d. kBase58Dictionary ! d) ds) (replicate size 0) (i32 (int size - 1)) = Some t"
    using decode_chars_push [OF dig, of "replicate size 0"] size(2) by (simp add: t_def)
  have "replicate z (of_byte 0) @ drop z s = s" using z(2) append_take_drop_id [of z s] by simp
  then show ?thesis
    unfolding Base58_Decode_def Let_def lead rest size_def [symmetric] run option.case tail bytes t(2) count by simp
qed

section \<open>Properties\<close>



text \<open>A character outside the alphabet is not refused: an ASCII one counts as the digit 255, any
  other one indexes before the table.\<close>

theorem base58_accepts_foreign_characters:
  assumes "c \<notin> set kBase58Dictionary" and "roomy new_size 1" and "2 \<le> new_size 1"
  shows "Base58_Decode new_size [c] = (if byte c < 128 then Some (1, [of_byte 255]) else None)"
proof -
  have "list_all (\<lambda>n. of_byte n \<notin> set kBase58Dictionary \<longrightarrow> kBase58digits ! n = -1) [0..<128]" by code_simp
  then have tab: "\<forall>n < 128. of_byte n \<notin> set kBase58Dictionary \<longrightarrow> kBase58digits ! n = -1"
    by (simp only: list_all_iff set_upt) simp
  obtain k where k: "new_size 1 = Suc (Suc k)" using assms(3) by (metis Suc_le_D numeral_2_eq_2 Suc_le_mono)
  have "kBase58Dictionary ! 0 \<in> set kBase58Dictionary" by (simp add: kBase58Dictionary_def)
  then have lead: "leading (\<lambda>c. c = kBase58Dictionary ! 0) [c] = 0" using assms(1) by (auto simp: leading_def)
  have size: "int (Suc (Suc k)) \<le> 2 ^ 31" using assms(2) unfolding roomy_def k by simp
  show ?thesis
  proof (cases "byte c < 128")
    case True
    then have "kBase58digits ! byte c = -1" using tab assms(1) of_byte_byte [of c] by metis
    with True have dig: "digit_at c = Some 255" by (simp add: digit_at_def)
    have zeros: "push_digit 58 256 0 (replicate n 0) = replicate n 0" for n by (induction n) simp_all
    have "push_chars 58 256 (\<lambda>_. 255) (replicate (Suc (Suc k)) 0) [c] = replicate (Suc k) 0 @ [255]"
    proof -
      have "push_digit 58 256 255 (replicate (Suc (Suc k)) 0) = 255 # replicate (Suc k) 0"
        unfolding replicate_Suc [of "Suc k"] using zeros [of "Suc k"] by simp
      then show ?thesis by (simp only: push_chars_def foldl.simps rev_replicate rev.simps)
    qed
    then have run: "decode_chars [c] (replicate (Suc (Suc k)) 0) (i32 (int (Suc (Suc k)) - 1)) = Some (replicate (Suc k) 0 @ [255])"
      using decode_chars_push [of "[c]" "\<lambda>_. 255" "replicate (Suc (Suc k)) 0"] dig size by simp
    have "leading (\<lambda>d. d = 0) (replicate (Suc k) 0 @ [255 :: nat]) = Suc k" by (rule leading_replicate) simp_all
    moreover have "i32 1 = 1" by (simp add: i32_def)
    moreover have "new_size (length [c] - 0) = Suc (Suc k)" using k by simp
    ultimately show ?thesis using True run unfolding Base58_Decode_def Let_def lead by simp
  next
    case False
    then show ?thesis by (simp add: Base58_Decode_def Let_def lead digit_at_def decode_char_def k)
  qed
qed

theorem base58_accepts_foreign_characters_witness:
  "Base58_Decode (\<lambda>n. n * 733 div 1000 + 2) ''0'' = Some (1, [of_byte 255])"
proof -
  have "CHR ''0'' \<notin> set kBase58Dictionary" "byte (CHR ''0'') < 128" by (simp_all add: kBase58Dictionary_def byte_def)
  with base58_accepts_foreign_characters [of "CHR ''0''" "\<lambda>n. n * 733 div 1000 + 2"] show ?thesis
    by (simp add: roomy_def)
qed

end
