(* ===== verification/Ecc_Sm2.thy ===== *)
theory Ecc_Sm2
  imports Sm3 Base58
begin

text \<open>
  \<open>utils/ecc_sm2.cpp\<close>: keys, signatures and the check of signatures over an elliptic curve.

  The curve arithmetic is OpenSSL's and is a parameter, the record \<open>ec\<close>: the order of the group,
  the curve's coefficients, multiplication of the generator (\<open>EC_POINT_mul\<close> without a second
  point), the combination \<open>sG + tP\<close> (\<open>EC_POINT_mul\<close> with one), the affine coordinates of a point
  (\<open>None\<close> at infinity, where OpenSSL reports an error), the point with given coordinates, and the
  inverse modulo the order (\<open>None\<close> where there is none). Both kinds of field are read through this
  interface. Arithmetic on \<open>BIGNUM\<close>s is exact; the functions fail only for lack of memory, which
  is left out. A call to \<open>BN_rand_range\<close> takes the next element of a list of draws, \<open>None\<close> for a
  failure; a list that ends before the loop does gives \<open>None\<close>: the code is still looping.
  \<open>mem\<close> is the uninitialised memory of the hash context.

  What the code relies on is \<open>ec_ok\<close>. Proved: a signature passes the check, a stored private key is
  read back, and a key the check of \<open>From\<close> lets through cannot sign.
\<close>

section \<open>OpenSSL\<close>

record 'p ec =
  ec_order :: nat
  ec_a :: nat
  ec_b :: nat
  ec_generator :: 'p
  ec_infinity :: 'p
  ec_mul :: "nat \<Rightarrow> 'p"
  ec_mul2 :: "nat \<Rightarrow> 'p \<Rightarrow> nat \<Rightarrow> 'p"
  ec_affine :: "'p \<Rightarrow> (nat \<times> nat) option"
  ec_set_affine :: "nat \<Rightarrow> nat \<Rightarrow> 'p"
  ec_inverse :: "nat \<Rightarrow> nat option"

text \<open>The laws of a cyclic group with coordinates of at most 32 bytes.\<close>

definition ec_ok :: "'p ec \<Rightarrow> bool" where
  "ec_ok E \<longleftrightarrow>
     1 < ec_order E \<and> ec_order E \<le> 256 ^ 32 \<and>
     (\<forall>k. ec_mul E (k mod ec_order E) = ec_mul E k) \<and>
     (\<forall>k. k mod ec_order E \<noteq> 0 \<longrightarrow> ec_affine E (ec_mul E k) \<noteq> None) \<and>
     (\<forall>s d t. ec_mul2 E s (ec_mul E d) t = ec_mul E (s + t * d)) \<and>
     (\<forall>P x y. ec_affine E P = Some (x, y) \<longrightarrow> x < 256 ^ 32 \<and> y < 256 ^ 32 \<and> ec_set_affine E x y = P) \<and>
     (\<forall>a i. ec_inverse E a = Some i \<longrightarrow> (a * i) mod ec_order E = 1) \<and>
     (\<forall>a. a mod ec_order E \<noteq> 0 \<longrightarrow> ec_inverse E a \<noteq> None)"

section \<open>Numbers and bytes\<close>

text \<open>\<open>BN_bn2bin\<close> and \<open>BN_bin2bn\<close>; the latter is \<open>number\<close>.\<close>

fun BN_bn2bin :: "nat \<Rightarrow> string" where
  "BN_bn2bin n = (if n = 0 then [] else BN_bn2bin (n div 256) @ [of_byte (n mod 256)])"

declare BN_bn2bin.simps [simp del]

definition Bn2FixedString :: "nat \<Rightarrow> nat \<Rightarrow> string" where
  "Bn2FixedString bn len =
     (let tmp = BN_bn2bin bn; l = length tmp in
      if l \<le> len then replicate (len - l) (of_byte 0) @ tmp else drop (l - len) tmp)"

section \<open>The curve of CFCA\<close>

record curve =
  cv_p :: nat
  cv_a :: nat
  cv_b :: nat
  cv_xG :: nat
  cv_yG :: nat
  cv_n :: nat

definition CFCA_curve :: curve where
  "CFCA_curve =
     \<lparr>cv_p = 0xFFFFFFFEFFFFFFFFFFFFFFFFFFFFFFFFFFFFFFFF00000000FFFFFFFFFFFFFFFF,
      cv_a = 0xFFFFFFFEFFFFFFFFFFFFFFFFFFFFFFFFFFFFFFFF00000000FFFFFFFFFFFFFFFC,
      cv_b = 0x28E9FA9E9D9F5E344D5A9E4BCF6509A7F39789F515AB8F92DDBCBD414D940E93,
      cv_xG = 0x32C4AE2C1F1981195F9904466A39C9948FE30BBFF2660BE1715A4589334C74C7,
      cv_yG = 0xBC3736A2F4F6779C59BDCEE36B692153D0A9877CC62A474002DF32E52139F0A0,
      cv_n = 0xFFFFFFFEFFFFFFFFFFFFFFFFFFFFFFFF7203DF6B21C6052B53BBF40939D54123\<rparr>"

text \<open>\<open>NewGroup\<close>. Primality, the making of the group (\<open>set_curve\<close> and \<open>set_generator\<close> for the two
  kinds of field, \<open>None\<close> where one of them fails), the test that \<open>nG\<close> is the point at infinity and
  \<open>EC_GROUP_check\<close> are OpenSSL's. The result is the group returned, \<open>None\<close> for \<open>NULL\<close>, with the
  description of the error, which the code only keeps in a local variable.\<close>

datatype GROUP_TYPE = GFP | F2M

record 'g group_maker =
  gm_prime :: "nat \<Rightarrow> bool"
  gm_new :: "GROUP_TYPE \<Rightarrow> 'g"
  gm_set_curve :: "GROUP_TYPE \<Rightarrow> curve \<Rightarrow> 'g option"
  gm_set_generator :: "'g \<Rightarrow> curve \<Rightarrow> 'g option"
  gm_order_ok :: "'g \<Rightarrow> nat \<Rightarrow> bool"
  gm_check :: "'g \<Rightarrow> bool"

definition make_group :: "'g group_maker \<Rightarrow> GROUP_TYPE \<Rightarrow> curve \<Rightarrow> 'g + 'g" where
  "make_group M type c =
     (case gm_set_curve M type c of
        None \<Rightarrow> Inl (gm_new M type)
      | Some g \<Rightarrow> (case gm_set_generator M g c of None \<Rightarrow> Inl g | Some g \<Rightarrow> Inr g))"

definition checked_group :: "'g group_maker \<Rightarrow> 'g \<Rightarrow> 'g option \<times> string" where
  "checked_group M g = (if gm_check M g then (Some g, []) else (None, []))"

definition NewGroup :: "'g group_maker \<Rightarrow> GROUP_TYPE \<Rightarrow> curve \<Rightarrow> 'g option \<times> string" where
  "NewGroup M type c =
     (case type of
        GFP \<Rightarrow>
          if cv_n c \<le> 0x400000000000000000000000000000000000000000000000 then (None, ''n is smaller than 2^191'')
          else if \<not> gm_prime M (cv_p c) then (None, ''p is not a prime number'')
          else if even (cv_p c) then (None, ''p is not a odd number'')
          else (case make_group M GFP c of
            Inl g \<Rightarrow> (Some g, ''internel error'')
          | Inr g \<Rightarrow>
              if (4 * cv_a c ^ 3 + 27 * cv_b c ^ 2) mod cv_p c = 0 then (Some g, ''(4*a^3 + 27*b^2) mod p = 0'')
              else if (cv_yG c * cv_yG c) mod cv_p c \<noteq> (cv_xG c * cv_xG c * cv_xG c + (cv_a c * cv_xG c + cv_b c)) mod cv_p c
                then (Some g, ''y2!=x3+ax+b mod p'')
              else if \<not> gm_prime M (cv_n c) then (Some g, ''n is not a prime number'')
              else if \<not> gm_order_ok M g (cv_n c) then (Some g, ''nG != O'')
              else checked_group M g)
      | F2M \<Rightarrow>
          (case make_group M F2M c of Inl g \<Rightarrow> (Some g, ''internel error'') | Inr g \<Rightarrow> checked_group M g))"

section \<open>Keys\<close>

record 'p EccSm2 =
  sm2_dA :: nat
  sm2_pkey :: 'p
  sm2_skey_bin :: string
  sm2_valid :: bool
  sm2_error :: string

definition EccSm2_new :: "'p ec \<Rightarrow> 'p EccSm2" where
  "EccSm2_new E = \<lparr>sm2_dA = 0, sm2_pkey = ec_infinity E, sm2_skey_bin = [], sm2_valid = False, sm2_error = []\<rparr>"

definition EccSm2_From :: "'p ec \<Rightarrow> string \<Rightarrow> 'p EccSm2 \<Rightarrow> bool \<times> 'p EccSm2" where
  "EccSm2_From E skey_bin key =
     (let key = key\<lparr>sm2_valid := False, sm2_skey_bin := skey_bin\<rparr>;
          key = key\<lparr>sm2_dA := number skey_bin\<rparr>
      in if sm2_dA key = ec_order E then (False, key\<lparr>sm2_error := ''dA must be less than order i.e. n ''\<rparr>)
         else let key = key\<lparr>sm2_pkey := ec_mul E (sm2_dA key)\<rparr> in
           case ec_affine E (sm2_pkey key) of
             None \<Rightarrow> (False, key\<lparr>sm2_error := ''unknown error''\<rparr>)
           | Some _ \<Rightarrow> (True, key\<lparr>sm2_valid := True\<rparr>))"

text \<open>\<open>continue\<close> in the \<open>do ... while (true)\<close> draws again; the key keeps the values set before.\<close>

primrec EccSm2_NewRandom :: "'p ec \<Rightarrow> nat option list \<Rightarrow> 'p EccSm2 \<Rightarrow> 'p EccSm2 option" where
  "EccSm2_NewRandom E [] key = None"
| "EccSm2_NewRandom E (draw # draws) key =
     (case draw of None \<Rightarrow> EccSm2_NewRandom E draws key
      | Some d \<Rightarrow>
     let key = key\<lparr>sm2_dA := d\<rparr> in
      if d = ec_order E then EccSm2_NewRandom E draws key
      else let key = key\<lparr>sm2_pkey := ec_mul E d\<rparr> in
        case ec_affine E (sm2_pkey key) of
          None \<Rightarrow> EccSm2_NewRandom E draws key
        | Some (x, y) \<Rightarrow>
            if length (BN_bn2bin (ec_order E)) \<noteq> length (BN_bn2bin x) \<or> length (BN_bn2bin (ec_order E)) \<noteq> length (BN_bn2bin y)
            then EccSm2_NewRandom E draws key
            else Some (key\<lparr>sm2_valid := True\<rparr>))"

definition getSkeyBin :: "'p EccSm2 \<Rightarrow> string" where
  "getSkeyBin key = Bn2FixedString (sm2_dA key) 32"

text \<open>Where the coordinates cannot be read the two numbers are still zero.\<close>

definition affine_or_zero :: "'p ec \<Rightarrow> 'p \<Rightarrow> nat \<times> nat" where
  "affine_or_zero E P = (case ec_affine E P of None \<Rightarrow> (0, 0) | Some xy \<Rightarrow> xy)"

definition GetPublicKey :: "'p ec \<Rightarrow> 'p EccSm2 \<Rightarrow> string" where
  "GetPublicKey E key =
     (if \<not> sm2_valid key then []
      else let (bn_x, bn_y) = affine_or_zero E (sm2_pkey key)
           in of_byte 4 # Bn2FixedString bn_x 32 @ Bn2FixedString bn_y 32)"

section \<open>Signatures\<close>

definition getZA :: "'p ec \<Rightarrow> sm3_context \<Rightarrow> string \<Rightarrow> 'p \<Rightarrow> string" where
  "getZA E mem id_bin P =
     (let (xA, yA) = affine_or_zero E P;
          (xG, yG) = affine_or_zero E (ec_generator E);
          entla = length id_bin * 8 mod 2 ^ 32;
          za = [of_byte (entla div 256 mod 256), of_byte (entla mod 256)] @ id_bin;
          za = za @ Bn2FixedString (ec_a E) 32 @ Bn2FixedString (ec_b E) 32;
          za = za @ Bn2FixedString xG 32 @ Bn2FixedString yG 32;
          za = za @ Bn2FixedString xA 32 @ Bn2FixedString yA 32
      in Sm3_Crypto mem za)"

text \<open>The three nested loops of \<open>Sign\<close>: each of them starts again with a new draw. At the label
  \<open>end\<close> the values \<open>r\<close> and \<open>s\<close> have by then are used, also after an error.\<close>

primrec sign_loop :: "'p ec \<Rightarrow> nat \<Rightarrow> nat \<Rightarrow> nat option list \<Rightarrow> nat \<times> nat \<Rightarrow> (nat \<times> nat) option" where
  "sign_loop E dA e [] rs = None"
| "sign_loop E dA e (draw # draws) rs =
     (case draw of None \<Rightarrow> Some rs
      | Some k \<Rightarrow>
      let n = ec_order E in
      if k = 0 \<or> k = n then sign_loop E dA e draws rs
      else case ec_affine E (ec_mul E k) of
        None \<Rightarrow> Some rs
      | Some (x, _) \<Rightarrow>
          (let x1 = x mod n in
           if x1 = 0 then sign_loop E dA e draws rs
           else let r = (x1 + e) mod n; bn = (r + k) mod n in
             if r = 0 \<or> bn = 0 then sign_loop E dA e draws (r, snd rs)
             else let s = (dA + 1) mod n in
               case ec_inverse E s of
                 None \<Rightarrow> Some (r, s)
               | Some i \<Rightarrow>
                   (let bn = r * dA mod n;
                        bn = nat ((int k - int bn) mod int n);
                        s = i * bn mod n
                    in if s \<noteq> 0 then Some (r, s) else sign_loop E dA e draws (r, s))))"

definition Sign :: "'p ec \<Rightarrow> sm3_context \<Rightarrow> nat option list \<Rightarrow> string \<Rightarrow> string \<Rightarrow> 'p EccSm2 \<Rightarrow> string option" where
  "Sign E mem draws id_bin msg key =
     (if \<not> sm2_valid key then Some []
      else let ZA = getZA E mem id_bin (sm2_pkey key);
               e = number (Sm3_Crypto mem (ZA @ msg))
           in case sign_loop E (sm2_dA key) e draws (0, 0) of
                None \<Rightarrow> None
              | Some (r, s) \<Rightarrow> Some (Bn2FixedString r 32 @ Bn2FixedString s 32))"

text \<open>\<open>substr\<close> with a start behind the end throws: \<open>None\<close>. Only an empty key does that.\<close>

definition sm2_verify :: "'p ec \<Rightarrow> sm3_context \<Rightarrow> string \<Rightarrow> string \<Rightarrow> string \<Rightarrow> string \<Rightarrow> int option" where
  "sm2_verify E mem pkey id_bin msg strsig =
     (if pkey = [] then None
      else let len = (length pkey - 1) div 2;
               px = take len (drop 1 pkey);
               py = take len (drop (1 + len) pkey);
               h = length strsig div 2;
               r = number (take h strsig);
               s = number (take h (drop h strsig));
               n = ec_order E;
               pub_key = ec_set_affine E (number px) (number py)
           in if r = 0 \<or> n \<le> r \<or> s = 0 \<or> n \<le> s then Some 0
              else let t = (r + s) mod n in
                if t = 0 then Some 0
                else let ZA = getZA E mem id_bin pub_key;
                         e = number (Sm3_Crypto mem (ZA @ msg))
                     in case ec_affine E (ec_mul2 E s pub_key t) of
                          None \<Rightarrow> Some (-1)
                        | Some (x1, _) \<Rightarrow>
                            let R = (x1 mod n + e) mod n in if R = r then Some 1 else Some 0)"

section \<open>Bytes of numbers\<close>

lemma number_snoc: "number (s @ [c]) = byte c + 256 * number s"
  by (simp add: number_def)

lemma number_bn2bin [simp]: "number (BN_bn2bin n) = n"
proof (induction n rule: BN_bn2bin.induct)
  case (1 n)
  then show ?case by (subst BN_bn2bin.simps) (simp add: number_snoc number_def)
qed

lemma length_bn2bin: "n < 256 ^ k \<Longrightarrow> length (BN_bn2bin n) \<le> k"
proof (induction k arbitrary: n)
  case 0
  then show ?case by (simp add: BN_bn2bin.simps)
next
  case (Suc k)
  then have "n div 256 < 256 ^ k" by (simp add: less_mult_imp_div_less mult.commute)
  from Suc.IH [OF this] show ?case by (subst BN_bn2bin.simps) simp
qed

lemma Bn2FixedString_number:
  assumes "n < 256 ^ len"
  shows "number (Bn2FixedString n len) = n" and "length (Bn2FixedString n len) = len"
  using length_bn2bin [OF assms] by (simp_all add: Bn2FixedString_def Let_def number_zeros)

section \<open>Signing\<close>

lemma ec_okD:
  assumes "ec_ok E"
  shows "1 < ec_order E" and "ec_order E \<le> 256 ^ 32" and "ec_mul E (k mod ec_order E) = ec_mul E k"
    and "k mod ec_order E \<noteq> 0 \<Longrightarrow> ec_affine E (ec_mul E k) \<noteq> None"
    and "ec_mul2 E s (ec_mul E d) t = ec_mul E (s + t * d)"
    and "ec_affine E P = Some (x, y) \<Longrightarrow> x < 256 ^ 32 \<and> y < 256 ^ 32 \<and> ec_set_affine E x y = P"
    and "ec_inverse E a = Some i \<Longrightarrow> (a * i) mod ec_order E = 1"
    and "a mod ec_order E \<noteq> 0 \<Longrightarrow> ec_inverse E a \<noteq> None"
  using assms by (simp_all add: ec_ok_def)

text \<open>The equation of the signature: \<open>s + (r + s) d = k\<close> modulo the order.\<close>

lemma sm2_equation:
  fixes n r k d i :: nat
  assumes n: "1 < n" and inv: "((d + 1) mod n * i) mod n = 1" and s: "s = i * nat ((int k - int (r * d mod n)) mod int n) mod n"
  shows "(s + (r + s) mod n * d) mod n = k mod n"
proof -
  define b where "b = int k - int (r * d mod n)"
  have "0 \<le> b mod int n" using n by simp
  then have sb: "int s = (int i * b) mod int n"
    unfolding s b_def [symmetric] by (simp add: zmod_int mod_mult_right_eq)
  have bk: "b mod int n = (int k - int r * int d) mod int n"
    unfolding b_def by (simp add: zmod_int mod_diff_right_eq)
  have one: "((int d + 1) * int i) mod int n = 1"
  proof -
    have "((int d + 1) * int i) mod int n = int (((d + 1) mod n * i) mod n)"
      by (simp add: zmod_int mod_mult_left_eq add.commute distrib_right)
    then show ?thesis using inv by simp
  qed
  have "(int s * (int d + 1)) mod int n = (((int d + 1) * int i) mod int n * b) mod int n"
    unfolding sb by (simp add: mod_mult_left_eq mod_mult_right_eq ac_simps)
  also have "\<dots> = (int k - int r * int d) mod int n" unfolding one by (simp add: bk)
  finally have eq: "(int s * (int d + 1)) mod int n = (int k - int r * int d) mod int n" .
  have "int ((s + (r + s) mod n * d) mod n) = (int s + (int r + int s) * int d) mod int n"
  proof -
    have "int ((s + (r + s) mod n * d) mod n) = (int s + (int r + int s) mod int n * int d) mod int n"
      by (simp add: zmod_int)
    also have "\<dots> = (int s + ((int r + int s) mod int n * int d) mod int n) mod int n" by (simp only: mod_add_right_eq)
    also have "\<dots> = (int s + ((int r + int s) * int d) mod int n) mod int n" by (simp only: mod_mult_left_eq)
    finally show ?thesis by (simp only: mod_add_right_eq)
  qed
  also have "\<dots> = ((int s * (int d + 1)) mod int n + int r * int d) mod int n"
  proof -
    have "int s + (int r + int s) * int d = int s * (int d + 1) + int r * int d" by (simp add: algebra_simps)
    then show ?thesis by (simp only: mod_add_left_eq)
  qed
  also have "\<dots> = int (k mod n)" unfolding eq by (simp add: mod_add_left_eq zmod_int)
  finally show ?thesis by (simp only: of_nat_eq_iff)
qed

text \<open>Draws as \<open>BN_rand_range\<close> delivers them when it does not fail.\<close>

definition in_range_draws :: "'p ec \<Rightarrow> nat option list \<Rightarrow> bool" where
  "in_range_draws E draws \<longleftrightarrow> (\<forall>d \<in> set draws. case d of None \<Rightarrow> False | Some k \<Rightarrow> k < ec_order E)"

lemma sign_loop_result:
  assumes ok: "ec_ok E" and key: "(dA + 1) mod ec_order E \<noteq> 0"
    and "in_range_draws E draws" and "sign_loop E dA e draws rs = Some (r, s)"
  shows "\<exists>k x y. 0 < r \<and> r < ec_order E \<and> 0 < s \<and> s < ec_order E \<and> k < ec_order E \<and> (r + k) mod ec_order E \<noteq> 0 \<and>
    ec_affine E (ec_mul E k) = Some (x, y) \<and> r = (x mod ec_order E + e) mod ec_order E \<and>
    (s + (r + s) mod ec_order E * dA) mod ec_order E = k"
  using assms(3,4)
proof (induction draws arbitrary: rs)
  case (Cons d draws)
  let ?n = "ec_order E"
  note E = ec_okD [OF ok]
  from Cons.prems(1) obtain k where d: "d = Some k" "k < ?n" "in_range_draws E draws"
    by (auto simp: in_range_draws_def split: option.splits)
  note again = Cons.IH [OF d(3)]
  show ?case
  proof (cases "k = 0")
    case True
    then show ?thesis using Cons.prems(2) again by (simp add: d(1))
  next
    case False
    then obtain x y where xy: "ec_affine E (ec_mul E k) = Some (x, y)" using E(4) [of k] d(2) by auto
    define r' where "r' = (x mod ?n + e) mod ?n"
    obtain i where i: "ec_inverse E ((dA + 1) mod ?n) = Some i" using E(8) [of "(dA + 1) mod ?n"] key by auto
    define s' where "s' = i * nat ((int k - int (r' * dA mod ?n)) mod int ?n) mod ?n"
    have run: "sign_loop E dA e (d # draws) rs =
        (if x mod ?n = 0 then sign_loop E dA e draws rs
         else if r' = 0 \<or> (r' + k) mod ?n = 0 then sign_loop E dA e draws (r', snd rs)
         else if s' \<noteq> 0 then Some (r', s') else sign_loop E dA e draws (r', s'))"
      using False d(2) xy i by (simp add: d(1) Let_def r'_def s'_def)
    show ?thesis
    proof (cases "x mod ?n = 0 \<or> r' = 0 \<or> (r' + k) mod ?n = 0 \<or> s' = 0")
      case True
      then show ?thesis using Cons.prems(2) again unfolding run by (auto split: if_splits)
    next
      case good: False
      then have rs: "r = r'" "s = s'" using Cons.prems(2) run by simp_all
      have "(s' + (r' + s') mod ?n * dA) mod ?n = k mod ?n"
        by (rule sm2_equation [OF E(1) E(7) [OF i] s'_def])
      moreover have "r' < ?n" "s' < ?n" using E(1) by (simp_all add: r'_def s'_def)
      ultimately show ?thesis using good d(2) xy rs unfolding r'_def by (intro exI [of _ k] exI [of _ x] exI [of _ y]) simp
    qed
  qed
qed simp

text \<open>A key as \<open>From\<close> and \<open>NewRandom\<close> leave it.\<close>

definition sm2_key_ok :: "'p ec \<Rightarrow> 'p EccSm2 \<Rightarrow> bool" where
  "sm2_key_ok E key \<longleftrightarrow> sm2_valid key \<and> sm2_pkey key = ec_mul E (sm2_dA key) \<and> ec_affine E (sm2_pkey key) \<noteq> None"

lemma public_key_read_back:
  assumes ok: "ec_ok E" and key: "sm2_key_ok E key"
  shows "length (GetPublicKey E key) = 65"
    and "ec_set_affine E (number (take 32 (drop 1 (GetPublicKey E key)))) (number (take 32 (drop 33 (GetPublicKey E key)))) = sm2_pkey key"
proof -
  obtain x y where xy: "ec_affine E (sm2_pkey key) = Some (x, y)" using key by (auto simp: sm2_key_ok_def)
  note b = ec_okD(6) [OF ok xy]
  note f = Bn2FixedString_number [of x 32] Bn2FixedString_number [of y 32]
  have pk: "GetPublicKey E key = of_byte 4 # Bn2FixedString x 32 @ Bn2FixedString y 32"
    using key unfolding GetPublicKey_def affine_or_zero_def xy sm2_key_ok_def by simp
  show "length (GetPublicKey E key) = 65" using f b by (simp add: pk)
  have "drop 33 (GetPublicKey E key) = Bn2FixedString y 32" using f b by (simp add: pk)
  moreover have "take 32 (drop 1 (GetPublicKey E key)) = Bn2FixedString x 32" using f b by (simp add: pk)
  ultimately show "ec_set_affine E (number (take 32 (drop 1 (GetPublicKey E key)))) (number (take 32 (drop 33 (GetPublicKey E key)))) = sm2_pkey key"
    using f b by simp
qed

lemma sign_then_verify:
  assumes ok: "ec_ok E" and key: "sm2_key_ok E key" and d: "(sm2_dA key + 1) mod ec_order E \<noteq> 0"
    and draws: "in_range_draws E draws" and run: "Sign E mem draws id_bin msg key = Some sig"
  shows "sm2_verify E mem (GetPublicKey E key) id_bin msg sig = Some 1"
proof -
  let ?n = "ec_order E"
  define ZA where "ZA = getZA E mem id_bin (sm2_pkey key)"
  define e where "e = number (Sm3_Crypto mem (ZA @ msg))"
  note E = ec_okD [OF ok]
  have valid: "sm2_valid key" "sm2_pkey key = ec_mul E (sm2_dA key)" using key by (simp_all add: sm2_key_ok_def)
  obtain r s where rs: "sign_loop E (sm2_dA key) e draws (0, 0) = Some (r, s)"
    "sig = Bn2FixedString r 32 @ Bn2FixedString s 32"
    using run valid(1) by (auto simp: Sign_def Let_def ZA_def e_def split: option.splits)
  obtain k x y where res: "0 < r" "r < ?n" "0 < s" "s < ?n" "k < ?n" "(r + k) mod ?n \<noteq> 0"
    "ec_affine E (ec_mul E k) = Some (x, y)" "r = (x mod ?n + e) mod ?n" "(s + (r + s) mod ?n * sm2_dA key) mod ?n = k"
    using sign_loop_result [OF ok d draws rs(1)] by blast
  have small: "r < 256 ^ 32" "s < 256 ^ 32" using res(2,4) E(2) by linarith+
  note f = Bn2FixedString_number [OF small(1)] Bn2FixedString_number [OF small(2)]
  have sig: "length sig div 2 = 32" "number (take 32 sig) = r" "number (take 32 (drop 32 sig)) = s"
    using f by (simp_all add: rs(2))
  have t: "(r + s) mod ?n \<noteq> 0"
  proof
    assume "(r + s) mod ?n = 0"
    then have "k = s" using res(4,9) by simp
    with \<open>(r + s) mod ?n = 0\<close> res(6) show False by simp
  qed
  note pk = public_key_read_back [OF ok key]
  have "ec_mul2 E s (sm2_pkey key) ((r + s) mod ?n) = ec_mul E k"
    using E(5) [of s "sm2_dA key" "(r + s) mod ?n"] E(3) [of "s + (r + s) mod ?n * sm2_dA key"] res(9) valid(2) by metis
  then have point: "ec_affine E (ec_mul2 E s (sm2_pkey key) ((r + s) mod ?n)) = Some (x, y)" using res(7) by simp
  have len: "(length (GetPublicKey E key) - 1) div 2 = 32" "GetPublicKey E key \<noteq> []" using pk(1) by auto
  have guard: "\<not> (r = 0 \<or> ?n \<le> r \<or> s = 0 \<or> ?n \<le> s)" using res(1-4) by simp
  have "1 + 32 = (33 :: nat)" by simp
  then show ?thesis
    by (simp only: sm2_verify_def Let_def len if_False sig pk(2) guard t ZA_def [symmetric] e_def [symmetric] point
        option.case prod.case res(8) [symmetric] if_True simp_thms)
qed

lemma From_key: "EccSm2_From E b key0 = (True, key) \<Longrightarrow> sm2_key_ok E key \<and> sm2_dA key = number b"
  by (auto simp: EccSm2_From_def Let_def sm2_key_ok_def split: if_splits option.splits)

lemma NewRandom_key:
  "in_range_draws E draws \<Longrightarrow> EccSm2_NewRandom E draws key0 = Some key \<Longrightarrow> sm2_key_ok E key \<and> sm2_dA key < ec_order E"
proof (induction draws arbitrary: key0)
  case (Cons d draws)
  then have rest: "in_range_draws E draws" and d: "\<exists>k. d = Some k \<and> k < ec_order E"
    by (auto simp: in_range_draws_def split: option.splits)
  have "ec_affine E (ec_mul E k) = Some xy \<Longrightarrow> sm2_key_ok E (key0\<lparr>sm2_dA := k, sm2_pkey := ec_mul E k, sm2_valid := True\<rparr>)" for k xy
    by (simp add: sm2_key_ok_def)
  then show ?case using Cons.prems(2) Cons.IH [OF rest] d
    by (auto simp: Let_def split: if_splits option.splits)
qed simp

text \<open>A key with \<open>d + 1 = n\<close>: \<open>1 + d\<close> has no inverse, the loop ends with \<open>s = 0\<close>.\<close>

lemma sign_loop_no_inverse:
  assumes "ec_inverse E ((dA + 1) mod ec_order E) = None" and "(dA + 1) mod ec_order E = 0" and "snd rs = 0"
    and "sign_loop E dA e draws rs = Some (r, s)"
  shows "s = 0"
  using assms(3,4)
proof (induction draws arbitrary: rs)
  case (Cons d draws)
  show ?case using Cons.prems Cons.IH assms(1,2)
    by (auto simp: Let_def split: if_splits option.splits prod.splits)
qed simp

section \<open>Properties\<close>

text \<open>A small cyclic group with the interface of the curve: the numbers modulo 7.\<close>

definition small_ec :: "nat ec" where
  "small_ec =
     \<lparr>ec_order = 7, ec_a = 0, ec_b = 0, ec_generator = 1, ec_infinity = 0, ec_mul = (\<lambda>k. k mod 7),
      ec_mul2 = (\<lambda>s P t. (s + t * P) mod 7), ec_affine = (\<lambda>P. if P = 0 \<or> 7 \<le> P then None else Some (P, P)),
      ec_set_affine = (\<lambda>x y. x), ec_inverse = (\<lambda>a. find (\<lambda>i. (a * i) mod 7 = 1) [1, 2, 3, 4, 5, 6])\<rparr>"

lemma residue_7: obtains "m mod 7 = (0 :: nat)" | "m mod 7 = 1" | "m mod 7 = 2" | "m mod 7 = 3" | "m mod 7 = 4" | "m mod 7 = 5" | "m mod 7 = 6"
  using mod_less_divisor [of 7 m] by linarith

lemma small_ec_ok: "ec_ok small_ec"
proof -
  define inv where "inv = (\<lambda>a :: nat. find (\<lambda>i. (a * i) mod 7 = 1) [1, 2, 3, 4, 5, 6])"
  have "inv a = Some i \<Longrightarrow> (a * i) mod 7 = 1" for a i :: nat
    by (auto simp: inv_def find_Some_iff simp del: find.simps)
  moreover have "inv a \<noteq> None" if "a mod 7 \<noteq> 0" for a :: nat
  proof -
    have "\<exists>i \<in> set [1, 2, 3, 4, 5, 6]. (a mod 7 * i) mod 7 = 1"
      using that by (cases rule: residue_7 [of a]) simp_all
    then show ?thesis unfolding inv_def find_None_iff mod_mult_left_eq by blast
  qed
  moreover have "(s + t * (d mod 7)) mod 7 = (s + t * d) mod 7" for s t d :: nat by (metis mod_add_right_eq mod_mult_right_eq)
  ultimately show ?thesis unfolding ec_ok_def small_ec_def inv_def [symmetric] by auto
qed

lemma sign_loop_mod: "sign_loop E d (e mod ec_order E) draws rs = sign_loop E d e draws rs"
proof (induction draws arbitrary: rs)
  case (Cons a draws)
  then show ?case by (simp add: mod_add_right_eq Let_def split: option.splits)
qed simp

lemma small_sign: "\<exists>r s. sign_loop small_ec 2 e (map Some [1, 2, 3, 4, 5, 6]) (0, 0) = Some (r, s)"
proof -
  have "\<exists>r s. sign_loop small_ec 2 (e mod 7) (map Some [1, 2, 3, 4, 5, 6]) (0, 0) = Some (r, s)"
    by (cases rule: residue_7 [of e]) (simp_all add: small_ec_def Let_def nat_mod_as_int)
  moreover have "ec_order small_ec = 7" by (simp add: small_ec_def)
  ultimately show ?thesis by (metis sign_loop_mod)
qed

definition small_key :: "nat EccSm2" where
  "small_key = snd (EccSm2_From small_ec [of_byte 2] (EccSm2_new small_ec))"

lemma small_key: "EccSm2_From small_ec [of_byte 2] (EccSm2_new small_ec) = (True, small_key)" "sm2_dA small_key = 2" "sm2_valid small_key"
  by (simp_all add: small_key_def EccSm2_From_def Let_def small_ec_def number_def)

text \<open>C31: What \<open>Sign\<close> returns passes \<open>verify\<close> with the public key of the same key, for every message and
  identity and whatever numbers are drawn, unless the private key is \<open>n - 1\<close>.\<close>

theorem sm2_signature_verifies:
  assumes "ec_ok E" and "EccSm2_From E skey key0 = (True, key)" and "(sm2_dA key + 1) mod ec_order E \<noteq> 0"
    and "in_range_draws E draws" and "Sign E mem draws id_bin msg key = Some sig"
  shows "sm2_verify E mem (GetPublicKey E key) id_bin msg sig = Some 1"
  using sign_then_verify [OF assms(1) _ assms(3-5)] From_key [OF assms(2)] by blast

theorem sm2_signature_verifies_witness:
  "\<exists>sig. Sign small_ec blank_context (map Some [1, 2, 3, 4, 5, 6]) ''id'' ''text'' small_key = Some sig \<and>
     sm2_verify small_ec blank_context (GetPublicKey small_ec small_key) ''id'' ''text'' sig = Some 1"
proof -
  obtain r s where "sign_loop small_ec 2 (number (Sm3_Crypto blank_context (getZA small_ec blank_context ''id'' (sm2_pkey small_key) @ ''text'')))
      (map Some [1, 2, 3, 4, 5, 6]) (0, 0) = Some (r, s)"
    using small_sign by blast
  then have "Sign small_ec blank_context (map Some [1, 2, 3, 4, 5, 6]) ''id'' ''text'' small_key =
      Some (Bn2FixedString r 32 @ Bn2FixedString s 32)"
    by (simp only: Sign_def small_key(2,3) Let_def not_True_eq_False if_False option.case prod.case)
  moreover from sm2_signature_verifies [OF small_ec_ok small_key(1) _ _ this]
  have "sm2_verify small_ec blank_context (GetPublicKey small_ec small_key) ''id'' ''text'' (Bn2FixedString r 32 @ Bn2FixedString s 32) = Some 1"
    by (simp add: small_key(2) in_range_draws_def small_ec_def)
  ultimately show ?thesis by blast
qed

text \<open>C32: A random private key written with \<open>getSkeyBin\<close> is read back by \<open>From\<close> as the same key with the
  same public key.\<close>

theorem sm2_private_key_is_restored:
  assumes "ec_ok E" and "in_range_draws E draws" and "EccSm2_NewRandom E draws key0 = Some key"
  shows "\<exists>key'. EccSm2_From E (getSkeyBin key) key1 = (True, key') \<and>
    sm2_dA key' = sm2_dA key \<and> sm2_pkey key' = sm2_pkey key \<and> GetPublicKey E key' = GetPublicKey E key"
proof -
  note k = NewRandom_key [OF assms(2,3)]
  have "sm2_dA key < 256 ^ 32" using k ec_okD(2) [OF assms(1)] by linarith
  then have d: "number (getSkeyBin key) = sm2_dA key" unfolding getSkeyBin_def by (rule Bn2FixedString_number)
  obtain xy where xy: "ec_affine E (ec_mul E (sm2_dA key)) = Some xy" using k by (auto simp: sm2_key_ok_def)
  have "EccSm2_From E (getSkeyBin key) key1 =
      (True, key1\<lparr>sm2_valid := True, sm2_skey_bin := getSkeyBin key, sm2_dA := sm2_dA key, sm2_pkey := ec_mul E (sm2_dA key)\<rparr>)"
    using k xy by (simp add: EccSm2_From_def Let_def d)
  then show ?thesis using k by (auto simp: sm2_key_ok_def GetPublicKey_def)
qed

lemma length_bn2bin_byte: "0 < n \<Longrightarrow> n < 256 \<Longrightarrow> length (BN_bn2bin n) = 1"
proof -
  assume "0 < n" "n < 256"
  moreover have "BN_bn2bin 0 = []" by (simp add: BN_bn2bin.simps)
  ultimately show ?thesis by (subst BN_bn2bin.simps) simp
qed

theorem sm2_private_key_is_restored_witness:
  "\<exists>key'. EccSm2_From small_ec (getSkeyBin (small_key\<lparr>sm2_dA := 3, sm2_pkey := 3\<rparr>)) small_key = (True, key') \<and> sm2_pkey key' = 3"
proof -
  have "EccSm2_NewRandom small_ec [Some 3] small_key = Some (small_key\<lparr>sm2_dA := 3, sm2_pkey := 3\<rparr>)"
    using small_key(3) by (cases small_key) (simp add: small_ec_def Let_def length_bn2bin_byte)
  from sm2_private_key_is_restored [OF small_ec_ok _ this] show ?thesis
    by (auto simp: in_range_draws_def small_ec_def)
qed

text \<open>\<open>From\<close> refuses only a key equal to the order. It accepts the key \<open>n - 1\<close>, which cannot sign: every
  signature made with it is refused.\<close>

theorem sm2_last_key_cannot_sign:
  assumes "ec_ok E" and "ec_inverse E 0 = None" and "number skey = ec_order E - 1"
    and "EccSm2_From E skey key0 = (b, key)" and "Sign E mem draws id_bin msg key = Some sig"
  shows "b \<and> sm2_verify E mem (GetPublicKey E key) id_bin msg sig = Some 0"
proof -
  let ?n = "ec_order E"
  note E = ec_okD [OF assms(1)]
  have n: "1 < ?n" by (rule E(1))
  obtain xy where xy: "ec_affine E (ec_mul E (?n - 1)) = Some xy" using E(4) [of "?n - 1"] n by auto
  have "fst (EccSm2_From E skey key0)" using xy n by (simp add: EccSm2_From_def Let_def assms(3))
  then have b: b using assms(4) by simp
  then have key: "sm2_key_ok E key" "sm2_dA key = ?n - 1" using From_key [of E skey key0 key] assms(3,4) by auto
  then have d: "(sm2_dA key + 1) mod ?n = 0" using n by simp
  obtain r s where rs: "sign_loop E (sm2_dA key) (number (Sm3_Crypto mem (getZA E mem id_bin (sm2_pkey key) @ msg))) draws (0, 0) = Some (r, s)"
    "sig = Bn2FixedString r 32 @ Bn2FixedString s 32"
    using assms(5) key by (auto simp: Sign_def Let_def sm2_key_ok_def split: option.splits)
  have "s = 0" using sign_loop_no_inverse [OF _ d _ rs(1)] assms(2) d by simp
  moreover have "length (Bn2FixedString m 32) = 32" for m by (simp add: Bn2FixedString_def Let_def)
  moreover have "number (Bn2FixedString 0 32) = 0" by (rule Bn2FixedString_number) simp
  ultimately have "length sig div 2 = 32" "number (take 32 (drop 32 sig)) = 0" by (simp_all add: rs(2))
  moreover have "GetPublicKey E key \<noteq> []" using public_key_read_back(1) [OF assms(1) key(1)] by auto
  ultimately show ?thesis using b by (simp add: sm2_verify_def Let_def)
qed

theorem sm2_last_key_cannot_sign_witness:
  "\<exists>sig. Sign small_ec blank_context [None] ''id'' ''text'' (snd (EccSm2_From small_ec [of_byte 6] small_key)) = Some sig \<and>
     sm2_verify small_ec blank_context (GetPublicKey small_ec (snd (EccSm2_From small_ec [of_byte 6] small_key))) ''id'' ''text'' sig = Some 0"
proof -
  let ?key = "snd (EccSm2_From small_ec [of_byte 6] small_key)"
  have "\<exists>sig. Sign small_ec blank_context [None] ''id'' ''text'' ?key = Some sig"
    by (cases "sm2_valid ?key") (simp_all add: Sign_def Let_def)
  then obtain sig where sig: "Sign small_ec blank_context [None] ''id'' ''text'' ?key = Some sig" ..
  have "ec_inverse small_ec 0 = None" "number [of_byte 6] = ec_order small_ec - 1" by (simp_all add: small_ec_def number_def)
  from sm2_last_key_cannot_sign [OF small_ec_ok this _ sig] sig show ?thesis by (metis prod.collapse)
qed

text \<open>The constants of the CFCA curve are consistent: the generator lies on the curve, the curve is not
  singular, and the numbers have at most 32 bytes, as \<open>Bn2FixedString\<close> writes them.\<close>

theorem cfca_curve_is_consistent:
  "cv_yG CFCA_curve ^ 2 mod cv_p CFCA_curve =
     (cv_xG CFCA_curve ^ 3 + cv_a CFCA_curve * cv_xG CFCA_curve + cv_b CFCA_curve) mod cv_p CFCA_curve \<and>
   (4 * cv_a CFCA_curve ^ 3 + 27 * cv_b CFCA_curve ^ 2) mod cv_p CFCA_curve \<noteq> 0 \<and>
   cv_p CFCA_curve < 256 ^ 32 \<and> cv_n CFCA_curve < 256 ^ 32 \<and> 2 ^ 255 < cv_n CFCA_curve"
proof -
  define r where "r = (0xfbf2eddd128cdef06491287e877da3674fbb9591ce6200a6b09d6e1d38d4c1e5 :: nat)"
  have "cv_yG CFCA_curve ^ 2 = r + 0x8a61242867d98cd05da2fd4714105ca1e29e7dc53f0635c8e1e672b6ef685de5 * cv_p CFCA_curve"
    by (simp add: CFCA_curve_def r_def)
  moreover have "cv_xG CFCA_curve ^ 3 + cv_a CFCA_curve * cv_xG CFCA_curve + cv_b CFCA_curve = r +
      0x1ff231cb8de202f6800e795420b806030333747296cf08ae9f5b2ba2fe5ba24bbcddcd385ec65b7db9974e8f5e2d75f0edda298879fef13a0b40145233daad7 * cv_p CFCA_curve"
    by (simp add: CFCA_curve_def r_def)
  moreover have "4 * cv_a CFCA_curve ^ 3 + 27 * cv_b CFCA_curve ^ 2 =
      0xf89c89eb6faad12f002858081cc8f078ca97e4d18ec6eb4be58df32c83438294 + 0x3fffffff800000003fffffffffffffffffffffff80000000ffffffff7ffffffd4b08cc0c972b72fc6698ea9f11d13649e7a3e6b4e370dca84724cd8fbd5b48081 * cv_p CFCA_curve"
    by (simp add: CFCA_curve_def)
  moreover have "(0xf89c89eb6faad12f002858081cc8f078ca97e4d18ec6eb4be58df32c83438294 :: nat) mod cv_p CFCA_curve \<noteq> 0"
    by (simp add: CFCA_curve_def)
  moreover have "cv_p CFCA_curve < 256 ^ 32" "cv_n CFCA_curve < 256 ^ 32" "2 ^ 255 < cv_n CFCA_curve"
    by (simp_all add: CFCA_curve_def)
  ultimately show ?thesis by (simp only: mod_mult_self1) simp
qed

text \<open>\<open>NewGroup\<close> is documented to return \<open>NULL\<close> when it fails, but a singular curve, a generator off the
  curve and an order that is not prime come back as a group.\<close>

theorem NewGroup_returns_rejected_curves:
  assumes "cv_n c > 2 ^ 190" and "gm_prime M (cv_p c)" and "odd (cv_p c)" and "make_group M GFP c = Inr g"
    and "(4 * cv_a c ^ 3 + 27 * cv_b c ^ 2) mod cv_p c = 0 \<or> \<not> gm_prime M (cv_n c)"
  shows "\<exists>err. err \<noteq> [] \<and> NewGroup M GFP c = (Some g, err)"
proof -
  have "(0x400000000000000000000000000000000000000000000000 :: nat) = 2 ^ 190" by simp
  then show ?thesis using assms by (auto simp: NewGroup_def)
qed

theorem NewGroup_returns_rejected_curves_witness:
  "\<exists>err. err \<noteq> [] \<and> NewGroup \<lparr>gm_prime = (\<lambda>_. True), gm_new = (\<lambda>_. ()), gm_set_curve = (\<lambda>_ _. Some ()),
       gm_set_generator = (\<lambda>_ _. Some ()), gm_order_ok = (\<lambda>_ _. True), gm_check = (\<lambda>_. True)\<rparr> GFP
     (CFCA_curve\<lparr>cv_a := 0, cv_b := 0\<rparr>) = (Some (), err)"
  by (rule NewGroup_returns_rejected_curves) (simp_all add: CFCA_curve_def make_group_def)

end
