(* ===== verification/Private_Key.thy ===== *)
theory Private_Key
  imports Ecc_Sm2 General Hex_Codec Programs
begin

text \<open>
  \<open>common/private_key.cpp\<close>: the text forms of addresses and keys, the public and private keys with
  the two signature algorithms, and the hash wrapper.

  The signature and encoding types are bytes in the text forms and may have any value, so they are
  numbers with the named constants of the enumerations. A call that throws or reads outside a table
  is \<open>Inl\<close> of a fault. Ed25519, SHA-256 and the curve arithmetic are the record \<open>crypto_lib\<close>, and
  \<open>crypto_ok\<close> is what the code relies on; SM2 signatures, SM3, Base58 and hexadecimal text are the
  ones of the other theories. The two global tables of addresses are passed as maps. The wrapper
  classes \<open>PublicKey\<close> and \<open>PrivateKey\<close> only forward to the classes \<open>V4\<close>.

  Proved: a private key written as text is read back, a signature passes \<open>Verify\<close> with the text form
  of the public key, for both algorithms, and where the reading of text forms is too lenient or
  loses bytes.
\<close>

section \<open>Constants and libraries\<close>

type_synonym SignatureType = nat
type_synonym EncodeType = nat

definition SIGNTYPE_NONE :: SignatureType where "SIGNTYPE_NONE = 0"
definition SIGNTYPE_ED25519 :: SignatureType where "SIGNTYPE_ED25519 = byte (CHR ''e'')"
definition SIGNTYPE_CFCASM2 :: SignatureType where "SIGNTYPE_CFCASM2 = byte (CHR ''z'')"
definition SIGNTYPE_RSA :: SignatureType where "SIGNTYPE_RSA = 3"
definition SIGNTYPE_CFCA :: SignatureType where "SIGNTYPE_CFCA = 4"
definition ENCODETYPE_BASE58 :: EncodeType where "ENCODETYPE_BASE58 = byte (CHR ''f'')"

datatype KeyType = KEY_ADDRESS | KEY_PUBLICKEY | KEY_PRIVATEKEY

record 'p crypto_lib =
  ed_publickey :: "string \<Rightarrow> string"
  ed_sign :: "string \<Rightarrow> string \<Rightarrow> string \<Rightarrow> string"
  ed_open :: "string \<Rightarrow> string \<Rightarrow> string \<Rightarrow> bool"
  sha256 :: "string \<Rightarrow> string"
  cfca_group :: "'p ec"
  sm3_mem :: sm3_context
  base58_size :: "nat \<Rightarrow> nat"

text \<open>A signature made with a 32-byte key opens under the public key made from it.\<close>

definition crypto_ok :: "'p crypto_lib \<Rightarrow> bool" where
  "crypto_ok L \<longleftrightarrow>
     (\<forall>sk m. length sk = 32 \<longrightarrow> length (ed_publickey L sk) = 32 \<and>
        length (ed_sign L m sk (ed_publickey L sk)) = 64 \<and> ed_open L m (ed_publickey L sk) (ed_sign L m sk (ed_publickey L sk))) \<and>
     ec_ok (cfca_group L) \<and> (\<forall>n \<le> 100. roomy (base58_size L) n)"

section \<open>\<open>KeypairUtils\<close>\<close>

definition b58_decode :: "'p crypto_lib \<Rightarrow> string \<Rightarrow> fault + string" where
  "b58_decode L s = (case Base58_Decode (base58_size L) s of None \<Rightarrow> Inl OutOfRange | Some (_, out) \<Rightarrow> Inr out)"

definition KeypairUtils_EncodeAddress :: "AddressPrefix \<Rightarrow> SignatureType \<Rightarrow> EncodeType \<Rightarrow> string \<Rightarrow> string" where
  "KeypairUtils_EncodeAddress pre stype etype address =
     AddressPrefix_Encode pre ([of_byte stype, of_byte etype] @ Base58_Encode address)"

definition DecodeAddress :: "'p crypto_lib \<Rightarrow> string \<Rightarrow> fault + string" where
  "DecodeAddress L address =
     (if length address < 2 then Inr []
      else let tmp = AddressPrefix_Decode address in
        if length tmp < 2 then Inl OutOfRange else b58_decode L (drop 2 tmp))"

definition GetAddressIndex :: "'p crypto_lib \<Rightarrow> string \<Rightarrow> fault + string" where
  "GetAddressIndex L address =
     (let tmp = AddressPrefix_Decode address in
      if length tmp < 2 then Inr []
      else case b58_decode L (drop 2 tmp) of Inl f \<Rightarrow> Inl f | Inr s \<Rightarrow> Inr (take 2 tmp @ s))"

definition EncodePublicKey :: "string \<Rightarrow> string" where "EncodePublicKey key = BinToHexString key"
definition DecodePublicKey :: "string \<Rightarrow> string" where "DecodePublicKey key = HexStringToBin key False"
definition EncodePrivateKey :: "string \<Rightarrow> string" where "EncodePrivateKey key = Base58_Encode key"
definition DecodePrivateKey :: "'p crypto_lib \<Rightarrow> string \<Rightarrow> fault + string" where "DecodePrivateKey L key = b58_decode L key"

definition CalcHash :: "'p crypto_lib \<Rightarrow> string \<Rightarrow> SignatureType \<Rightarrow> string" where
  "CalcHash L value sign_type =
     (if sign_type = SIGNTYPE_CFCASM2 then Sm3_Crypto (sm3_mem L) value else sha256 L value)"

text \<open>The parameters passed by reference: an early return leaves them as they were.\<close>

record KeyElement =
  el_key_type :: KeyType
  el_sign_type :: SignatureType
  el_encode_type :: EncodeType
  el_raw_data :: string

text \<open>The length the type asks for is compared and the result then overwritten.\<close>

definition length_matches :: "nat \<Rightarrow> nat \<Rightarrow> SignatureType \<Rightarrow> nat \<Rightarrow> bool" where
  "length_matches ed_len sm2_len sign_type datalen =
     (if sign_type = SIGNTYPE_ED25519 then ed_len = datalen
      else if sign_type = SIGNTYPE_CFCASM2 then sm2_len = datalen
      else False)"

definition GetPublicKeyElement :: "string \<Rightarrow> KeyElement \<Rightarrow> bool \<times> KeyElement" where
  "GetPublicKeyElement encode_pub_key el =
     (let buff = DecodePublicKey encode_pub_key in
      if length buff < 3 then (False, el)
      else let a = byte (buff ! 0); b = byte (buff ! 1); c = byte (buff ! 2) in
        if a \<noteq> 0xb0 then (False, el)
        else let el = el\<lparr>el_sign_type := b, el_encode_type := c\<rparr>;
                 datalen = length buff - 3;
                 ret = length_matches 32 65 (el_sign_type el) datalen;
                 ret = (el_encode_type el = ENCODETYPE_BASE58)
             in if ret then (ret, el\<lparr>el_key_type := KEY_PUBLICKEY, el_raw_data := drop 3 buff\<rparr>) else (ret, el))"

definition GetKeyElement :: "'p crypto_lib \<Rightarrow> AddressPrefix \<Rightarrow> string \<Rightarrow> KeyElement \<Rightarrow> fault + bool \<times> KeyElement" where
  "GetKeyElement L pre encode_key el =
     (if has_prefix (address_prefix pre) encode_key then
        (let base58addr = AddressPrefix_Decode encode_key in
         case DecodeAddress L base58addr of
           Inl f \<Rightarrow> Inl f
         | Inr buff \<Rightarrow>
             if length buff \<noteq> 22 then Inr (False, el)
             else let el = el\<lparr>el_raw_data := drop 2 buff, el_key_type := KEY_ADDRESS\<rparr>;
                      a = byte (base58addr ! 0); b = byte (base58addr ! 1);
                      el = el\<lparr>el_sign_type := a, el_encode_type := b\<rparr>;
                      ret = length_matches 22 22 a (length buff);
                      ret = (b = ENCODETYPE_BASE58)
                  in Inr (ret, el))
      else if has_prefix ''pri'' encode_key then
        (case b58_decode L encode_key of
           Inl f \<Rightarrow> Inl f
         | Inr buff \<Rightarrow>
             if length buff \<noteq> 37 then Inr (False, el)
             else let el = el\<lparr>el_raw_data := drop 5 buff, el_key_type := KEY_PRIVATEKEY\<rparr>;
                      a = byte (buff ! 3); b = byte (buff ! 4);
                      el = el\<lparr>el_sign_type := a, el_encode_type := b\<rparr>;
                      ret = length_matches 32 32 a (length buff - 5);
                      ret = (b = ENCODETYPE_BASE58)
                  in Inr (ret, el))
      else Inr (False, el))"

definition GetSignTypeDesc :: "SignatureType \<Rightarrow> string" where
  "GetSignTypeDesc type =
     (if type = SIGNTYPE_CFCA then ''cfca''
      else if type = SIGNTYPE_CFCASM2 then ''sm2''
      else if type = SIGNTYPE_RSA then ''rsa''
      else if type = SIGNTYPE_ED25519 then ''ed25519''
      else [])"

definition GetSignTypeByDesc :: "string \<Rightarrow> SignatureType" where
  "GetSignTypeByDesc desc =
     (if desc = ''sm2'' then SIGNTYPE_CFCASM2
      else if desc = ''rsa'' then SIGNTYPE_RSA
      else if desc = ''ed25519'' then SIGNTYPE_ED25519
      else SIGNTYPE_NONE)"

section \<open>Public keys\<close>

record PublicKeyV4 =
  pub_valid :: bool
  pub_type :: SignatureType
  pub_encode_type :: EncodeType
  pub_raw_pub_key :: string
  pub_raw_address :: string

text \<open>\<open>encode_type_\<close> has no initial value: \<open>junk\<close>.\<close>

definition PublicKeyV4_new :: "EncodeType \<Rightarrow> bool \<Rightarrow> SignatureType \<Rightarrow> PublicKeyV4" where
  "PublicKeyV4_new junk valid type =
     \<lparr>pub_valid = valid, pub_type = type, pub_encode_type = junk, pub_raw_pub_key = [], pub_raw_address = []\<rparr>"

definition PublicKeyV4_of :: "'p crypto_lib \<Rightarrow> KeyType \<Rightarrow> EncodeType \<Rightarrow> string \<Rightarrow> PublicKeyV4" where
  "PublicKeyV4_of L kt junk encode_pub_key =
     (let k = PublicKeyV4_new junk False SIGNTYPE_ED25519;
          (ok, el) = GetPublicKeyElement encode_pub_key
             \<lparr>el_key_type = kt, el_sign_type = pub_type k, el_encode_type = pub_encode_type k, el_raw_data = pub_raw_pub_key k\<rparr>;
          k = k\<lparr>pub_type := el_sign_type el, pub_encode_type := el_encode_type el, pub_raw_pub_key := el_raw_data el\<rparr>;
          k = (if ok then k\<lparr>pub_valid := (el_key_type el = KEY_PUBLICKEY)\<rparr> else k)
      in k\<lparr>pub_raw_address := drop 10 (CalcHash L (pub_raw_pub_key k) (pub_type k))\<rparr>)"

definition PublicKeyV4_Init :: "'p crypto_lib \<Rightarrow> SignatureType \<Rightarrow> string \<Rightarrow> PublicKeyV4 \<Rightarrow> PublicKeyV4" where
  "PublicKeyV4_Init L type rawpkey k =
     (let k = k\<lparr>pub_type := type, pub_raw_pub_key := rawpkey\<rparr>
      in k\<lparr>pub_raw_address := drop 10 (CalcHash L (pub_raw_pub_key k) (pub_type k))\<rparr>)"

text \<open>\<open>g_pub_to_address\<close> is keyed by the raw public key.\<close>

definition GetEncAddress ::
  "'p crypto_lib \<Rightarrow> AddressPrefix \<Rightarrow> PublicKeyV4 \<Rightarrow> (string \<rightharpoonup> string) \<Rightarrow> string \<times> (string \<rightharpoonup> string)" where
  "GetEncAddress L pre k g_pub_to_address =
     (case g_pub_to_address (pub_raw_pub_key k) of
        None \<Rightarrow>
          let hash = CalcHash L (pub_raw_pub_key k) (pub_type k);
              str_result = KeypairUtils_EncodeAddress pre (pub_type k) ENCODETYPE_BASE58 (drop 10 hash)
          in (str_result, g_pub_to_address(pub_raw_pub_key k \<mapsto> str_result))
      | Some str_result \<Rightarrow> (str_result, g_pub_to_address))"

definition GetEncPublicKey :: "PublicKeyV4 \<Rightarrow> string" where
  "GetEncPublicKey k = EncodePublicKey ([of_byte 0xb0, of_byte (pub_type k), of_byte ENCODETYPE_BASE58] @ pub_raw_pub_key k)"

definition sm2_id :: string where "sm2_id = ''1234567812345678''"

definition Verify :: "'p crypto_lib \<Rightarrow> KeyElement \<Rightarrow> string \<Rightarrow> string \<Rightarrow> string \<Rightarrow> fault + bool" where
  "Verify L junk data signature encode_public_key =
     (let (valid, el) = GetPublicKeyElement encode_public_key junk in
      if \<not> valid \<or> el_key_type el \<noteq> KEY_PUBLICKEY then Inr False
      else if length signature \<noteq> 64 then Inr False
      else if el_sign_type el = SIGNTYPE_ED25519 then Inr (ed_open L data (el_raw_data el) signature)
      else if el_sign_type el = SIGNTYPE_CFCASM2 then
        (case sm2_verify (cfca_group L) (sm3_mem L) (el_raw_data el) sm2_id data signature of
           None \<Rightarrow> Inl OutOfRange
         | Some r \<Rightarrow> Inr (r = 1))
      else Inr False)"

definition PublicKey_EncodeAddress ::
  "AddressPrefix \<Rightarrow> string \<Rightarrow> string \<Rightarrow> (string \<rightharpoonup> string) \<Rightarrow> string \<times> (string \<rightharpoonup> string)" where
  "PublicKey_EncodeAddress pre prefix raw_address g_raw_address_to_encode =
     (if prefix \<noteq> ''ef'' \<and> prefix \<noteq> ''zf'' then ([], g_raw_address_to_encode)
      else case g_raw_address_to_encode (prefix @ raw_address) of
        Some encoded \<Rightarrow> (encoded, g_raw_address_to_encode)
      | None \<Rightarrow>
          let encoded = KeypairUtils_EncodeAddress pre
                (if prefix = ''ef'' then SIGNTYPE_ED25519 else SIGNTYPE_CFCASM2) ENCODETYPE_BASE58 raw_address
          in (encoded, g_raw_address_to_encode(prefix @ raw_address \<mapsto> encoded)))"

section \<open>Private keys\<close>

record PrivateKeyV4 =
  priv_valid :: bool
  priv_type :: SignatureType
  priv_encode_type :: EncodeType
  priv_raw_priv_key :: string
  priv_pub_key :: "PublicKeyV4 option"

definition PrivateKeyV4_blank :: "EncodeType \<Rightarrow> PrivateKeyV4" where
  "PrivateKeyV4_blank junk =
     \<lparr>priv_valid = False, priv_type = SIGNTYPE_ED25519, priv_encode_type = junk, priv_raw_priv_key = [], priv_pub_key = None\<rparr>"

text \<open>The public key made from a raw private key, empty for an unknown type; the group object is new.\<close>

definition public_of_raw :: "'p crypto_lib \<Rightarrow> SignatureType \<Rightarrow> string \<Rightarrow> string" where
  "public_of_raw L type raw =
     (if type = SIGNTYPE_ED25519 then ed_publickey L raw
      else if type = SIGNTYPE_CFCASM2 then
        GetPublicKey (cfca_group L) (snd (EccSm2_From (cfca_group L) raw (EccSm2_new (cfca_group L))))
      else [])"

definition new_public :: "'p crypto_lib \<Rightarrow> EncodeType \<Rightarrow> SignatureType \<Rightarrow> string \<Rightarrow> PublicKeyV4" where
  "new_public L junk type raw_pub = PublicKeyV4_Init L type raw_pub (PublicKeyV4_new junk True type)"

text \<open>A new key: \<open>rand\<close> is what \<open>GetStrongRandBytes\<close> gives, \<open>draws\<close> what \<open>NewRandom\<close> draws; \<open>None\<close> while
  it is still drawing.\<close>

definition PrivateKeyV4_new ::
  "'p crypto_lib \<Rightarrow> EncodeType \<Rightarrow> string option \<Rightarrow> nat option list \<Rightarrow> SignatureType \<Rightarrow> PrivateKeyV4 option" where
  "PrivateKeyV4_new L junk rand draws type =
     (let k = (PrivateKeyV4_blank junk)\<lparr>priv_type := type\<rparr>;
          finish = (\<lambda>k raw_pub. k\<lparr>priv_pub_key := Some (new_public L junk type raw_pub), priv_valid := True\<rparr>)
      in if type = SIGNTYPE_ED25519 then
           (case rand of
              None \<Rightarrow> Some (k\<lparr>priv_raw_priv_key := replicate 32 (of_byte 0), priv_valid := False\<rparr>)
            | Some raw \<Rightarrow> Some (finish (k\<lparr>priv_raw_priv_key := raw\<rparr>) (ed_publickey L raw)))
         else if type = SIGNTYPE_CFCASM2 then
           (case EccSm2_NewRandom (cfca_group L) draws (EccSm2_new (cfca_group L)) of
              None \<Rightarrow> None
            | Some key \<Rightarrow> Some (finish (k\<lparr>priv_raw_priv_key := getSkeyBin key\<rparr>) (GetPublicKey (cfca_group L) key)))
         else Some (finish k []))"

text \<open>\<open>kt\<close> and \<open>junk\<close>: a local variable and a member without an initial value.\<close>

definition PrivateKeyV4_From ::
  "'p crypto_lib \<Rightarrow> AddressPrefix \<Rightarrow> KeyType \<Rightarrow> EncodeType \<Rightarrow> string \<Rightarrow> PrivateKeyV4 \<Rightarrow> fault + bool \<times> PrivateKeyV4" where
  "PrivateKeyV4_From L pre kt junk encode_private_key k =
     (let k = k\<lparr>priv_valid := False\<rparr> in
      case GetKeyElement L pre encode_private_key
             \<lparr>el_key_type = kt, el_sign_type = priv_type k, el_encode_type = priv_encode_type k, el_raw_data = priv_raw_priv_key k\<rparr> of
        Inl f \<Rightarrow> Inl f
      | Inr (ok, el) \<Rightarrow>
          let k = k\<lparr>priv_valid := ok, priv_type := el_sign_type el, priv_encode_type := el_encode_type el,
                    priv_raw_priv_key := el_raw_data el\<rparr>
          in if \<not> ok then Inr (False, k)
             else if el_key_type el \<noteq> KEY_PRIVATEKEY then Inr (False, k\<lparr>priv_valid := False\<rparr>)
             else Inr (True, k\<lparr>priv_pub_key := Some (new_public L junk (priv_type k)
                    (public_of_raw L (priv_type k) (priv_raw_priv_key k))), priv_valid := True\<rparr>))"

definition PrivateKeyV4_Init :: "'p crypto_lib \<Rightarrow> EncodeType \<Rightarrow> SignatureType \<Rightarrow> string \<Rightarrow> PrivateKeyV4 \<Rightarrow> PrivateKeyV4" where
  "PrivateKeyV4_Init L junk type raw_priv_key k =
     k\<lparr>priv_type := type, priv_raw_priv_key := raw_priv_key,
       priv_pub_key := Some (new_public L junk type (public_of_raw L type raw_priv_key))\<rparr>"

text \<open>\<open>None\<close> while SM2 is still drawing. For an unknown type the output is empty. Ed25519 reads the
  public key through the pointer \<open>pub_key_\<close>, null in a key that was never made.\<close>

definition PrivateKeyV4_Sign :: "'p crypto_lib \<Rightarrow> nat option list \<Rightarrow> PrivateKeyV4 \<Rightarrow> string \<Rightarrow> (fault + string) option" where
  "PrivateKeyV4_Sign L draws k input =
     (if priv_type k = SIGNTYPE_ED25519 then
        (case priv_pub_key k of
           None \<Rightarrow> Some (Inl Uninitialised)
         | Some p \<Rightarrow> Some (Inr (ed_sign L input (priv_raw_priv_key k) (pub_raw_pub_key p))))
      else if priv_type k = SIGNTYPE_CFCASM2 then
        (let key = snd (EccSm2_From (cfca_group L) (priv_raw_priv_key k) (EccSm2_new (cfca_group L))) in
         map_option Inr (Sign (cfca_group L) (sm3_mem L) draws sm2_id input key))
      else Some (Inr []))"

definition GetEncPrivateKey :: "PrivateKeyV4 \<Rightarrow> string" where
  "GetEncPrivateKey k =
     EncodePrivateKey ([of_byte 24, of_byte 158, of_byte 153, of_byte (priv_type k), of_byte ENCODETYPE_BASE58] @ priv_raw_priv_key k)"

section \<open>The hash wrapper\<close>

text \<open>\<open>hash_\<close> points to an object of one of two classes; SHA-256 is OpenSSL's. \<open>ledger_type_\<close> is a global.\<close>

record 's sha_lib =
  sha_init :: 's
  sha_update :: "'s \<Rightarrow> string \<Rightarrow> 's"
  sha_final :: "'s \<Rightarrow> string"

datatype 's Hash = Sm3_object sm3_context | Sha256_object 's

definition HASH_TYPE_SHA256 :: int where "HASH_TYPE_SHA256 = 0"
definition HASH_TYPE_SM3 :: int where "HASH_TYPE_SM3 = 1"

definition HashWrapper_new :: "'s sha_lib \<Rightarrow> sm3_context \<Rightarrow> int \<Rightarrow> 's Hash" where
  "HashWrapper_new S mem type = (if type = HASH_TYPE_SM3 then Sm3_object (Sm3_new mem) else Sha256_object (sha_init S))"

fun HashWrapper_Update :: "'s sha_lib \<Rightarrow> 's Hash \<Rightarrow> string \<Rightarrow> 's Hash" where
  "HashWrapper_Update S (Sm3_object c) input = Sm3_object (Sm3_Update c input)"
| "HashWrapper_Update S (Sha256_object c) input = Sha256_object (sha_update S c input)"

fun HashWrapper_Final :: "'s sha_lib \<Rightarrow> 's Hash \<Rightarrow> string" where
  "HashWrapper_Final S (Sm3_object c) = fst (Sm3_Final c)"
| "HashWrapper_Final S (Sha256_object c) = sha_final S c"

definition HashWrapper_Crypto :: "'s sha_lib \<Rightarrow> sm3_context \<Rightarrow> int \<Rightarrow> string \<Rightarrow> string" where
  "HashWrapper_Crypto S mem ledger_type input =
     (if ledger_type = HASH_TYPE_SM3 then Sm3_Crypto mem input
      else sha_final S (sha_update S (sha_init S) input))"

section \<open>The text form of a private key\<close>

lemma number_append: "number (s @ t) = number s * 256 ^ length t + number t"
  by (simp add: number_def lsf_append)

lemma lsf_lower: "ds \<noteq> [] \<Longrightarrow> hd ds \<noteq> 0 \<Longrightarrow> b ^ (length ds - 1) \<le> lsf b (rev ds)"
proof (cases ds)
  case (Cons a list)
  assume "hd ds \<noteq> 0"
  then have "b ^ length list * 1 \<le> b ^ length list * a" unfolding Cons by (intro mult_le_mono2) simp
  moreover have "lsf b (rev (a # list)) = lsf b (rev list) + b ^ length list * a" by (simp add: lsf_append)
  ultimately have "b ^ length list \<le> lsf b (rev (a # list))" by linarith
  then show ?thesis unfolding Cons by simp
qed simp

text \<open>A number with the leading digits of \<open>pri\<close>.\<close>

lemma top_digits:
  assumes ds: "\<forall>d \<in> set ds. d < 58" "ds \<noteq> [] \<longrightarrow> hd ds \<noteq> 0" "lsf 58 (rev ds) = N"
    and N: "160991 * 58 ^ 47 \<le> N" "N < 160992 * 58 ^ 47"
  obtains rest where "ds = [47, 49, 41] @ rest" and "length rest = 47"
proof -
  have "N < 58 ^ length ds" using lsf_less [of "rev ds" 58] ds by simp
  moreover have "(58 :: nat) ^ 49 < 160991 * 58 ^ 47" by simp
  ultimately have "(58 :: nat) ^ 49 < 58 ^ length ds" using N(1) by linarith
  then have low: "49 < length ds" by (rule power_less_imp_less_exp [rotated]) simp
  then have "ds \<noteq> []" by auto
  then have "58 ^ (length ds - 1) \<le> N" using lsf_lower [of ds 58] ds by simp
  moreover have "160992 * (58 :: nat) ^ 47 < 58 ^ 50" by simp
  ultimately have "(58 :: nat) ^ (length ds - 1) < 58 ^ 50" using N(2) by linarith
  then have "length ds - 1 < 50" by (rule power_less_imp_less_exp [rotated]) simp
  with low have "length ds = Suc (Suc (Suc 47))" by simp
  then obtain a b c rest where d: "ds = a # b # c # rest" "length rest = 47" by (metis length_Suc_conv)
  then have lt: "a < 58" "b < 58" "c < 58" "lsf 58 (rev rest) < 58 ^ 47" using ds(1) lsf_less [of "rev rest" 58] by auto
  define q where "q = c + 58 * (b + 58 * a)"
  have "N = lsf 58 (rev rest) + 58 ^ 47 * q" using ds(3) d(2) unfolding d(1) q_def by (simp add: lsf_append algebra_simps)
  then have "N div 58 ^ 47 = q" using lt(4) by simp
  moreover have "N div 58 ^ 47 = 160991" using N by (intro div_nat_eqI) simp_all
  ultimately have q: "c + 58 * (b + 58 * a) = 160991" by (simp add: q_def)
  have digit: "x + 58 * m = j + 58 * k \<Longrightarrow> x < 58 \<Longrightarrow> j < 58 \<Longrightarrow> x = j \<and> m = k" for x m j k :: nat
  proof -
    assume e: "x + 58 * m = j + 58 * k" and lt: "x < 58" "j < 58"
    have "(x + 58 * m) mod 58 = x \<and> (x + 58 * m) div 58 = m" if "x < 58" for x m :: nat using that by simp
    from this [OF lt(1), of m] this [OF lt(2), of k] show ?thesis unfolding e by simp
  qed
  have c: "c = 41 \<and> b + 58 * a = 2775" by (rule digit) (use q lt in simp_all)
  have "b = 49 \<and> a = 47" by (rule digit) (use c lt in simp_all)
  with c d that show thesis by simp
qed

lemma private_text:
  assumes "length raw = 32"
  shows "\<exists>rest. EncodePrivateKey ([of_byte 24, of_byte 158, of_byte 153, t, f] @ raw) = ''pri'' @ rest \<and> length rest = 47"
    and "leading (\<lambda>c. byte c = 0) ([of_byte 24, of_byte 158, of_byte 153, t, f] @ raw) = 0"
proof -
  let ?s = "[of_byte 24, of_byte 158, of_byte 153, t, f] @ raw"
  show lead: "leading (\<lambda>c. byte c = 0) ?s = 0" by (simp add: leading_def)
  obtain ds where ds: "Base58_Encode ?s = replicate (leading (\<lambda>c. byte c = 0) ?s) (CHR ''1'') @ map (\<lambda>d. kBase58Dictionary ! d) ds"
    "lsf 58 (rev ds) = number ?s" "\<forall>d \<in> set ds. d < 58" "ds \<noteq> [] \<longrightarrow> hd ds \<noteq> 0"
    by (rule encode_digits [of ?s])
  have split: "?s = [of_byte 24, of_byte 158, of_byte 153] @ (t # f # raw)" by simp
  have "number ?s = 0x189e99 * 256 ^ 34 + number (t # f # raw)"
    unfolding split number_append using assms by (simp add: number_def)
  moreover have "number (t # f # raw) < 256 ^ 34" using number_less [of "t # f # raw"] assms by simp
  moreover have "160991 * (58 :: nat) ^ 47 \<le> 0x189e99 * 256 ^ 34" "0x189e99 * (256 :: nat) ^ 34 + 256 ^ 34 \<le> 160992 * 58 ^ 47" by simp_all
  ultimately have N: "160991 * 58 ^ 47 \<le> number ?s" "number ?s < 160992 * 58 ^ 47" by linarith+
  obtain rest where rest: "ds = [47, 49, 41] @ rest" "length rest = 47" by (rule top_digits [OF ds(3,4,2) N])
  have "map (\<lambda>d. kBase58Dictionary ! d) [47, 49, 41] = ''pri''" by (simp add: kBase58Dictionary_def)
  then show "\<exists>rest. EncodePrivateKey ?s = ''pri'' @ rest \<and> length rest = 47"
    using rest unfolding EncodePrivateKey_def ds(1) lead by (intro exI [of _ "map (\<lambda>d. kBase58Dictionary ! d) rest"]) simp
qed

lemma b58_decode_encode:
  assumes "crypto_ok L" and "length (Base58_Encode s) \<le> 100"
  shows "b58_decode L (Base58_Encode s) = Inr s"
proof -
  have "roomy (base58_size L) (length (Base58_Encode s) - leading (\<lambda>c. byte c = 0) s)"
    using assms by (simp add: crypto_ok_def)
  from decode_encode [OF this] show ?thesis by (simp add: b58_decode_def)
qed

text \<open>A prefix of addresses that no private key starts with, as \<open>did:bid:\<close>.\<close>

definition address_like :: "AddressPrefix \<Rightarrow> bool" where
  "address_like pre \<longleftrightarrow> address_prefix pre \<noteq> [] \<and> hd (address_prefix pre) \<noteq> CHR ''p''"

lemma private_element:
  assumes L: "crypto_ok L" and pre: "address_like pre" and raw: "length raw = 32" and t: "t < 256"
  shows "GetKeyElement L pre (EncodePrivateKey ([of_byte 24, of_byte 158, of_byte 153, of_byte t, of_byte ENCODETYPE_BASE58] @ raw)) el =
    Inr (True, el\<lparr>el_raw_data := raw, el_key_type := KEY_PRIVATEKEY, el_sign_type := t, el_encode_type := ENCODETYPE_BASE58\<rparr>)"
proof -
  let ?s = "[of_byte 24, of_byte 158, of_byte 153, of_byte t, of_byte ENCODETYPE_BASE58] @ raw"
  obtain rest where rest: "EncodePrivateKey ?s = ''pri'' @ rest" "length rest = 47"
    using private_text(1) [OF raw] by blast
  have "\<not> has_prefix (address_prefix pre) (''pri'' @ rest)"
    using pre by (cases "address_prefix pre") (auto simp: address_like_def has_prefix_def)
  moreover have "has_prefix ''pri'' (''pri'' @ rest)" by (rule has_prefix_append)
  moreover have "b58_decode L (''pri'' @ rest) = Inr ?s"
    using b58_decode_encode [OF L, of ?s] rest by (simp add: EncodePrivateKey_def)
  moreover have "length ?s = 37" "drop 5 ?s = raw" "byte (?s ! 3) = t" "byte (?s ! 4) = ENCODETYPE_BASE58"
    using raw t by (simp_all add: ENCODETYPE_BASE58_def)
  ultimately show ?thesis unfolding rest(1) GetKeyElement_def Let_def by (simp only: if_False if_True sum.case simp_thms)
qed

lemma public_element:
  assumes "t < 256"
  shows "GetPublicKeyElement (EncodePublicKey ([of_byte 0xb0, of_byte t, of_byte ENCODETYPE_BASE58] @ raw)) el =
    (True, el\<lparr>el_sign_type := t, el_encode_type := ENCODETYPE_BASE58, el_key_type := KEY_PUBLICKEY, el_raw_data := raw\<rparr>)"
  using assms
  by (simp add: GetPublicKeyElement_def EncodePublicKey_def DecodePublicKey_def HexStringToBin_BinToHexString Let_def
      ENCODETYPE_BASE58_def byte_def of_byte_def del: BinToHexString.simps)

section \<open>Signatures\<close>

text \<open>The key types with an algorithm.\<close>

definition signing_type :: "SignatureType \<Rightarrow> bool" where
  "signing_type t \<longleftrightarrow> t = SIGNTYPE_ED25519 \<or> t = SIGNTYPE_CFCASM2"

lemma signing_type_byte: "signing_type t \<Longrightarrow> t < 256" "SIGNTYPE_ED25519 \<noteq> SIGNTYPE_CFCASM2"
  by (auto simp: signing_type_def SIGNTYPE_ED25519_def SIGNTYPE_CFCASM2_def byte_eq_iff)

lemma From_private_text:
  assumes L: "crypto_ok L" and pre: "address_like pre" and raw: "length (priv_raw_priv_key k) = 32" and t: "priv_type k < 256"
  shows "PrivateKeyV4_From L pre kt junk (GetEncPrivateKey k) k0 =
    Inr (True, k0\<lparr>priv_type := priv_type k, priv_encode_type := ENCODETYPE_BASE58, priv_raw_priv_key := priv_raw_priv_key k,
      priv_pub_key := Some (new_public L junk (priv_type k) (public_of_raw L (priv_type k) (priv_raw_priv_key k))), priv_valid := True\<rparr>)"
  unfolding PrivateKeyV4_From_def Let_def GetEncPrivateKey_def private_element [OF L pre raw t] by simp

lemma Sign_length: "Sign E mem draws id_bin msg key = Some sig \<Longrightarrow> sig = [] \<or> length sig = 64"
  by (auto simp: Sign_def Let_def Bn2FixedString_def split: if_splits option.splits)

text \<open>A private key that was read, with an SM2 key in the range that can sign.\<close>

definition usable_key :: "'p crypto_lib \<Rightarrow> PrivateKeyV4 \<Rightarrow> bool" where
  "usable_key L k \<longleftrightarrow> signing_type (priv_type k) \<and> length (priv_raw_priv_key k) = 32 \<and>
     (\<exists>junk. priv_pub_key k = Some (new_public L junk (priv_type k) (public_of_raw L (priv_type k) (priv_raw_priv_key k)))) \<and>
     (priv_type k = SIGNTYPE_CFCASM2 \<longrightarrow>
        number (priv_raw_priv_key k) mod ec_order (cfca_group L) \<noteq> 0 \<and>
        (number (priv_raw_priv_key k) + 1) mod ec_order (cfca_group L) \<noteq> 0)"

lemma sm2_key_of_raw:
  assumes "ec_ok E" and "number raw mod ec_order E \<noteq> 0"
  shows "EccSm2_From E raw key0 = (True, snd (EccSm2_From E raw key0))" "sm2_dA (snd (EccSm2_From E raw key0)) = number raw"
    "sm2_key_ok E (snd (EccSm2_From E raw key0))"
proof -
  obtain xy where "ec_affine E (ec_mul E (number raw)) = Some xy" using ec_okD(4) [OF assms(1,2)] by auto
  moreover have "number raw \<noteq> ec_order E" using assms(2) by auto
  ultimately have run: "EccSm2_From E raw key0 =
      (True, key0\<lparr>sm2_valid := True, sm2_skey_bin := raw, sm2_dA := number raw, sm2_pkey := ec_mul E (number raw)\<rparr>)"
    by (simp add: EccSm2_From_def Let_def)
  then show read: "EccSm2_From E raw key0 = (True, snd (EccSm2_From E raw key0))" by simp
  show "sm2_dA (snd (EccSm2_From E raw key0)) = number raw" "sm2_key_ok E (snd (EccSm2_From E raw key0))"
    using From_key [OF read] by simp_all
qed

lemma signed_verifies:
  assumes L: "crypto_ok L" and k: "usable_key L k" and p: "priv_pub_key k = Some p"
    and draws: "in_range_draws (cfca_group L) draws" and run: "PrivateKeyV4_Sign L draws k input = Some (Inr sig)"
  shows "Verify L junk input sig (GetEncPublicKey p) = Inr True"
proof -
  let ?E = "cfca_group L" and ?raw = "priv_raw_priv_key k"
  have pub: "pub_raw_pub_key p = public_of_raw L (priv_type k) ?raw" "pub_type p = priv_type k"
    using k p by (auto simp: usable_key_def new_public_def PublicKeyV4_Init_def Let_def)
  have t: "signing_type (priv_type k)" "length ?raw = 32" using k by (simp_all add: usable_key_def)
  note el = public_element [OF signing_type_byte(1) [OF t(1)], of "public_of_raw L (priv_type k) ?raw" junk]
  have ver: "Verify L junk input sig (GetEncPublicKey p) =
      (if length sig \<noteq> 64 then Inr False
       else if priv_type k = SIGNTYPE_ED25519 then Inr (ed_open L input (public_of_raw L (priv_type k) ?raw) sig)
       else case sm2_verify ?E (sm3_mem L) (public_of_raw L (priv_type k) ?raw) sm2_id input sig of
           None \<Rightarrow> Inl OutOfRange | Some r \<Rightarrow> Inr (r = 1))"
    using t(1) unfolding Verify_def GetEncPublicKey_def pub el by (auto simp: signing_type_def)
  show ?thesis
  proof (cases "priv_type k = SIGNTYPE_ED25519")
    case True
    then have "sig = ed_sign L input ?raw (ed_publickey L ?raw)" "public_of_raw L (priv_type k) ?raw = ed_publickey L ?raw"
      using run p pub by (simp_all add: PrivateKeyV4_Sign_def public_of_raw_def)
    then show ?thesis using True t(2) L unfolding ver by (simp add: crypto_ok_def)
  next
    case False
    then have sm2: "priv_type k = SIGNTYPE_CFCASM2" using t(1) by (simp add: signing_type_def)
    let ?key = "snd (EccSm2_From ?E ?raw (EccSm2_new ?E))"
    have E: "ec_ok ?E" using L by (simp add: crypto_ok_def)
    note key = sm2_key_of_raw [OF E, of ?raw "EccSm2_new ?E"]
    have d: "number ?raw mod ec_order ?E \<noteq> 0" "(number ?raw + 1) mod ec_order ?E \<noteq> 0"
      using k sm2 by (simp_all add: usable_key_def)
    have sig: "Sign ?E (sm3_mem L) draws sm2_id input ?key = Some sig"
      using run sm2 False by (simp add: PrivateKeyV4_Sign_def Let_def)
    have good: "sm2_verify ?E (sm3_mem L) (GetPublicKey ?E ?key) sm2_id input sig = Some 1"
      by (rule sign_then_verify [OF E key(3) [OF d(1)] _ draws sig]) (use d(2) in \<open>simp only: key(2) [OF d(1)] not_False_eq_True\<close>)
    have "sig \<noteq> []" using good by (auto simp: sm2_verify_def number_def Let_def split: if_splits)
    then have "length sig = 64" using Sign_length [OF sig] by blast
    moreover have "public_of_raw L (priv_type k) ?raw = GetPublicKey ?E ?key" using False sm2 by (simp add: public_of_raw_def)
    ultimately show ?thesis using False good unfolding ver by simp
  qed
qed

section \<open>Addresses\<close>

lemma Base58_chars: "c \<in> set (Base58_Encode s) \<Longrightarrow> c \<in> set kBase58Dictionary"
proof -
  assume c: "c \<in> set (Base58_Encode s)"
  obtain ds where ds: "Base58_Encode s = replicate (leading (\<lambda>c. byte c = 0) s) (CHR ''1'') @ map (\<lambda>d. kBase58Dictionary ! d) ds"
    "\<forall>d \<in> set ds. d < 58" by (rule encode_digits [of s])
  have "length kBase58Dictionary = 58" "CHR ''1'' \<in> set kBase58Dictionary" by (simp_all add: kBase58Dictionary_def)
  then show ?thesis using c ds by (auto simp: in_set_conv_nth [of _ kBase58Dictionary])
qed

lemma Base58_length: "length (Base58_Encode s) \<le> length s + (length s * 138 div 100 + 1)"
proof -
  define k b58 where "k = length s * 138 div 100 + 1"
    and "b58 = push_chars 256 58 byte (replicate k 0) (drop (leading (\<lambda>c. byte c = 0) s - 1) s)"
  have "length b58 = k" using push_chars_value [of 58 "replicate k 0" 256 byte] by (simp add: b58_def)
  moreover have "length (Base58_Encode s) = leading (\<lambda>c. byte c = 0) s + length (dropWhile (\<lambda>d. d = 0) b58)"
    by (simp add: Base58_Encode_def Let_def b58_def push_chars_def k_def)
  moreover have "length (dropWhile (\<lambda>d. d = 0) b58) \<le> length b58" by (rule length_dropWhile_le)
  ultimately show ?thesis using leading_zero_bytes(1) [of s] by (simp add: k_def)
qed

text \<open>A prefix that ends with a colon and prints as it is.\<close>

definition prefix_ok :: "AddressPrefix \<Rightarrow> bool" where
  "prefix_ok pre \<longleftrightarrow> nul_free (chain_code pre) \<and> length (chain_code pre) < 1000 \<and>
     address_prefix pre \<noteq> [] \<and> (chain_code pre = [] \<longrightarrow> last (address_prefix pre) = CHR '':'')"

lemma address_text:
  assumes pre: "prefix_ok pre" and t: "t \<noteq> 0" "t < 256" "of_byte t \<noteq> CHR '':''" and len: "length raw \<le> 22"
  shows "AddressPrefix_Decode (KeypairUtils_EncodeAddress pre t ENCODETYPE_BASE58 raw) = of_byte t # CHR ''f'' # Base58_Encode raw"
    and "has_prefix (address_prefix pre) (KeypairUtils_EncodeAddress pre t ENCODETYPE_BASE58 raw)"
    and "AddressPrefix_Decode (of_byte t # CHR ''f'' # Base58_Encode raw) = of_byte t # CHR ''f'' # Base58_Encode raw"
proof -
  let ?a = "of_byte t # CHR ''f'' # Base58_Encode raw"
  have f: "of_byte ENCODETYPE_BASE58 = CHR ''f''" by (simp add: ENCODETYPE_BASE58_def)
  have chars: "CHR '':'' \<notin> set kBase58Dictionary" "CHR 0x00 \<notin> set kBase58Dictionary" by (simp_all add: kBase58Dictionary_def)
  have nul: "of_byte t \<noteq> CHR 0x00" using t(1,2) byte_of_byte [of t] by (auto simp: byte_def)
  have colon: "CHR '':'' \<notin> set ?a" "nul_free ?a" using Base58_chars [of _ raw] chars t(3) nul by (auto simp: nul_free_def)
  have "length ?a < 100" using Base58_length [of raw] len div_le_mono [of "length raw * 138" "22 * 138" 100] by simp
  then have enc: "KeypairUtils_EncodeAddress pre t ENCODETYPE_BASE58 raw =
      (address_prefix pre @ (if chain_code pre = [] then [] else chain_code pre @ '':'')) @ ?a"
    using Encode_shape [of pre ?a] pre colon(2) by (simp add: KeypairUtils_EncodeAddress_def prefix_ok_def f)
  let ?p = "address_prefix pre @ (if chain_code pre = [] then [] else chain_code pre @ '':'')"
  have p: "?p \<noteq> []" "last ?p = CHR '':''" using pre by (simp_all add: prefix_ok_def)
  show "AddressPrefix_Decode (KeypairUtils_EncodeAddress pre t ENCODETYPE_BASE58 raw) = ?a"
    unfolding enc AddressPrefix_Decode_def last_colon [OF colon(1) p] using p(1) by simp
  show "has_prefix (address_prefix pre) (KeypairUtils_EncodeAddress pre t ENCODETYPE_BASE58 raw)"
    unfolding enc append_assoc by (rule has_prefix_append)
  show "AddressPrefix_Decode ?a = ?a" using iffD2 [OF rfind_char_None colon(1)] by (simp only: AddressPrefix_Decode_def option.case)
qed

section \<open>Properties\<close>

text \<open>A library for the examples: a toy Ed25519 whose public key is the private one, the group of
  \<open>small_ec\<close>, and a size for Base58 that is large enough.\<close>

definition toy_lib :: "nat crypto_lib" where
  "toy_lib = \<lparr>ed_publickey = (\<lambda>sk. sk), ed_sign = (\<lambda>m sk pk. sk @ pk), ed_open = (\<lambda>m pk sig. sig = pk @ pk),
     sha256 = (\<lambda>m. replicate 32 (CHR ''h'')), cfca_group = small_ec, sm3_mem = blank_context, base58_size = (\<lambda>n. n + 2)\<rparr>"

lemma toy_lib_ok: "crypto_ok toy_lib"
proof -
  have "(58 :: nat) ^ n \<le> 256 ^ (n + 2)" for n
  proof -
    have "(58 :: nat) ^ n \<le> 256 ^ n" by (rule power_mono) simp_all
    also have "\<dots> \<le> (256 :: nat) ^ (n + 2)" by (rule power_increasing) simp_all
    finally show ?thesis .
  qed
  then show ?thesis by (simp add: crypto_ok_def toy_lib_def small_ec_ok roomy_def)
qed

definition blank_element :: KeyElement where
  "blank_element = \<lparr>el_key_type = KEY_ADDRESS, el_sign_type = 0, el_encode_type = 0, el_raw_data = []\<rparr>"

definition toy_key :: PrivateKeyV4 where
  "toy_key = PrivateKeyV4_Init toy_lib 0 SIGNTYPE_ED25519 (replicate 32 (CHR ''k'')) (PrivateKeyV4_blank 0)"

text \<open>C33: A private key written as text starts with \<open>pri\<close> and is read back: the same type, the same raw key,
  the same public key, whatever the object held before.\<close>

theorem private_key_text_is_read_back:
  assumes "crypto_ok L" and "address_like pre" and "length raw = 32" and "t < 256"
    and "k = PrivateKeyV4_Init L junk t raw k0"
  shows "has_prefix ''pri'' (GetEncPrivateKey k) \<and>
    (\<exists>k'. PrivateKeyV4_From L pre kt junk (GetEncPrivateKey k) k1 = Inr (True, k') \<and>
       priv_valid k' \<and> priv_type k' = t \<and> priv_raw_priv_key k' = raw \<and> priv_pub_key k' = priv_pub_key k)"
proof -
  have k: "priv_raw_priv_key k = raw" "priv_type k = t" "priv_pub_key k = Some (new_public L junk t (public_of_raw L t raw))"
    using assms(5) by (simp_all add: PrivateKeyV4_Init_def)
  have "has_prefix ''pri'' (GetEncPrivateKey k)"
    using private_text(1) [OF assms(3), of "of_byte t" "of_byte ENCODETYPE_BASE58"] has_prefix_append [of "''pri''"]
    unfolding GetEncPrivateKey_def k by metis
  then show ?thesis using From_private_text [OF assms(1,2), of k kt junk k1] assms(3,4) k by simp
qed

theorem private_key_text_is_read_back_witness:
  "\<exists>k'. PrivateKeyV4_From toy_lib AddressPrefix_Initialize KEY_ADDRESS 0 (GetEncPrivateKey toy_key) toy_key = Inr (True, k') \<and>
     priv_raw_priv_key k' = replicate 32 (CHR ''k'')"
proof -
  have pre: "address_like AddressPrefix_Initialize" by (simp add: address_like_def AddressPrefix_Initialize_def)
  have "SIGNTYPE_ED25519 < 256" "length (replicate 32 (CHR ''k'')) = 32" by (simp_all add: SIGNTYPE_ED25519_def)
  from private_key_text_is_read_back [OF toy_lib_ok pre this(2,1) toy_key_def, of KEY_ADDRESS toy_key] show ?thesis by blast
qed

text \<open>C34: A signature made with a private key that was read from its text form passes \<open>Verify\<close> with the text
  form of its public key, for Ed25519 and for SM2, whatever is drawn, unless the SM2 key is 0 or
  \<open>-1\<close> modulo the order.\<close>

theorem signature_passes_verify:
  assumes "crypto_ok L" and "address_like pre" and "signing_type t" and "length raw = 32"
    and "t = SIGNTYPE_CFCASM2 \<longrightarrow> number raw mod ec_order (cfca_group L) \<noteq> 0 \<and> (number raw + 1) mod ec_order (cfca_group L) \<noteq> 0"
    and "PrivateKeyV4_From L pre kt junk (GetEncPrivateKey (PrivateKeyV4_Init L junk t raw k0)) k1 = Inr (True, k)"
    and "priv_pub_key k = Some p" and "in_range_draws (cfca_group L) draws"
    and "PrivateKeyV4_Sign L draws k input = Some (Inr sig)"
  shows "Verify L el input sig (GetEncPublicKey p) = Inr True"
proof -
  have "usable_key L k"
    using assms(5,6) From_private_text [OF assms(1,2), of "PrivateKeyV4_Init L junk t raw k0" kt junk k1]
      signing_type_byte(1) [OF assms(3)] assms(3,4)
    by (auto simp: usable_key_def PrivateKeyV4_Init_def)
  from signed_verifies [OF assms(1) this assms(7-9)] show ?thesis .
qed

theorem signature_passes_verify_witness:
  "\<exists>k p sig. PrivateKeyV4_From toy_lib AddressPrefix_Initialize KEY_ADDRESS 0 (GetEncPrivateKey toy_key) toy_key = Inr (True, k) \<and>
     PrivateKeyV4_Sign toy_lib [] k ''text'' = Some (Inr sig) \<and> priv_pub_key k = Some p \<and>
     Verify toy_lib blank_element ''text'' sig (GetEncPublicKey p) = Inr True"
proof -
  let ?raw = "replicate 32 (CHR ''k'')"
  have pre: "address_like AddressPrefix_Initialize" by (simp add: address_like_def AddressPrefix_Initialize_def)
  have t: "signing_type SIGNTYPE_ED25519" by (simp add: signing_type_def)
  have raw: "length ?raw = 32" by simp
  define k where "k = toy_key\<lparr>priv_type := SIGNTYPE_ED25519, priv_encode_type := ENCODETYPE_BASE58, priv_raw_priv_key := ?raw,
      priv_pub_key := Some (new_public toy_lib 0 SIGNTYPE_ED25519 (public_of_raw toy_lib SIGNTYPE_ED25519 ?raw)), priv_valid := True\<rparr>"
  define p where "p = new_public toy_lib 0 SIGNTYPE_ED25519 (public_of_raw toy_lib SIGNTYPE_ED25519 ?raw)"
  have toy: "priv_raw_priv_key toy_key = ?raw" "priv_type toy_key = SIGNTYPE_ED25519" by (simp_all add: toy_key_def PrivateKeyV4_Init_def)
  have read: "PrivateKeyV4_From toy_lib AddressPrefix_Initialize KEY_ADDRESS 0 (GetEncPrivateKey toy_key) toy_key = Inr (True, k)"
    using From_private_text [OF toy_lib_ok pre, of toy_key KEY_ADDRESS 0 toy_key] signing_type_byte(1) [OF t] raw
    unfolding toy k_def by simp
  obtain sig where sig: "PrivateKeyV4_Sign toy_lib [] k ''text'' = Some (Inr sig)" by (simp add: PrivateKeyV4_Sign_def k_def)
  have draws: "in_range_draws (cfca_group toy_lib) []" by (simp add: in_range_draws_def)
  have "SIGNTYPE_ED25519 = SIGNTYPE_CFCASM2 \<longrightarrow> number ?raw mod ec_order (cfca_group toy_lib) \<noteq> 0 \<and>
      (number ?raw + 1) mod ec_order (cfca_group toy_lib) \<noteq> 0" using signing_type_byte(2) by simp
  from signature_passes_verify [OF toy_lib_ok pre t raw this read [unfolded toy_key_def] _ draws sig] show ?thesis
    using read sig by (auto simp: k_def)
qed

text \<open>The length of a public key is not checked, although the code compares it: the text form of any bytes
  with the right first three is accepted. With an empty SM2 key \<open>Verify\<close> throws, whatever the
  message and the signature of 64 bytes are.\<close>

theorem public_key_length_is_not_checked:
  assumes "length sig = 64"
  shows "fst (GetPublicKeyElement (EncodePublicKey ([of_byte 0xb0, CHR ''z'', CHR ''f''] @ raw)) el) \<and>
    el_raw_data (snd (GetPublicKeyElement (EncodePublicKey ([of_byte 0xb0, CHR ''z'', CHR ''f''] @ raw)) el)) = raw \<and>
    Verify L el input sig (EncodePublicKey [of_byte 0xb0, CHR ''z'', CHR ''f'']) = Inl OutOfRange"
proof -
  have sm2: "SIGNTYPE_CFCASM2 < 256" "of_byte SIGNTYPE_CFCASM2 = CHR ''z''" "of_byte ENCODETYPE_BASE58 = CHR ''f''"
    by (simp_all add: SIGNTYPE_CFCASM2_def ENCODETYPE_BASE58_def)
  note any = public_element [OF sm2(1), unfolded sm2(2,3)]
  have "Verify L el input sig (EncodePublicKey ([of_byte 0xb0, CHR ''z'', CHR ''f''] @ [])) = Inl OutOfRange"
    using assms signing_type_byte(2) unfolding Verify_def any by (simp add: sm2_verify_def)
  then show ?thesis unfolding any by simp
qed

theorem public_key_length_is_not_checked_witness:
  "Verify toy_lib blank_element ''text'' (replicate 64 (CHR ''s'')) (EncodePublicKey [of_byte 0xb0, CHR ''z'', CHR ''f'']) = Inl OutOfRange"
  using public_key_length_is_not_checked [of "replicate 64 (CHR ''s'')" "[]" blank_element toy_lib "''text''"] by simp

text \<open>C35: An encoded address decodes to its raw bytes, but \<open>GetKeyElement\<close> then drops two of the 22 bytes as if
  the type bytes were still in front of them.\<close>

theorem address_element_loses_two_bytes:
  assumes "crypto_ok L" and "prefix_ok pre" and "signing_type t" and "length raw = 22"
  shows "DecodeAddress L (KeypairUtils_EncodeAddress pre t ENCODETYPE_BASE58 raw) = Inr raw \<and>
    (\<exists>el'. GetKeyElement L pre (KeypairUtils_EncodeAddress pre t ENCODETYPE_BASE58 raw) el = Inr (True, el') \<and>
       el_key_type el' = KEY_ADDRESS \<and> el_sign_type el' = t \<and> el_raw_data el' = drop 2 raw)"
proof -
  have t: "t \<noteq> 0" "t < 256" "of_byte t \<noteq> CHR '':''" "byte (of_byte t) = t"
    using assms(3) by (auto simp: signing_type_def SIGNTYPE_ED25519_def SIGNTYPE_CFCASM2_def) (simp_all add: byte_def)
  have f: "byte (CHR ''f'') = ENCODETYPE_BASE58" by (simp add: ENCODETYPE_BASE58_def)
  have len: "length raw \<le> 22" using assms(4) by simp
  note text_form = address_text [OF assms(2) t(1-3) len]
  have "length (Base58_Encode raw) \<le> 100" using Base58_length [of raw] assms(4) by simp
  note dec = b58_decode_encode [OF assms(1) this]
  have inner: "DecodeAddress L (of_byte t # CHR ''f'' # Base58_Encode raw) = Inr raw"
    unfolding DecodeAddress_def text_form(3) Let_def by (simp add: dec)
  have "2 \<le> length (KeypairUtils_EncodeAddress pre t ENCODETYPE_BASE58 raw)"
  proof -
    have "length (AddressPrefix_Decode s) \<le> length s" for s by (simp add: AddressPrefix_Decode_def split: option.splits)
    from this [of "KeypairUtils_EncodeAddress pre t ENCODETYPE_BASE58 raw"] show ?thesis by (simp add: text_form(1))
  qed
  then have "DecodeAddress L (KeypairUtils_EncodeAddress pre t ENCODETYPE_BASE58 raw) = Inr raw"
    unfolding DecodeAddress_def text_form(1) Let_def by (simp add: dec)
  moreover have "GetKeyElement L pre (KeypairUtils_EncodeAddress pre t ENCODETYPE_BASE58 raw) el =
      Inr (True, el\<lparr>el_raw_data := drop 2 raw, el_key_type := KEY_ADDRESS, el_sign_type := t, el_encode_type := ENCODETYPE_BASE58\<rparr>)"
    unfolding GetKeyElement_def text_form(1) Let_def inner using text_form(2) assms(4) by (simp add: t(4) f)
  ultimately show ?thesis by simp
qed

theorem address_element_loses_two_bytes_witness:
  "DecodeAddress toy_lib (KeypairUtils_EncodeAddress AddressPrefix_Initialize SIGNTYPE_ED25519 ENCODETYPE_BASE58 (replicate 22 (CHR ''a''))) =
     Inr (replicate 22 (CHR ''a''))"
proof -
  have "prefix_ok AddressPrefix_Initialize" "signing_type SIGNTYPE_ED25519" "length (replicate 22 (CHR ''a'')) = 22"
    by (simp_all add: prefix_ok_def AddressPrefix_Initialize_def nul_free_def signing_type_def)
  from address_element_loses_two_bytes [OF toy_lib_ok this] show ?thesis by blast
qed

text \<open>The table of addresses is keyed by the raw public key only: once an address was made, a later change
  of the prefix, of the chain code or of the key type does not show in \<open>GetEncAddress\<close>.\<close>

theorem cached_address_survives_changes:
  assumes "GetEncAddress L pre k g = (a, g')" and "pub_raw_pub_key k' = pub_raw_pub_key k"
  shows "GetEncAddress L pre' k' g' = (a, g')"
  using assms by (auto simp: GetEncAddress_def Let_def split: option.splits)

theorem cached_address_survives_changes_witness:
  "fst (GetEncAddress toy_lib (UpdateChainCode ''abcd'' AddressPrefix_Initialize) (PublicKeyV4_new 0 True SIGNTYPE_ED25519)
     (snd (GetEncAddress toy_lib AddressPrefix_Initialize (PublicKeyV4_new 0 True SIGNTYPE_ED25519) Map.empty))) =
   fst (GetEncAddress toy_lib AddressPrefix_Initialize (PublicKeyV4_new 0 True SIGNTYPE_ED25519) Map.empty)"
proof -
  let ?r = "GetEncAddress toy_lib AddressPrefix_Initialize (PublicKeyV4_new 0 True SIGNTYPE_ED25519) Map.empty"
  have "?r = (fst ?r, snd ?r)" by simp
  from cached_address_survives_changes [OF this refl] show ?thesis by simp
qed

end
