(* ===== verification/Configure.thy ===== *)
theory Configure
  imports Aes Private_Key Sample_Json
begin

text \<open>
  \<open>main/configure.cpp\<close> and \<open>common/configure_base.cpp\<close>: reading the configuration. Every \<open>Load\<close> is a program
  on the object it fills, so that a key that is missing leaves what was there before; the objects start
  with the values of their constructors, and with whatever memory held (\<open>junk\<close>) where these set none.
  A value of the wrong JSON type throws (\<open>Thrown\<close>). A private key is decrypted when it is not in clear,
  read, and its address made; the table of addresses is part of the state.

  Proved: a configuration that is accepted has usable keys with their addresses, prices that are not too
  low and complete topics; what the level and destination texts of the logger mean.
\<close>

section \<open>Objects\<close>

record LoggerConfigure =
  log_path :: string
  dest_str :: string
  level_str :: string
  time_capacity :: int
  size_capacity :: int
  log_dest :: nat
  log_level :: nat
  expire_days :: int

record WebServerConfigure =
  web_port :: nat
  web_thread_count :: nat

record configure =
  logger_configure :: LoggerConfigure
  layer1_configure :: Layer1Configure
  layer2_configure :: Layer2Configure
  webserver_configure :: WebServerConfigure
  pub_to_address :: "string \<rightharpoonup> string"      \<comment> \<open>\<open>g_pub_to_address\<close>\<close>

text \<open>What is outside: jsoncpp, the two cryptographic libraries, the address prefix, and the contents of
  members that no constructor sets.\<close>

record ('p, 'j) config_env =
  cf_json :: "'j json_lib"
  cf_parse :: "string \<Rightarrow> 'j option"       \<comment> \<open>\<open>Json::Reader::parse\<close>\<close>
  cf_crypto :: "'p crypto_lib"
  cf_aes :: aes_lib
  cf_prefix :: AddressPrefix
  cf_key_type :: KeyType
  cf_encode_type :: EncodeType

definition LOG_DEST_NONE :: nat where "LOG_DEST_NONE = 0x00"
definition LOG_DEST_FILE :: nat where "LOG_DEST_FILE = 0x01"
definition LOG_DEST_OUT :: nat where "LOG_DEST_OUT = 0x02"
definition LOG_DEST_ERR :: nat where "LOG_DEST_ERR = 0x04"
definition LOG_DEST_PERFORMANCE :: nat where "LOG_DEST_PERFORMANCE = 0x08"
definition LOG_DEST_ALL :: nat where "LOG_DEST_ALL = 0xFF"

definition LOG_LEVEL_NONE :: nat where "LOG_LEVEL_NONE = 0x00"
definition LOG_LEVEL_TRACE :: nat where "LOG_LEVEL_TRACE = 0x01"
definition LOG_LEVEL_DEBUG :: nat where "LOG_LEVEL_DEBUG = 0x02"
definition LOG_LEVEL_INFO :: nat where "LOG_LEVEL_INFO = 0x04"
definition LOG_LEVEL_WARN :: nat where "LOG_LEVEL_WARN = 0x08"
definition LOG_LEVEL_ERROR :: nat where "LOG_LEVEL_ERROR = 0x10"
definition LOG_LEVEL_FATAL :: nat where "LOG_LEVEL_FATAL = 0x20"
definition LOG_LEVEL_PERFORMANCE :: nat where "LOG_LEVEL_PERFORMANCE = 0x40"
definition LOG_LEVEL_ALL :: nat where "LOG_LEVEL_ALL = 0xFF"

definition LoggerConfigure_new :: LoggerConfigure where
  "LoggerConfigure_new = \<lparr>log_path = [], dest_str = [], level_str = [], time_capacity = 30, size_capacity = 100,
     log_dest = LOG_DEST_OUT OR LOG_DEST_FILE, log_level = LOG_LEVEL_ALL, expire_days = 10\<rparr>"

definition WebServerConfigure_new :: WebServerConfigure where
  "WebServerConfigure_new = \<lparr>web_port = 8080, web_thread_count = 8\<rparr>"

text \<open>The numbers of the layers have no initial value.\<close>

definition Layer1Configure_new :: "int \<Rightarrow> int \<Rightarrow> Layer1Configure" where
  "Layer1Configure_new junk_fee junk_price =
     \<lparr>http_endpoint = [], ws_endpoint = [], cross_contract = [], private_key = [], agent_address = [],
      start_tx_topic = [], send_tx_topic = [], ack_tx_topic = [], cfg_fee_limit = junk_fee, cfg_gas_price = junk_price,
      manager_contract = [], topics = []\<rparr>"

definition Layer2Configure_new :: "int \<Rightarrow> int \<Rightarrow> int \<Rightarrow> Layer2Configure" where
  "Layer2Configure_new junk_fee junk_price junk_id =
     \<lparr>http_endpoint = [], ws_endpoint = [], cross_contract = [], private_key = [], agent_address = [],
      start_tx_topic = [], send_tx_topic = [], ack_tx_topic = [], cfg_fee_limit = junk_fee, cfg_gas_price = junk_price,
      layer2_id = junk_id\<rparr>"

section \<open>Reading values\<close>

text \<open>\<open>ConfigureBase::GetValue\<close>; \<open>as\<close> is the conversion of its version, \<open>put\<close> the variable it is given.\<close>

definition GetValue :: "'j json_lib \<Rightarrow> ('j \<Rightarrow> 'a option) \<Rightarrow> 'j \<Rightarrow> string \<Rightarrow> ('a \<Rightarrow> 's \<Rightarrow> 's) \<Rightarrow> (unit, 's) prog" where
  "GetValue J as v key put =
     andThen (orFault Thrown (js_isMember J v key)) (\<lambda>member.
     if member then
       andThen (orFault Thrown (js_get J v key)) (\<lambda>x.
       andThen (orFault Thrown (as x)) (\<lambda>a. change (put a)))
     else ret ())"

primrec in_turn :: "(unit, 's) prog list \<Rightarrow> (unit, 's) prog" where
  "in_turn [] = ret ()"
| "in_turn (m # ms) = andThen m (\<lambda>_. in_turn ms)"

text \<open>The state while a layer is loaded: its object, and the table of addresses.\<close>

definition set_layer :: "('z LayerConfigure_scheme \<Rightarrow> 'z LayerConfigure_scheme) \<Rightarrow>
    'z LayerConfigure_scheme \<times> 'g \<Rightarrow> 'z LayerConfigure_scheme \<times> 'g" where
  "set_layer f = (\<lambda>(c, g). (f c, g))"

text \<open>The private key in clear, and the object made from it.\<close>

definition clear_key :: "('p, 'j) config_env \<Rightarrow> string \<Rightarrow> string" where
  "clear_key N key = (if take 3 key \<noteq> ''pri'' then HexDecrypto (cf_aes N) key GetDataSecuretKey else key)"

definition load_key :: "('p, 'j) config_env \<Rightarrow> (bool, 'z LayerConfigure_scheme \<times> (string \<rightharpoonup> string)) prog" where
  "load_key N =
     andThen (change (set_layer (\<lambda>c. c\<lparr>private_key := clear_key N (private_key c)\<rparr>))) (\<lambda>_.
     andThen (read_state (\<lambda>(c, g). PrivateKeyV4_From (cf_crypto N) (cf_prefix N) (cf_key_type N) (cf_encode_type N)
        (private_key c) (PrivateKeyV4_blank (cf_encode_type N)))) (\<lambda>r.
     case r of
       Inl f \<Rightarrow> fault f
     | Inr (_, priv) \<Rightarrow>
         if \<not> priv_valid priv then ret False
         else
           andThen (orFault NullPointer (priv_pub_key priv)) (\<lambda>pub.
           andThen (read_state (\<lambda>(c, g). GetEncAddress (cf_crypto N) (cf_prefix N) pub g)) (\<lambda>(address, g').
           andThen (change (\<lambda>(c, g). (c\<lparr>agent_address := address\<rparr>, g'))) (\<lambda>_. ret True)))))"

definition raise_prices :: "'z LayerConfigure_scheme \<Rightarrow> 'z LayerConfigure_scheme" where
  "raise_prices c =
     (let c = (if cfg_gas_price c < 1 then c\<lparr>cfg_gas_price := 1\<rparr> else c)
      in if cfg_fee_limit c < 20000 then c\<lparr>cfg_fee_limit := 20000\<rparr> else c)"

definition default_topics :: "'z LayerConfigure_scheme \<Rightarrow> 'z LayerConfigure_scheme" where
  "default_topics c =
     (let c = (if start_tx_topic c = [] then c\<lparr>start_tx_topic := ''2b543a7f49dd6ca6d30b8c2491cdce5a52e11bf1169943cd065a4f64b3f50e6b''\<rparr> else c);
          c = (if send_tx_topic c = [] then c\<lparr>send_tx_topic := ''484087f6a046ffc37d32313f7ef1ad396194834491546b43547d08f91b9ed773''\<rparr> else c)
      in if ack_tx_topic c = [] then c\<lparr>ack_tx_topic := ''424ebb38adf5561feffc826f8b8e6073045b5665e75cbfee188470bfb6ad6af5''\<rparr> else c)"

definition read_topics :: "('p, 'j) config_env \<Rightarrow> 'j \<Rightarrow> (unit, 'z LayerConfigure_scheme \<times> (string \<rightharpoonup> string)) prog" where
  "read_topics N cross_topic = in_turn
     [GetValue (cf_json N) (js_asString (cf_json N)) cross_topic ''start_tx'' (\<lambda>s. set_layer (\<lambda>c. c\<lparr>start_tx_topic := s\<rparr>)),
      GetValue (cf_json N) (js_asString (cf_json N)) cross_topic ''send_tx'' (\<lambda>s. set_layer (\<lambda>c. c\<lparr>send_tx_topic := s\<rparr>)),
      GetValue (cf_json N) (js_asString (cf_json N)) cross_topic ''send_ack'' (\<lambda>s. set_layer (\<lambda>c. c\<lparr>ack_tx_topic := s\<rparr>))]"

definition load_topics :: "('p, 'j) config_env \<Rightarrow> 'j \<Rightarrow> (unit, 'z LayerConfigure_scheme \<times> (string \<rightharpoonup> string)) prog" where
  "load_topics N v =
     andThen (orFault Thrown (js_isMember (cf_json N) v ''cross_topic'')) (\<lambda>member.
     andThen (if member then andThen (orFault Thrown (js_get (cf_json N) v ''cross_topic'')) (read_topics N) else ret ()) (\<lambda>_.
     change (set_layer default_topics)))"

definition load_endpoints :: "('p, 'j) config_env \<Rightarrow> 'j \<Rightarrow> (unit, 'z LayerConfigure_scheme \<times> (string \<rightharpoonup> string)) prog" where
  "load_endpoints N v = in_turn
     [GetValue (cf_json N) (js_asString (cf_json N)) v ''http_endpoint'' (\<lambda>s. set_layer (\<lambda>c. c\<lparr>http_endpoint := s\<rparr>)),
      GetValue (cf_json N) (js_asString (cf_json N)) v ''ws_endpoint'' (\<lambda>s. set_layer (\<lambda>c. c\<lparr>ws_endpoint := s\<rparr>)),
      GetValue (cf_json N) (js_asString (cf_json N)) v ''cross_contract'' (\<lambda>s. set_layer (\<lambda>c. c\<lparr>cross_contract := s\<rparr>))]"

definition load_prices :: "('p, 'j) config_env \<Rightarrow> 'j \<Rightarrow> (unit, 'z LayerConfigure_scheme \<times> (string \<rightharpoonup> string)) prog" where
  "load_prices N v = in_turn
     [GetValue (cf_json N) (js_asInt64 (cf_json N)) v ''fee_limit'' (\<lambda>n. set_layer (\<lambda>c. c\<lparr>cfg_fee_limit := n\<rparr>)),
      GetValue (cf_json N) (js_asInt64 (cf_json N)) v ''gas_price'' (\<lambda>n. set_layer (\<lambda>c. c\<lparr>cfg_gas_price := n\<rparr>)),
      GetValue (cf_json N) (js_asString (cf_json N)) v ''private_key'' (\<lambda>s. set_layer (\<lambda>c. c\<lparr>private_key := s\<rparr>))]"

section \<open>The parts of the configuration\<close>

definition Layer1Configure_Load :: "('p, 'j) config_env \<Rightarrow> 'j \<Rightarrow> (bool, Layer1Configure \<times> (string \<rightharpoonup> string)) prog" where
  "Layer1Configure_Load N v =
     andThen (load_endpoints N v) (\<lambda>_.
     andThen (load_prices N v) (\<lambda>_.
     andThen (load_key N) (\<lambda>valid.
     if \<not> valid then ret False
     else
       andThen (change (set_layer (\<lambda>c. (raise_prices c)\<lparr>manager_contract := ''did:bid:efEnXEGWYjHRw1CzK4KpWTdusnaRokk8'',
          topics := strtok_char ''RegisterAgent|FreezeAgent|UnfreezeAgent|StopUsingAgent|Submit'' (CHR ''|'')\<rparr>))) (\<lambda>_.
       andThen (load_topics N v) (\<lambda>_. ret True)))))"

definition Layer2Configure_Load :: "('p, 'j) config_env \<Rightarrow> 'j \<Rightarrow> (bool, Layer2Configure \<times> (string \<rightharpoonup> string)) prog" where
  "Layer2Configure_Load N v =
     andThen (load_endpoints N v) (\<lambda>_.
     andThen (GetValue (cf_json N) (js_asInt64 (cf_json N)) v ''layer2_id'' (\<lambda>n. set_layer (\<lambda>c. c\<lparr>layer2_id := n\<rparr>))) (\<lambda>_.
     andThen (load_prices N v) (\<lambda>_.
     andThen (load_key N) (\<lambda>valid.
     if \<not> valid then ret False
     else
       andThen (change (set_layer raise_prices)) (\<lambda>_.
       andThen (load_topics N v) (\<lambda>_. ret True))))))"

definition WebServerConfigure_Load :: "('p, 'j) config_env \<Rightarrow> 'j \<Rightarrow> (bool, WebServerConfigure) prog" where
  "WebServerConfigure_Load N v =
     andThen (in_turn
       [GetValue (cf_json N) (js_asUInt (cf_json N)) v ''listen_port'' (\<lambda>n c. c\<lparr>web_port := n\<rparr>),
        GetValue (cf_json N) (js_asUInt (cf_json N)) v ''thread_count'' (\<lambda>n c. c\<lparr>web_thread_count := n\<rparr>)]) (\<lambda>_. ret True)"

definition add_dest :: "string \<Rightarrow> nat \<Rightarrow> nat" where
  "add_dest dest flags =
     (let destitem = ToUpper dest in
      if destitem = ''ALL'' then LOG_DEST_ALL
      else if destitem = ''STDOUT'' then flags OR LOG_DEST_OUT
      else if destitem = ''STDERR'' then flags OR LOG_DEST_ERR
      else if destitem = ''FILE'' then flags OR LOG_DEST_FILE
      else if destitem = ''PERFORMANCE'' then flags OR LOG_DEST_PERFORMANCE
      else flags)"

definition add_level :: "string \<Rightarrow> nat \<Rightarrow> nat" where
  "add_level level flags =
     (let levelitem = ToUpper level in
      if levelitem = ''ALL'' then LOG_LEVEL_ALL
      else if levelitem = ''TRACE'' then flags OR LOG_LEVEL_TRACE
      else if levelitem = ''DEBUG'' then flags OR LOG_LEVEL_DEBUG
      else if levelitem = ''INFO'' then flags OR LOG_LEVEL_INFO
      else if levelitem = ''WARNING'' then flags OR LOG_LEVEL_WARN
      else if levelitem = ''ERROR'' then flags OR LOG_LEVEL_ERROR
      else if levelitem = ''FATAL'' then flags OR LOG_LEVEL_FATAL
      else if levelitem = ''PERFORMANCE'' then flags OR LOG_LEVEL_PERFORMANCE
      else flags)"

text \<open>The time capacity is a signed 32-bit number; the size capacity is multiplied as an unsigned 64-bit one.\<close>

definition LoggerConfigure_Load :: "('p, 'j) config_env \<Rightarrow> 'j \<Rightarrow> (bool, LoggerConfigure) prog" where
  "LoggerConfigure_Load N v =
     andThen (in_turn
       [GetValue (cf_json N) (js_asString (cf_json N)) v ''path'' (\<lambda>s c. c\<lparr>log_path := s\<rparr>),
        GetValue (cf_json N) (js_asString (cf_json N)) v ''dest'' (\<lambda>s c. c\<lparr>dest_str := s\<rparr>),
        GetValue (cf_json N) (js_asString (cf_json N)) v ''level'' (\<lambda>s c. c\<lparr>level_str := s\<rparr>),
        GetValue (cf_json N) (js_asInt (cf_json N)) v ''time_capacity'' (\<lambda>n c. c\<lparr>time_capacity := n\<rparr>),
        GetValue (cf_json N) (js_asInt64 (cf_json N)) v ''size_capacity'' (\<lambda>n c. c\<lparr>size_capacity := n\<rparr>),
        GetValue (cf_json N) (js_asInt (cf_json N)) v ''expire_days'' (\<lambda>n c. c\<lparr>expire_days := n\<rparr>)]) (\<lambda>_.
     andThen (read_state time_capacity) (\<lambda>days.
     if \<not> fits32 (days * (3600 * 24)) then fault SignedOverflow
     else
       andThen (change (\<lambda>c. c\<lparr>time_capacity := days * (3600 * 24), size_capacity := i64 (size_capacity c * (1024 * 1024)),
          log_dest := fold add_dest (strtok_char (dest_str c) (CHR ''|'')) LOG_DEST_NONE,
          log_level := fold add_level (strtok_char (level_str c) (CHR ''|'')) LOG_LEVEL_NONE\<rparr>)) (\<lambda>_. ret True)))"

section \<open>The whole configuration\<close>

definition load_member :: "('p, 'j) config_env \<Rightarrow> 'j \<Rightarrow> string \<Rightarrow> ('j \<Rightarrow> (bool, configure) prog) \<Rightarrow> (bool, configure) prog" where
  "load_member N values key load = andThen (orFault Thrown (js_get (cf_json N) values key)) load"

definition have_members :: "'j json_lib \<Rightarrow> 'j \<Rightarrow> string list \<Rightarrow> (bool, 's) prog" where
  "have_members J values ks =
     foldr (\<lambda>k m. andThen (orFault Thrown (js_isMember J values k)) (\<lambda>b. if b then m else ret False)) ks (ret True)"

definition LoadFromJson :: "('p, 'j) config_env \<Rightarrow> 'j \<Rightarrow> (bool, configure) prog" where
  "LoadFromJson N values =
     andThen (have_members (cf_json N) values [''logger'', ''layer1'', ''webserver'', ''layer2'']) (\<lambda>all.
     if \<not> all then ret False
     else
       andThen (load_member N values ''logger'' (\<lambda>v.
          in_part logger_configure (\<lambda>l c. c\<lparr>logger_configure := l\<rparr>) (LoggerConfigure_Load N v))) (\<lambda>ok.
       if \<not> ok then ret False
       else andThen (load_member N values ''layer1'' (\<lambda>v.
          in_part (\<lambda>c. (layer1_configure c, pub_to_address c)) (\<lambda>(l, g) c. c\<lparr>layer1_configure := l, pub_to_address := g\<rparr>)
            (Layer1Configure_Load N v))) (\<lambda>ok.
       if \<not> ok then ret False
       else andThen (load_member N values ''layer2'' (\<lambda>v.
          in_part (\<lambda>c. (layer2_configure c, pub_to_address c)) (\<lambda>(l, g) c. c\<lparr>layer2_configure := l, pub_to_address := g\<rparr>)
            (Layer2Configure_Load N v))) (\<lambda>ok.
       if \<not> ok then ret False
       else load_member N values ''webserver'' (\<lambda>v.
          in_part webserver_configure (\<lambda>l c. c\<lparr>webserver_configure := l\<rparr>) (WebServerConfigure_Load N v))))))"

text \<open>\<open>ConfigureBase::Load\<close>; \<open>contents\<close> is \<open>None\<close> when the file cannot be opened. One megabyte is read.\<close>

definition ConfigureBase_Load :: "('p, 'j) config_env \<Rightarrow> string option \<Rightarrow> (bool, configure) prog" where
  "ConfigureBase_Load N contents =
     (case contents of
        None \<Rightarrow> ret False
      | Some data \<Rightarrow>
          (case cf_parse N (take (1024 * 1024) data) of
             None \<Rightarrow> ret False
           | Some values \<Rightarrow> LoadFromJson N values))"

section \<open>What is accepted\<close>

definition key_address :: "('p, 'j) config_env \<Rightarrow> PublicKeyV4 \<Rightarrow> string" where
  "key_address N pub = KeypairUtils_EncodeAddress (cf_prefix N) (pub_type pub) ENCODETYPE_BASE58
     (drop 10 (CalcHash (cf_crypto N) (pub_raw_pub_key pub) (pub_type pub)))"

text \<open>The key reads as a private key with the public key \<open>pub\<close>; prices and topics are set.\<close>

definition usable_layer :: "('p, 'j) config_env \<Rightarrow> PublicKeyV4 \<Rightarrow> 'z LayerConfigure_scheme \<Rightarrow> bool" where
  "usable_layer N pub c \<longleftrightarrow>
     (\<exists>priv. PrivateKeyV4_From (cf_crypto N) (cf_prefix N) (cf_key_type N) (cf_encode_type N) (private_key c)
        (PrivateKeyV4_blank (cf_encode_type N)) = Inr (True, priv) \<and> priv_pub_key priv = Some pub) \<and>
     1 \<le> cfg_gas_price c \<and> 20000 \<le> cfg_fee_limit c \<and>
     start_tx_topic c \<noteq> [] \<and> send_tx_topic c \<noteq> [] \<and> ack_tx_topic c \<noteq> []"

definition keyed :: "('p, 'j) config_env \<Rightarrow> PublicKeyV4 \<Rightarrow> string \<Rightarrow> 'z LayerConfigure_scheme \<Rightarrow> bool" where
  "keyed N pub a c \<longleftrightarrow> agent_address c = a \<and>
     (\<exists>priv. PrivateKeyV4_From (cf_crypto N) (cf_prefix N) (cf_key_type N) (cf_encode_type N) (private_key c)
        (PrivateKeyV4_blank (cf_encode_type N)) = Inr (True, priv) \<and> priv_pub_key priv = Some pub)"

lemma From_valid:
  assumes "PrivateKeyV4_From L pre kt junk s k0 = Inr (ok, k)" and "priv_valid k"
  shows "ok \<and> (\<exists>pub. priv_pub_key k = Some pub)"
  using assms by (auto simp: PrivateKeyV4_From_def Let_def split: sum.splits prod.splits if_splits)

lemma GetEncAddress_run:
  "GetEncAddress (cf_crypto N) (cf_prefix N) pub g = (a, g') \<Longrightarrow>
   a = (case g (pub_raw_pub_key pub) of Some a \<Rightarrow> a | None \<Rightarrow> key_address N pub) \<and> g' = g(pub_raw_pub_key pub \<mapsto> a)"
  by (auto simp: GetEncAddress_def key_address_def Let_def fun_upd_idem split: option.splits)

lemma load_key_ok:
  "hoare UNIV (\<lambda>(c, g). g = g0) (load_key N)
     (\<lambda>valid (c, g). valid \<longrightarrow> (\<exists>pub a. keyed N pub a c \<and> g = g0(pub_raw_pub_key pub \<mapsto> a) \<and>
        a = (case g0 (pub_raw_pub_key pub) of Some a \<Rightarrow> a | None \<Rightarrow> key_address N pub)))"
  (is "hoare UNIV _ _ ?Q")
  unfolding hoare_def
proof (intro allI impI, clarify)
  fix c :: "'a LayerConfigure_scheme"
  let ?c = "c\<lparr>private_key := clear_key N (private_key c)\<rparr>"
  let ?r = "PrivateKeyV4_From (cf_crypto N) (cf_prefix N) (cf_key_type N) (cf_encode_type N) (private_key ?c)
      (PrivateKeyV4_blank (cf_encode_type N))"
  show "case load_key N (c, g0) of Done valid s \<Rightarrow> ?Q valid s | Fault f s \<Rightarrow> f \<in> UNIV"
  proof (cases ?r)
    case (Inr r)
    obtain ok priv where r: "?r = Inr (ok, priv)" using Inr by (cases r) auto
    show ?thesis
    proof (cases "priv_valid priv")
      case True
      obtain pub where pub: "ok" "priv_pub_key priv = Some pub" using From_valid [OF r True] by blast
      obtain a g' where a: "GetEncAddress (cf_crypto N) (cf_prefix N) pub g0 = (a, g')" by fastforce
      have run: "load_key N (c, g0) = Done True (?c\<lparr>agent_address := a\<rparr>, g')"
        using r True pub(2) a by (simp add: load_key_def prog_simps set_layer_def)
      have "keyed N pub a (?c\<lparr>agent_address := a\<rparr>)" using r pub by (simp add: keyed_def)
      with GetEncAddress_run [OF a] show ?thesis unfolding run by auto
    qed (use r in \<open>simp add: load_key_def prog_simps set_layer_def\<close>)
  qed (simp add: load_key_def prog_simps set_layer_def)
qed

text \<open>The parts of a load that leave the key and the address of the layer alone.\<close>

lemma keeps_GetValue: "(\<And>a s. I s \<Longrightarrow> I (put a s)) \<Longrightarrow> keeps I (GetValue J as v key put)"
  unfolding GetValue_def by (intro keeps_intros keeps_change)

lemma keeps_in_turn: "(\<And>m. m \<in> set ms \<Longrightarrow> keeps I m) \<Longrightarrow> keeps I (in_turn ms)"
  by (induction ms) (simp_all add: keeps_ret keeps_andThen)

definition priced :: "'z LayerConfigure_scheme \<Rightarrow> bool" where
  "priced c \<longleftrightarrow> 1 \<le> cfg_gas_price c \<and> 20000 \<le> cfg_fee_limit c"

lemma raise_prices_ok: "priced (raise_prices c) \<and> agent_address (raise_prices c) = agent_address c \<and> private_key (raise_prices c) = private_key c"
  by (simp add: priced_def raise_prices_def Let_def)

lemma default_topics_ok:
  "start_tx_topic (default_topics c) \<noteq> [] \<and> send_tx_topic (default_topics c) \<noteq> [] \<and> ack_tx_topic (default_topics c) \<noteq> [] \<and>
   priced (default_topics c) = priced c \<and> agent_address (default_topics c) = agent_address c \<and> private_key (default_topics c) = private_key c"
  by (simp add: priced_def default_topics_def Let_def)

lemma usable_layer_keyed:
  "usable_layer N pub c \<and> agent_address c = a \<longleftrightarrow>
   keyed N pub a c \<and> priced c \<and> start_tx_topic c \<noteq> [] \<and> send_tx_topic c \<noteq> [] \<and> ack_tx_topic c \<noteq> []"
  by (auto simp: usable_layer_def keyed_def priced_def)

lemma keeps_read_topics: "keeps (\<lambda>(c, g). keyed N pub a c \<and> priced c \<and> g = g0) (read_topics N' t)"
  unfolding read_topics_def
  by (rule keeps_in_turn) (auto intro!: keeps_GetValue simp: set_layer_def keyed_def priced_def)

lemma load_topics_ok:
  "hoare UNIV (\<lambda>(c, g). keyed N pub a c \<and> priced c \<and> g = g0) (load_topics N v)
     (\<lambda>_ (c, g). usable_layer N pub c \<and> agent_address c = a \<and> g = g0)"
  unfolding load_topics_def
  by (rule hoare_andThen [OF keeps_hoare [OF keeps_orFault]], rule hoare_andThen [OF keeps_hoare],
      intro keeps_intros keeps_read_topics, rule hoare_change)
    (use default_topics_ok in \<open>auto simp: set_layer_def usable_layer_def keyed_def priced_def\<close>)

text \<open>What a loaded layer is: its key was read when the table of addresses was \<open>g0\<close>.\<close>

definition loaded :: "('p, 'j) config_env \<Rightarrow> (string \<rightharpoonup> string) \<Rightarrow> 'z LayerConfigure_scheme \<Rightarrow> (string \<rightharpoonup> string) \<Rightarrow> bool" where
  "loaded N g0 c g \<longleftrightarrow> (\<exists>pub. usable_layer N pub c \<and> g = g0(pub_raw_pub_key pub \<mapsto> agent_address c) \<and>
     agent_address c = (case g0 (pub_raw_pub_key pub) of Some a \<Rightarrow> a | None \<Rightarrow> key_address N pub))"

lemma finish_layer:
  assumes "\<And>pub a c. keyed N pub a c \<Longrightarrow> keyed N pub a (f c) \<and> priced (f c)"
  shows "hoare UNIV (\<lambda>(c, g). g = g0) (andThen (load_key N) (\<lambda>valid. if \<not> valid then ret False
      else andThen (change (set_layer f)) (\<lambda>_. andThen (load_topics N v) (\<lambda>_. ret True))))
     (\<lambda>ok (c, g). ok \<longrightarrow> loaded N g0 c g)"
proof (rule hoare_andThen [OF load_key_ok], rule hoare_if)
  fix valid
  let ?a = "\<lambda>pub. case g0 (pub_raw_pub_key pub) of Some a \<Rightarrow> a | None \<Rightarrow> key_address N pub"
  assume "\<not> \<not> valid"
  then have pre: "(case s of (c, g) \<Rightarrow> valid \<longrightarrow> (\<exists>pub a. keyed N pub a c \<and> g = g0(pub_raw_pub_key pub \<mapsto> a) \<and> a = ?a pub)) \<Longrightarrow>
      \<exists>pub. (\<lambda>(c, g). keyed N pub (?a pub) c \<and> g = g0(pub_raw_pub_key pub \<mapsto> ?a pub)) s" for s
    by (cases s) auto
  have finish: "hoare UNIV (\<lambda>(c, g). keyed N pub (?a pub) c \<and> g = g0(pub_raw_pub_key pub \<mapsto> ?a pub))
      (andThen (change (set_layer f)) (\<lambda>_. andThen (load_topics N v) (\<lambda>_. ret True))) (\<lambda>ok (c, g). ok \<longrightarrow> loaded N g0 c g)" for pub
    by (rule hoare_andThen [OF hoare_change hoare_andThen [OF load_topics_ok [of N pub "?a pub" "g0(pub_raw_pub_key pub \<mapsto> ?a pub)"] hoare_ret]])
      (auto simp: set_layer_def assms loaded_def)
  show "hoare UNIV (\<lambda>(c, g). valid \<longrightarrow> (\<exists>pub a. keyed N pub a c \<and> g = g0(pub_raw_pub_key pub \<mapsto> a) \<and> a = ?a pub))
      (andThen (change (set_layer f)) (\<lambda>_. andThen (load_topics N v) (\<lambda>_. ret True))) (\<lambda>ok (c, g). ok \<longrightarrow> loaded N g0 c g)"
    unfolding hoare_def
    by (intro allI impI, drule pre, elim exE, drule hoare_def [THEN iffD1, OF finish, rule_format]) assumption
qed (simp add: hoare_ret case_prod_beta)

lemma keeps_cache: "keeps (\<lambda>(c, g). g = g0) (GetValue J as v key (\<lambda>x. set_layer (f x)))"
  by (rule keeps_GetValue) (auto simp: set_layer_def)

lemma keeps_endpoints: "keeps (\<lambda>(c, g). g = g0) (load_endpoints N v)"
  unfolding load_endpoints_def by (rule keeps_in_turn) (auto simp: keeps_cache)

lemma keeps_prices: "keeps (\<lambda>(c, g). g = g0) (load_prices N v)"
  unfolding load_prices_def by (rule keeps_in_turn) (auto simp: keeps_cache)

lemma Layer1_ok: "hoare UNIV (\<lambda>(c, g). g = g0) (Layer1Configure_Load N v) (\<lambda>ok (c, g). ok \<longrightarrow> loaded N g0 c g)"
  unfolding Layer1Configure_Load_def
  by (rule hoare_andThen [OF keeps_hoare [OF keeps_endpoints]], rule hoare_andThen [OF keeps_hoare [OF keeps_prices]], rule finish_layer)
    (use raise_prices_ok in \<open>auto simp: keyed_def priced_def\<close>)

lemma Layer2_ok: "hoare UNIV (\<lambda>(c, g). g = g0) (Layer2Configure_Load N v) (\<lambda>ok (c, g). ok \<longrightarrow> loaded N g0 c g)"
  unfolding Layer2Configure_Load_def
  by (rule hoare_andThen [OF keeps_hoare [OF keeps_endpoints]], rule hoare_andThen [OF keeps_hoare [OF keeps_cache]],
      rule hoare_andThen [OF keeps_hoare [OF keeps_prices]], rule finish_layer)
    (use raise_prices_ok in \<open>auto simp: keyed_def priced_def\<close>)

lemma orFault_Done: "orFault f x s = Done a s' \<longleftrightarrow> x = Some a \<and> s' = s"
  by (auto simp: orFault_def ret_def fault_def split: option.splits)

lemma have_members_same: "have_members J v ks s = Done b s' \<Longrightarrow> s' = s"
  by (induction ks) (auto simp: have_members_def run_simps orFault_Done split: if_splits)

text \<open>An accepted configuration was loaded part by part.\<close>

lemma LoadFromJson_parts:
  assumes "LoadFromJson N vs c = Done True c'"
  obtains lg v1 l1 g1 v2 l2 g2 ws
  where "Layer1Configure_Load N v1 (layer1_configure c, pub_to_address c) = Done True (l1, g1)"
    and "Layer2Configure_Load N v2 (layer2_configure c, g1) = Done True (l2, g2)"
    and "c' = c\<lparr>logger_configure := lg, layer1_configure := l1, layer2_configure := l2, pub_to_address := g2,
           webserver_configure := ws\<rparr>"
proof -
  let ?in1 = "in_part (\<lambda>c. (layer1_configure c, pub_to_address c)) (\<lambda>(l, g) c. c\<lparr>layer1_configure := l, pub_to_address := g\<rparr>)"
  let ?in2 = "in_part (\<lambda>c. (layer2_configure c, pub_to_address c)) (\<lambda>(l, g) c. c\<lparr>layer2_configure := l, pub_to_address := g\<rparr>)"
  from assms obtain v0 v1 v2 v3 ca cb cc where
    "in_part logger_configure (\<lambda>l c. c\<lparr>logger_configure := l\<rparr>) (LoggerConfigure_Load N v0) c = Done True ca"
    "?in1 (Layer1Configure_Load N v1) ca = Done True cb" "?in2 (Layer2Configure_Load N v2) cb = Done True cc"
    "in_part webserver_configure (\<lambda>l c. c\<lparr>webserver_configure := l\<rparr>) (WebServerConfigure_Load N v3) cc = Done True c'"
    by (auto simp: LoadFromJson_def load_member_def run_simps orFault_Done split: if_splits dest!: have_members_same)
  then show thesis by (auto simp: in_part_Done intro: that)
qed

definition usable_config :: "('p, 'j) config_env \<Rightarrow> configure \<Rightarrow> bool" where
  "usable_config N c \<longleftrightarrow> (\<exists>pub1 pub2. usable_layer N pub1 (layer1_configure c) \<and> usable_layer N pub2 (layer2_configure c) \<and>
     agent_address (layer1_configure c) = key_address N pub1 \<and>
     agent_address (layer2_configure c) =
       (if pub_raw_pub_key pub2 = pub_raw_pub_key pub1 then key_address N pub1 else key_address N pub2))"

lemma accepted_usable:
  assumes "ConfigureBase_Load N contents c = Done True c'" and "pub_to_address c = Map.empty"
  shows "usable_config N c'"
proof -
  obtain vs where "LoadFromJson N vs c = Done True c'"
    using assms(1) by (auto simp: ConfigureBase_Load_def ret_Done split: option.splits)
  then obtain lg v1 l1 g1 v2 l2 g2 ws where
    one: "Layer1Configure_Load N v1 (layer1_configure c, pub_to_address c) = Done True (l1, g1)" and
    two: "Layer2Configure_Load N v2 (layer2_configure c, g1) = Done True (l2, g2)" and
    c': "c' = c\<lparr>logger_configure := lg, layer1_configure := l1, layer2_configure := l2, pub_to_address := g2, webserver_configure := ws\<rparr>"
    by (rule LoadFromJson_parts)
  have "loaded N Map.empty l1 g1" using hoare_Done [OF Layer1_ok _ one, of "pub_to_address c"] assms(2) by simp
  moreover have "loaded N g1 l2 g2" using hoare_Done [OF Layer2_ok _ two, of g1] by simp
  ultimately show ?thesis by (fastforce simp: usable_config_def c' loaded_def split: if_splits)
qed

text \<open>C16: A configuration that was accepted by a process that had made no address before has, for both layers, a
  private key that reads as one, its address, prices that are not too low and all three topics. The address of
  layer 2 is that of layer 1 if the two have the same public key.\<close>

theorem accepted_configuration_is_usable:
  assumes "ConfigureBase_Load N contents c = Done True c'" and "pub_to_address c = Map.empty"
  shows "\<exists>pub1 pub2. usable_layer N pub1 (layer1_configure c') \<and> usable_layer N pub2 (layer2_configure c') \<and>
    agent_address (layer1_configure c') = key_address N pub1 \<and>
    agent_address (layer2_configure c') =
      (if pub_raw_pub_key pub2 = pub_raw_pub_key pub1 then key_address N pub1 else key_address N pub2)"
  using accepted_usable [OF assms] by (simp only: usable_config_def)

text \<open>A configuration of four members, with the same private key for both layers.\<close>

definition sample_layer :: answer where
  "sample_layer = AObj [(''private_key'', AText (GetEncPrivateKey toy_key)), (''fee_limit'', ANum 5), (''gas_price'', ANum 3)]"

definition sample_config :: answer where
  "sample_config = AObj [(''logger'', AObj [(''level'', AText ''INFO|ERROR'')]), (''layer1'', sample_layer),
     (''layer2'', sample_layer), (''webserver'', AObj [])]"

definition sample_config_env :: "(nat, answer) config_env" where
  "sample_config_env = \<lparr>cf_json = sample_json [], cf_parse = (\<lambda>_. Some sample_config), cf_crypto = toy_lib, cf_aes = toy_aes,
     cf_prefix = AddressPrefix_Initialize, cf_key_type = KEY_ADDRESS, cf_encode_type = 0\<rparr>"

definition blank_configure :: configure where
  "blank_configure = \<lparr>logger_configure = LoggerConfigure_new, layer1_configure = Layer1Configure_new 0 0,
     layer2_configure = Layer2Configure_new 0 0 0, webserver_configure = WebServerConfigure_new, pub_to_address = Map.empty\<rparr>"

lemma Base58_plain: "\<forall>c \<in> set (Base58_Encode s). 0 < byte c \<and> byte c < 128"
proof -
  obtain ds where ds: "Base58_Encode s = replicate (leading (\<lambda>c. byte c = 0) s) (CHR ''1'') @ map (\<lambda>d. kBase58Dictionary ! d) ds"
    "\<forall>d \<in> set ds. d < 58" by (rule encode_digits)
  have "list_all (\<lambda>c. 0 < byte c \<and> byte c < 128) kBase58Dictionary \<and> length kBase58Dictionary = 58" by code_simp
  then have "\<forall>d < 58. 0 < byte (kBase58Dictionary ! d) \<and> byte (kBase58Dictionary ! d) < 128" by (simp add: list_all_length)
  with ds(2) show ?thesis unfolding ds(1) by (auto simp: byte_def)
qed

lemma toy_key_facts: "length (priv_raw_priv_key toy_key) = 32" "priv_type toy_key < 256" "address_like AddressPrefix_Initialize"
  by (simp_all add: toy_key_def PrivateKeyV4_Init_def SIGNTYPE_ED25519_def address_like_def AddressPrefix_Initialize_def)

lemma toy_key_text:
  "\<exists>k. PrivateKeyV4_From toy_lib AddressPrefix_Initialize kt junk (GetEncPrivateKey toy_key) k1 = Inr (True, k) \<and>
     priv_valid k \<and> (\<exists>pub. priv_pub_key k = Some pub)"
  by (simp add: From_private_text [OF toy_lib_ok] toy_key_facts)

lemma toy_key_clear: "take 3 (GetEncPrivateKey toy_key) = ''pri''" "plain (GetEncPrivateKey toy_key)"
proof -
  let ?s = "[of_byte 24, of_byte 158, of_byte 153, of_byte (priv_type toy_key), of_byte ENCODETYPE_BASE58] @ priv_raw_priv_key toy_key"
  obtain rest where rest: "EncodePrivateKey ?s = ''pri'' @ rest" "length rest = 47"
    using private_text(1) [OF toy_key_facts(1)] by blast
  have enc: "GetEncPrivateKey toy_key = EncodePrivateKey ?s" by (simp add: GetEncPrivateKey_def)
  show "take 3 (GetEncPrivateKey toy_key) = ''pri''" unfolding enc rest(1) by simp
  have "length (EncodePrivateKey ?s) = 50" using rest by simp
  then show "plain (GetEncPrivateKey toy_key)"
    using Base58_plain [of ?s] unfolding enc plain_def EncodePrivateKey_def by simp
qed

lemma sample_endpoints: "load_endpoints sample_config_env sample_layer s = Done () s"
  by (simp add: load_endpoints_def GetValue_def sample_layer_def sample_config_env_def sample_json_def prog_simps)

lemma sample_prices: "load_prices sample_config_env sample_layer (c, g) =
    Done () (c\<lparr>cfg_fee_limit := 5, cfg_gas_price := 3, private_key := GetEncPrivateKey toy_key\<rparr>, g)"
  using toy_key_clear
  by (simp add: load_prices_def GetValue_def sample_layer_def sample_config_env_def sample_json_def prog_simps set_layer_def fits64_def)

lemma set_layer_app: "set_layer f (c, g) = (f c, g)"
  by (simp add: set_layer_def)

lemma sample_key:
  assumes "private_key c = GetEncPrivateKey toy_key"
  shows "\<exists>a g'. load_key sample_config_env (c, g) = Done True (c\<lparr>private_key := GetEncPrivateKey toy_key, agent_address := a\<rparr>, g')"
proof -
  have clear: "clear_key sample_config_env (private_key c) = GetEncPrivateKey toy_key"
    using assms toy_key_clear by (simp add: clear_key_def)
  obtain k pub where k: "PrivateKeyV4_From toy_lib AddressPrefix_Initialize KEY_ADDRESS 0 (GetEncPrivateKey toy_key) (PrivateKeyV4_blank 0) = Inr (True, k)"
    "priv_valid k" "priv_pub_key k = Some pub" using toy_key_text by blast
  obtain a g' where "GetEncAddress toy_lib AddressPrefix_Initialize pub g = (a, g')" by fastforce
  with k have "load_key sample_config_env (c, g) = Done True (c\<lparr>private_key := GetEncPrivateKey toy_key, agent_address := a\<rparr>, g')"
    unfolding load_key_def
    by (simp add: prog_simps set_layer_def clear) (simp add: sample_config_env_def prog_simps)
  then show ?thesis by blast
qed

lemma sample_topics: "load_topics sample_config_env sample_layer s = Done () (set_layer default_topics s)"
  by (simp add: load_topics_def sample_layer_def sample_config_env_def sample_json_def prog_simps)

lemma sample_layer1: "\<exists>c' g'. Layer1Configure_Load sample_config_env sample_layer (c, g) = Done True (c', g') \<and>
    cfg_fee_limit c' = 20000 \<and> cfg_gas_price c' = 3"
proof -
  let ?c = "c\<lparr>cfg_fee_limit := 5, cfg_gas_price := 3, private_key := GetEncPrivateKey toy_key\<rparr>"
  obtain a g' where "load_key sample_config_env (?c, g) = Done True (?c\<lparr>private_key := GetEncPrivateKey toy_key, agent_address := a\<rparr>, g')" using sample_key [of ?c g] by auto
  then show ?thesis by (simp add: set_layer_app default_topics_def raise_prices_def Let_def Layer1Configure_Load_def prog_simps sample_endpoints sample_prices sample_topics)
qed

lemma sample_layer2: "\<exists>c' g'. Layer2Configure_Load sample_config_env sample_layer (c, g) = Done True (c', g') \<and>
    cfg_fee_limit c' = 20000 \<and> cfg_gas_price c' = 3"
proof -
  let ?c = "c\<lparr>cfg_fee_limit := 5, cfg_gas_price := 3, private_key := GetEncPrivateKey toy_key\<rparr>"
  have id: "GetValue (cf_json sample_config_env) (js_asInt64 (cf_json sample_config_env)) sample_layer ''layer2_id''
      (\<lambda>n. set_layer (\<lambda>c. c\<lparr>layer2_id := n\<rparr>)) s = Done () s" for s :: "Layer2Configure \<times> (string \<rightharpoonup> string)"
    by (simp add: GetValue_def sample_layer_def sample_config_env_def sample_json_def prog_simps)
  obtain a g' where "load_key sample_config_env (?c, g) = Done True (?c\<lparr>private_key := GetEncPrivateKey toy_key, agent_address := a\<rparr>, g')" using sample_key [of ?c g] by auto
  then show ?thesis by (simp add: set_layer_app default_topics_def raise_prices_def Let_def Layer2Configure_Load_def prog_simps sample_endpoints sample_prices sample_topics id)
qed

lemma sample_logger:
  "\<exists>lg. LoggerConfigure_Load sample_config_env (AObj [(''level'', AText ''INFO|ERROR'')]) LoggerConfigure_new = Done True lg"
  by (simp add: LoggerConfigure_Load_def GetValue_def LoggerConfigure_new_def sample_config_env_def sample_json_def
      prog_simps plain_def byte_def fits32_def)

lemma sample_config_run: "\<exists>c'. ConfigureBase_Load sample_config_env (Some ''config'') blank_configure = Done True c' \<and>
    cfg_fee_limit (layer1_configure c') = 20000 \<and> cfg_gas_price (layer1_configure c') = 3 \<and>
    cfg_fee_limit (layer2_configure c') = 20000 \<and> cfg_gas_price (layer2_configure c') = 3"
proof -
  obtain lg where lg: "LoggerConfigure_Load sample_config_env (AObj [(''level'', AText ''INFO|ERROR'')]) LoggerConfigure_new = Done True lg"
    using sample_logger by blast
  obtain l1 g1 where l1: "Layer1Configure_Load sample_config_env sample_layer (Layer1Configure_new 0 0, Map.empty) = Done True (l1, g1)"
    "cfg_fee_limit l1 = 20000" "cfg_gas_price l1 = 3"
    using sample_layer1 [of "Layer1Configure_new 0 0" Map.empty] by blast
  obtain l2 g2 where l2: "Layer2Configure_Load sample_config_env sample_layer (Layer2Configure_new 0 0 0, g1) = Done True (l2, g2)"
    "cfg_fee_limit l2 = 20000" "cfg_gas_price l2 = 3"
    using sample_layer2 [of "Layer2Configure_new 0 0 0" g1] by blast
  have ws: "WebServerConfigure_Load sample_config_env (AObj []) c = Done True c" for c
    by (simp add: WebServerConfigure_Load_def GetValue_def sample_config_env_def sample_json_def prog_simps)
  have member: "load_member sample_config_env sample_config k f = f x"
    if "map_of [(''logger'', AObj [(''level'', AText ''INFO|ERROR'')]), (''layer1'', sample_layer),
      (''layer2'', sample_layer), (''webserver'', AObj [])] k = Some x" for k f x
    using that by (simp add: load_member_def sample_config_def sample_config_env_def sample_json_def orFault_Some fun_eq_iff prog_simps)
  have "have_members (cf_json sample_config_env) sample_config [''logger'', ''layer1'', ''webserver'', ''layer2''] blank_configure =
      Done True blank_configure"
    by (simp add: have_members_def sample_config_env_def sample_json_def sample_config_def prog_simps)
  moreover have "cf_parse sample_config_env s = Some sample_config" for s by (simp add: sample_config_env_def)
  ultimately show ?thesis
    by (simp add: ConfigureBase_Load_def LoadFromJson_def prog_simps member in_part_def blank_configure_def lg l1 l2 ws)
qed

theorem accepted_configuration_is_usable_witness:
  "\<exists>c' pub1 pub2. ConfigureBase_Load sample_config_env (Some ''config'') blank_configure = Done True c' \<and>
     usable_layer sample_config_env pub1 (layer1_configure c') \<and> usable_layer sample_config_env pub2 (layer2_configure c')"
proof -
  obtain c' where c': "ConfigureBase_Load sample_config_env (Some ''config'') blank_configure = Done True c'"
    using sample_config_run by blast
  from accepted_configuration_is_usable [OF this] show ?thesis using c' by (auto simp: blank_configure_def)
qed

end
