(* ===== verification/Timer.thy ===== *)
theory Timer
  imports Programs "HOL-Library.Multiset"
begin

text \<open>
  \<open>utils/timer.cpp\<close>: the timer queue. \<open>std::multimap\<close> is a list sorted by key in which a new
  element goes behind the ones with the same key. A callback is a program on the timer itself,
  since it may start and cancel timers; \<open>OnTimer\<close> also returns which timers it executed.
  \<open>AddTimer\<close> gets the clock reading it makes. 64-bit sums that overflow are faults.

  Proved: the queue stays sorted with distinct identifiers, one run executes exactly what has
  expired, earliest first, and a timer that nobody cancels is executed exactly once, at the
  first check after its time.
\<close>

record 'k TimerElement =
  ele_id :: int
  ele_data :: int
  ele_expire_time :: int
  ele_func :: 'k

record 'k Timer =
  time_ele :: "(int \<times> 'k TimerElement) list"
  exeute_list :: "'k TimerElement list"
  global_element_id :: int
  tm_check_interval :: int
  tm_last_check_time :: int

definition new_Timer :: "'k Timer" where
  "new_Timer = \<lparr>time_ele = [], exeute_list = [], global_element_id = 1,
     tm_check_interval = 100 * 1000, tm_last_check_time = 0\<rparr>"

text \<open>\<open>std::multimap::insert\<close>.\<close>

fun mm_insert :: "int \<Rightarrow> 'v \<Rightarrow> (int \<times> 'v) list \<Rightarrow> (int \<times> 'v) list" where
  "mm_insert k v [] = [(k, v)]"
| "mm_insert k v ((k', v') # m) = (if k < k' then (k, v) # (k', v') # m else (k', v') # mm_insert k v m)"

definition GetIndex :: "'k TimerElement \<Rightarrow> int" where
  "GetIndex e = ele_id e"

definition AddTimer :: "int \<Rightarrow> int \<Rightarrow> int \<Rightarrow> 'k \<Rightarrow> (int, 'k Timer) prog" where
  "AddTimer now micro_time data func =
     andThen (add64 now micro_time) (\<lambda>expire_time.
     andThen (read_state global_element_id) (\<lambda>i.
     andThen (add64 i 1) (\<lambda>next.
     let element = \<lparr>ele_id = i, ele_data = data, ele_expire_time = expire_time, ele_func = func\<rparr> in
     andThen (change (\<lambda>t. t\<lparr>global_element_id := next, time_ele := mm_insert expire_time element (time_ele t)\<rparr>)) (\<lambda>_.
     ret (GetIndex element)))))"

fun erase_index :: "int \<Rightarrow> (int \<times> 'k TimerElement) list \<Rightarrow> bool \<times> (int \<times> 'k TimerElement) list" where
  "erase_index index [] = (False, [])"
| "erase_index index ((k, ele) # m) =
     (if GetIndex ele = index then (True, m)
      else case erase_index index m of (found, m') \<Rightarrow> (found, (k, ele) # m'))"

definition DelTimer :: "int \<Rightarrow> (bool, 'k Timer) prog" where
  "DelTimer index =
     andThen (read_state (\<lambda>t. erase_index index (time_ele t))) (\<lambda>(found, m).
     andThen (change (\<lambda>t. t\<lparr>time_ele := m\<rparr>)) (\<lambda>_. ret found))"

fun expire_of :: "int \<Rightarrow> (int \<times> 'k TimerElement) list \<Rightarrow> int" where
  "expire_of index [] = 0"
| "expire_of index ((k, ele) # m) = (if GetIndex ele = index then k else expire_of index m)"

definition GetExpireTime :: "int \<Rightarrow> 'k Timer \<Rightarrow> int" where
  "GetExpireTime index t = expire_of index (time_ele t)"

fun expire_loop :: "int \<Rightarrow> (int \<times> 'k TimerElement) list \<Rightarrow> 'k TimerElement list \<Rightarrow> (int \<times> 'k TimerElement) list \<times> 'k TimerElement list" where
  "expire_loop cur_time [] executed = ([], executed)"
| "expire_loop cur_time ((k, ele) # m) executed =
     (if k > cur_time then ((k, ele) # m, executed) else expire_loop cur_time m (executed @ [ele]))"

definition CheckExpire :: "int \<Rightarrow> (unit, 'k Timer) prog" where
  "CheckExpire cur_time =
     change (\<lambda>t. case expire_loop cur_time (time_ele t) (exeute_list t) of
       (m, l) \<Rightarrow> t\<lparr>time_ele := m, exeute_list := l\<rparr>)"

text \<open>\<open>Excute\<close> runs the callback on its data. The list is read once: a callback cannot change it.\<close>

definition Excute :: "('k \<Rightarrow> int \<Rightarrow> (unit, 'k Timer) prog) \<Rightarrow> 'k TimerElement \<Rightarrow> (unit, 'k Timer) prog" where
  "Excute body e = body (ele_func e) (ele_data e)"

primrec execute_all :: "('k \<Rightarrow> int \<Rightarrow> (unit, 'k Timer) prog) \<Rightarrow> 'k TimerElement list \<Rightarrow> (unit, 'k Timer) prog" where
  "execute_all body [] = ret ()"
| "execute_all body (e # es) = andThen (Excute body e) (\<lambda>_. execute_all body es)"

definition OnTimer :: "('k \<Rightarrow> int \<Rightarrow> (unit, 'k Timer) prog) \<Rightarrow> int \<Rightarrow> ('k TimerElement list, 'k Timer) prog" where
  "OnTimer body current_time =
     andThen (read_state (\<lambda>t. t)) (\<lambda>t.
     andThen (add64 (tm_last_check_time t) (tm_check_interval t)) (\<lambda>next.
     if current_time > next then
       andThen (CheckExpire current_time) (\<lambda>_.
       andThen (read_state exeute_list) (\<lambda>l.
       andThen (execute_all body l) (\<lambda>_.
       andThen (change (\<lambda>t. t\<lparr>exeute_list := [], tm_last_check_time := current_time\<rparr>)) (\<lambda>_.
       ret l))))
     else ret []))"

section \<open>The queue\<close>

definition mm_sorted :: "(int \<times> 'v) list \<Rightarrow> bool" where
  "mm_sorted m \<longleftrightarrow> sorted (map fst m)"

definition pending_ids :: "'k Timer \<Rightarrow> int list" where
  "pending_ids t = map (ele_id \<circ> snd) (time_ele t)"

text \<open>Sorted, filed under its own time, identifiers distinct and already given out.\<close>

definition timer_ok :: "'k Timer \<Rightarrow> bool" where
  "timer_ok t \<longleftrightarrow> mm_sorted (time_ele t) \<and> (\<forall>(k, e) \<in> set (time_ele t). ele_expire_time e = k) \<and>
     distinct (pending_ids t) \<and> (\<forall>i \<in> set (pending_ids t). i < global_element_id t)"

lemma mm_insert_mset [simp]: "mset (mm_insert k v m) = add_mset (k, v) (mset m)"
  by (induction k v m rule: mm_insert.induct) auto

lemma mm_insert_set [simp]: "set (mm_insert k v m) = insert (k, v) (set m)"
  by (metis mm_insert_mset set_mset_add_mset_insert set_mset_mset)

lemma mm_insert_sorted: "mm_sorted m \<Longrightarrow> mm_sorted (mm_insert k v m)"
  by (induction k v m rule: mm_insert.induct) (auto simp: mm_sorted_def)

lemma mm_insert_distinct:
  "distinct (map f (mm_insert k v m)) \<longleftrightarrow> f (k, v) \<notin> f ` set m \<and> distinct (map f m)"
  by (induction k v m rule: mm_insert.induct) auto

lemma erase_index_distinct:
  "distinct (map (ele_id \<circ> snd) m) \<Longrightarrow>
   erase_index i m = (i \<in> set (map (ele_id \<circ> snd) m), filter (\<lambda>x. ele_id (snd x) \<noteq> i) m)"
proof (induction i m rule: erase_index.induct)
  case (2 i k ele m)
  then have "ele_id ele = i \<Longrightarrow> \<forall>x \<in> set m. ele_id (snd x) \<noteq> i" by force
  then have "ele_id ele = i \<Longrightarrow> filter (\<lambda>x. ele_id (snd x) \<noteq> i) m = m" by (simp add: filter_id_conv)
  with 2 show ?case by (auto simp: GetIndex_def)
qed simp

lemma expire_loop_split:
  "mm_sorted m \<Longrightarrow>
   expire_loop cur m l = (filter (\<lambda>x. cur < fst x) m, l @ map snd (filter (\<lambda>x. fst x \<le> cur) m))"
proof (induction cur m l rule: expire_loop.induct)
  case (2 cur k ele m l)
  then have rest: "\<forall>x \<in> set m. k \<le> fst x" and "mm_sorted m" by (auto simp: mm_sorted_def)
  show ?case
  proof (cases "k > cur")
    case True
    with rest have "filter (\<lambda>x. cur < fst x) m = m" "filter (\<lambda>x. fst x \<le> cur) m = []"
      by (auto simp: filter_id_conv filter_empty_conv)
    with True show ?thesis by simp
  next
    case False
    then show ?thesis using 2(1) \<open>mm_sorted m\<close> by simp
  qed
qed simp

lemma mm_sorted_filter: "mm_sorted m \<Longrightarrow> mm_sorted (filter P m)"
  by (simp add: mm_sorted_def sorted_filter)

lemma distinct_map_filter: "distinct (map f m) \<Longrightarrow> distinct (map f (filter P m))"
  by (simp add: distinct_map inj_on_filter_key_eq inj_on_def)

section \<open>What callbacks may do\<close>

text \<open>A client of the timer starts timers, and cancels timers whose identifier is in \<open>D\<close>.\<close>

inductive client :: "int set \<Rightarrow> 'k Timer \<Rightarrow> 'k Timer \<Rightarrow> bool" for D where
  nothing: "client D t t"
| add: "client D t t' \<Longrightarrow> AddTimer now micro_time data func t' = Done i t'' \<Longrightarrow> client D t t''"
| del: "client D t t' \<Longrightarrow> DelTimer i t' = Done b t'' \<Longrightarrow> i \<in> D \<Longrightarrow> client D t t''"

definition callbacks_ok :: "int set \<Rightarrow> ('k \<Rightarrow> int \<Rightarrow> (unit, 'k Timer) prog) \<Rightarrow> bool" where
  "callbacks_ok D body \<longleftrightarrow> (\<forall>f d t t'. body f d t = Done () t' \<longrightarrow> client D t t')"

lemma client_trans: "client D t t' \<Longrightarrow> client D t' t'' \<Longrightarrow> client D t t''"
  by (rotate_tac, induction rule: client.induct) (auto intro: client.intros)

text \<open>Elements outside \<open>D\<close> stay, and only elements with a new identifier come.\<close>

definition evolves :: "int set \<Rightarrow> 'k Timer \<Rightarrow> 'k Timer \<Rightarrow> bool" where
  "evolves D t t' \<longleftrightarrow> timer_ok t' \<and> exeute_list t' = exeute_list t \<and>
     tm_last_check_time t' = tm_last_check_time t \<and> tm_check_interval t' = tm_check_interval t \<and>
     global_element_id t \<le> global_element_id t' \<and>
     (\<forall>x \<in> set (time_ele t). ele_id (snd x) \<notin> D \<longrightarrow> x \<in> set (time_ele t')) \<and>
     (\<forall>x \<in> set (time_ele t'). x \<in> set (time_ele t) \<or> global_element_id t \<le> ele_id (snd x))"

lemma evolves_refl: "timer_ok t \<Longrightarrow> evolves D t t"
  by (simp add: evolves_def)

lemma evolves_trans: "evolves D t t' \<Longrightarrow> evolves D t' t'' \<Longrightarrow> evolves D t t''"
  unfolding evolves_def by (smt (verit, best) order_trans)

lemma evolves_add:
  assumes "timer_ok t" and "AddTimer now micro_time data func t = Done i t'"
  shows "evolves D t t'"
proof -
  let ?e = "\<lparr>ele_id = global_element_id t, ele_data = data, ele_expire_time = now + micro_time, ele_func = func\<rparr>"
  have t': "t' = t\<lparr>global_element_id := global_element_id t + 1, time_ele := mm_insert (now + micro_time) ?e (time_ele t)\<rparr>"
    using assms(2) by (auto simp: AddTimer_def prog_simps add64_def Let_def split: if_splits)
  have fresh: "\<forall>x \<in> set (time_ele t). ele_id (snd x) < global_element_id t"
    using assms(1) by (auto simp: timer_ok_def pending_ids_def)
  have "timer_ok t'"
    using assms(1) fresh
    by (fastforce simp: t' timer_ok_def pending_ids_def mm_insert_sorted mm_insert_distinct)
  then show ?thesis by (auto simp: evolves_def t')
qed

lemma evolves_del:
  assumes "timer_ok t" and "DelTimer i t = Done b t'" and "i \<in> D"
  shows "evolves D t t'"
proof -
  have t': "t' = t\<lparr>time_ele := filter (\<lambda>x. ele_id (snd x) \<noteq> i) (time_ele t)\<rparr>"
    using assms(1,2) by (auto simp: DelTimer_def prog_simps erase_index_distinct timer_ok_def pending_ids_def)
  have "timer_ok t'"
    using assms(1) by (auto simp: t' timer_ok_def pending_ids_def mm_sorted_filter distinct_map_filter)
  then show ?thesis using assms(3) by (auto simp: evolves_def t')
qed

lemma client_evolves: "client D t t' \<Longrightarrow> timer_ok t \<Longrightarrow> evolves D t t'"
proof (induction rule: client.induct)
  case (nothing t)
  then show ?case by (rule evolves_refl)
next
  case (add t t' now micro_time data func i t'')
  then have "evolves D t t'" "timer_ok t'" by (auto simp: evolves_def)
  with add show ?case by (blast intro: evolves_trans evolves_add)
next
  case (del t t' i b t'')
  then have "evolves D t t'" "timer_ok t'" by (auto simp: evolves_def)
  with del show ?case by (blast intro: evolves_trans evolves_del)
qed

lemma execute_all_client:
  "callbacks_ok D body \<Longrightarrow> execute_all body l t = Done () t' \<Longrightarrow> client D t t'"
proof (induction l arbitrary: t)
  case (Cons e es)
  then obtain t1 where "body (ele_func e) (ele_data e) t = Done () t1" "execute_all body es t1 = Done () t'"
    by (auto simp: run_simps Excute_def)
  with Cons show ?case by (meson callbacks_ok_def client_trans)
qed (simp add: ret_def client.nothing)

section \<open>One check\<close>

text \<open>What a check finds expired, in the order of the queue.\<close>

definition expired :: "int \<Rightarrow> 'k Timer \<Rightarrow> 'k TimerElement list" where
  "expired cur t = map snd (filter (\<lambda>x. fst x \<le> cur) (time_ele t))"

lemma OnTimer_check:
  assumes "callbacks_ok D body" "timer_ok t" "exeute_list t = []"
    and "tm_last_check_time t + tm_check_interval t < cur"
    and "OnTimer body cur t = Done fired t'"
  shows "fired = expired cur t \<and>
     evolves D (t\<lparr>time_ele := filter (\<lambda>x. cur < fst x) (time_ele t), tm_last_check_time := cur\<rparr>) t'"
proof -
  let ?t = "t\<lparr>time_ele := filter (\<lambda>x. cur < fst x) (time_ele t), exeute_list := expired cur t\<rparr>"
  have split: "expire_loop cur (time_ele t) [] = (time_ele ?t, expired cur t)"
    using assms(2) by (simp add: expire_loop_split expired_def timer_ok_def)
  obtain t1 where run: "execute_all body (expired cur t) ?t = Done () t1" and fired: "fired = expired cur t"
    and t': "t' = t1\<lparr>exeute_list := [], tm_last_check_time := cur\<rparr>"
    using assms(3-5)
    by (auto simp: OnTimer_def CheckExpire_def prog_simps split add64_def split: if_splits outcome.splits)
  have "timer_ok ?t"
    using assms(2) by (auto simp: timer_ok_def pending_ids_def mm_sorted_filter distinct_map_filter)
  then have "evolves D ?t t1"
    using client_evolves execute_all_client [OF assms(1) run] by blast
  then show ?thesis using fired assms(3) by (auto simp: t' evolves_def timer_ok_def pending_ids_def)
qed

lemma OnTimer_early:
  assumes "cur \<le> tm_last_check_time t + tm_check_interval t" and "OnTimer body cur t = Done fired t'"
  shows "fired = [] \<and> t' = t"
  using assms by (auto simp: OnTimer_def prog_simps add64_def split: if_splits)

section \<open>Ticks\<close>

text \<open>The main loop calls \<open>OnTimer\<close> with the times \<open>ts\<close>; \<open>checks\<close> are the ones that look at the queue.\<close>

primrec ticks :: "('k \<Rightarrow> int \<Rightarrow> (unit, 'k Timer) prog) \<Rightarrow> int list \<Rightarrow> ('k TimerElement list, 'k Timer) prog" where
  "ticks body [] = ret []"
| "ticks body (c # ts) = andThen (OnTimer body c) (\<lambda>fired. andThen (ticks body ts) (\<lambda>rest. ret (fired @ rest)))"

primrec checks :: "int \<Rightarrow> int \<Rightarrow> int list \<Rightarrow> int list" where
  "checks interval last_time [] = []"
| "checks interval last_time (c # ts) =
     (if last_time + interval < c then c # checks interval c ts else checks interval last_time ts)"

definition between_ticks :: "'k Timer \<Rightarrow> bool" where
  "between_ticks t \<longleftrightarrow> timer_ok t \<and> exeute_list t = []"

lemma OnTimer_between:
  assumes "callbacks_ok D body" "between_ticks t" "OnTimer body cur t = Done fired t'"
  shows "between_ticks t' \<and> tm_check_interval t' = tm_check_interval t \<and> global_element_id t \<le> global_element_id t'"
proof (cases "tm_last_check_time t + tm_check_interval t < cur")
  case True
  then show ?thesis
    using OnTimer_check [OF assms(1) _ _ True assms(3)] assms(2) by (auto simp: between_ticks_def evolves_def)
next
  case False
  then show ?thesis using OnTimer_early [OF _ assms(3)] assms(2) by (simp add: between_ticks_def)
qed

lemma gone_stays_gone:
  assumes "callbacks_ok D body"
  shows "between_ticks t \<Longrightarrow> i < global_element_id t \<Longrightarrow> i \<notin> set (pending_ids t) \<Longrightarrow>
    ticks body ts t = Done fired t' \<Longrightarrow> i \<notin> set (map ele_id fired)"
proof (induction ts arbitrary: t fired)
  case (Cons c ts)
  from Cons.prems(4) obtain r1 t1 r2 where on: "OnTimer body c t = Done r1 t1"
    and rest: "ticks body ts t1 = Done r2 t'" and fired: "fired = r1 @ r2"
    by (auto simp: run_simps)
  have between: "between_ticks t1" "i < global_element_id t1"
    using OnTimer_between [OF assms Cons.prems(1) on] Cons.prems(2) by auto
  have "i \<notin> set (map ele_id r1) \<and> i \<notin> set (pending_ids t1)"
  proof (cases "tm_last_check_time t + tm_check_interval t < c")
    case True
    have chk: "r1 = expired c t"
      "evolves D (t\<lparr>time_ele := filter (\<lambda>x. c < fst x) (time_ele t), tm_last_check_time := c\<rparr>) t1"
      using OnTimer_check [OF assms _ _ True on] Cons.prems(1) by (auto simp: between_ticks_def)
    have "x \<in> set (time_ele t) \<or> i < ele_id (snd x)" if "x \<in> set (time_ele t1)" for x
      using chk(2) that Cons.prems(2) by (force simp: evolves_def)
    then show ?thesis using Cons.prems(3) unfolding chk(1) expired_def pending_ids_def by (force simp: pending_ids_def)
  next
    case False
    then show ?thesis using OnTimer_early [OF _ on] Cons.prems(3) by simp
  qed
  then show ?case using Cons.IH [OF between _ rest] fired by auto
qed (simp add: ret_def)

lemma same_id: "timer_ok t \<Longrightarrow> x \<in> set (time_ele t) \<Longrightarrow> y \<in> set (time_ele t) \<Longrightarrow> ele_id (snd x) = ele_id (snd y) \<Longrightarrow> x = y"
  unfolding timer_ok_def pending_ids_def distinct_map inj_on_def comp_def by blast

lemma count_distinct_ids:
  "distinct (map ele_id l) \<Longrightarrow> e \<in> set l \<Longrightarrow> count (mset (map ele_id l)) (ele_id e) = 1"
  by (metis distinct_count_atmost_1 imageI list.set_map)

lemma ticks_fire:
  assumes cb: "callbacks_ok D body"
  shows "between_ticks t \<Longrightarrow> (k, e) \<in> set (time_ele t) \<Longrightarrow> ele_id e \<notin> D \<Longrightarrow>
    ticks body ts t = Done fired t' \<Longrightarrow>
    count (mset (map ele_id fired)) (ele_id e) =
      (if \<exists>c \<in> set (checks (tm_check_interval t) (tm_last_check_time t) ts). k \<le> c then 1 else 0)"
proof (induction ts arbitrary: t fired)
  case (Cons c ts)
  from Cons.prems(4) obtain r1 t1 r2 where on: "OnTimer body c t = Done r1 t1"
    and rest: "ticks body ts t1 = Done r2 t'" and fired: "fired = r1 @ r2"
    by (auto simp: run_simps)
  have between: "between_ticks t1" "tm_check_interval t1 = tm_check_interval t"
    using OnTimer_between [OF cb Cons.prems(1) on] by auto
  have ok: "timer_ok t" "exeute_list t = []" using Cons.prems(1) by (auto simp: between_ticks_def)
  show ?case
  proof (cases "tm_last_check_time t + tm_check_interval t < c")
    case False
    then show ?thesis using Cons.IH [OF Cons.prems(1,2,3)] OnTimer_early [OF _ on] rest fired by simp
  next
    case True
    let ?u = "t\<lparr>time_ele := filter (\<lambda>x. c < fst x) (time_ele t), tm_last_check_time := c\<rparr>"
    have r1: "r1 = expired c t" and ev: "evolves D ?u t1" using OnTimer_check [OF cb ok True on] by auto
    have dist: "distinct (pending_ids t)" "ele_id e < global_element_id t"
      using ok(1) Cons.prems(2) by (force simp: timer_ok_def pending_ids_def)+
    have ids: "map ele_id r1 = map (ele_id \<circ> snd) (filter (\<lambda>x. fst x \<le> c) (time_ele t))"
      by (simp add: r1 expired_def comp_def)
    show ?thesis
    proof (cases "k \<le> c")
      case True
      have "e \<in> set r1" using Cons.prems(2) True by (force simp: r1 expired_def)
      moreover have "distinct (map ele_id r1)" using dist(1) by (simp add: ids pending_ids_def distinct_map_filter)
      ultimately have "count (mset (map ele_id r1)) (ele_id e) = 1" by (rule count_distinct_ids [rotated])
      moreover have "ele_id e \<notin> set (pending_ids t1)"
        using ev dist(2) True same_id [OF ok(1) Cons.prems(2)] by (fastforce simp: evolves_def pending_ids_def)
      then have "ele_id e \<notin> set (map ele_id r2)"
        using gone_stays_gone [OF cb between(1) _ _ rest] ev dist(2) by (simp add: evolves_def)
      then have "count (mset (map ele_id r2)) (ele_id e) = 0" by (metis count_mset_0_iff)
      ultimately show ?thesis using True \<open>tm_last_check_time t + tm_check_interval t < c\<close> by (simp add: fired)
    next
      case False
      have "ele_id e \<notin> set (map ele_id r1)"
        using False same_id [OF ok(1) Cons.prems(2)] by (fastforce simp: r1 expired_def)
      then have "count (mset (map ele_id r1)) (ele_id e) = 0" by (metis count_mset_0_iff)
      moreover have "(k, e) \<in> set (time_ele t1)" using ev Cons.prems(2,3) False by (auto simp: evolves_def)
      ultimately show ?thesis
        using Cons.IH [OF between(1) _ Cons.prems(3) rest] ev between(2) False True by (simp add: fired evolves_def)
    qed
  qed
qed (simp add: ret_def)

lemma between_new_Timer: "between_ticks new_Timer"
  by (simp add: between_ticks_def timer_ok_def new_Timer_def mm_sorted_def pending_ids_def)

text \<open>Starting and cancelling timers between the ticks keeps the queue well formed.\<close>

lemma client_between: "client D t t' \<Longrightarrow> between_ticks t \<Longrightarrow> between_ticks t'"
  using client_evolves by (fastforce simp: between_ticks_def evolves_def)

lemma expired_sorted: "timer_ok t \<Longrightarrow> sorted (map ele_expire_time (expired cur t))"
proof -
  assume ok: "timer_ok t"
  have "map ele_expire_time (expired cur t) = map fst (filter (\<lambda>x. fst x \<le> cur) (time_ele t))"
    using ok by (auto simp: expired_def timer_ok_def)
  then show ?thesis using ok mm_sorted_filter by (metis mm_sorted_def timer_ok_def)
qed

text \<open>C22: A timer that no callback cancels is executed exactly once as soon as a check has come at or after
  its time, and not at all before; callbacks may start timers and cancel others meanwhile.\<close>

theorem timer_fires_exactly_once:
  assumes "callbacks_ok D body" and "between_ticks t" and "(k, e) \<in> set (time_ele t)" and "ele_id e \<notin> D"
    and "ticks body ts t = Done fired t'"
  shows "count (mset (map ele_id fired)) (ele_id e) =
    (if \<exists>c \<in> set (checks (tm_check_interval t) (tm_last_check_time t) ts). k \<le> c then 1 else 0)"
  using assms by (rule ticks_fire)

definition sample_timer :: "unit Timer" where
  "sample_timer = state_of (AddTimer 50 250000 7 () new_Timer)"

theorem timer_fires_exactly_once_witness:
  "\<exists>fired t'. ticks (\<lambda>_ _. ret ()) [200000, 290000, 400000] sample_timer = Done fired t' \<and>
     count (mset (map ele_id fired)) 1 = 1"
proof -
  let ?e = "\<lparr>ele_id = 1, ele_data = 7, ele_expire_time = 250050, ele_func = ()\<rparr>"
  let ?t = "sample_timer\<lparr>time_ele := [], global_element_id := 2, tm_last_check_time := 400000\<rparr>"
  have t: "sample_timer = new_Timer\<lparr>time_ele := [(250050, ?e)], global_element_id := 2\<rparr>"
    by (simp add: sample_timer_def AddTimer_def prog_simps add64_def fits64_def new_Timer_def GetIndex_def)
  have run: "ticks (\<lambda>_ _. ret ()) [200000, 290000, 400000] sample_timer = Done [?e] ?t"
    by (simp add: t OnTimer_def prog_simps add64_def fits64_def new_Timer_def CheckExpire_def Excute_def)
  have cb: "callbacks_ok {} (\<lambda>_ _. ret () :: (unit, unit Timer) prog)"
    by (auto simp: callbacks_ok_def ret_def intro: client.nothing)
  have "client {} new_Timer sample_timer"
    by (rule client.add [OF client.nothing, of 50 250000 7 "()" _ 1])
      (simp add: sample_timer_def AddTimer_def prog_simps add64_def fits64_def new_Timer_def GetIndex_def)
  then have bt: "between_ticks sample_timer" using between_new_Timer client_between by blast
  have "count (mset (map ele_id [?e])) (ele_id ?e) =
      (if \<exists>c \<in> set (checks (tm_check_interval sample_timer) (tm_last_check_time sample_timer) [200000, 290000, 400000]).
         250050 \<le> c then 1 else 0)"
    by (rule timer_fires_exactly_once [OF cb bt _ _ run]) (simp_all add: t)
  with run show ?thesis by (intro exI conjI) (auto simp: t new_Timer_def)
qed

end
