(* ===== verification/Main_Program.thy ===== *)
theory Main_Program
  imports Web_Server Timer
begin

text \<open>
  \<open>main/main.cpp\<close> and \<open>common/daemon.cpp\<close>: the process of the agent. It starts its parts in order, turns the
  main loop until a signal arrives, and stops the parts through a stack (\<open>ObjectExit\<close>). The
  websocket clients and the web server act on the same handles from their own threads, each handler from
  start to end. The shared memory through which the watchdog (\<open>daemon/src/main.cpp\<close>) sees the agent is a
  number outside of the process.

  Proved: whatever a process does, and however often it dies and is started again, its tables and the
  database stay in step, its configuration is usable and its connected clients are subscribed; the parts
  that were started are stopped in the reverse order; a main loop that turns is not restarted.
\<close>

section \<open>The process\<close>

datatype module = DaemonModule | HandleModule

datatype part = DaemonPart | LoggerPart | DatabasePart | HandlesPart | WebPart

datatype life = Started part | Stopped part

record Daemon =
  last_write_time :: int
  shm_shared :: bool            \<comment> \<open>\<open>shared\<close> is not \<open>NULL\<close>\<close>
  shm_attached :: bool          \<comment> \<open>\<open>shm\<close> was set\<close>

record ('d, 'k) main_process = "'d web_process" +
  config :: configure
  notifys :: "module list"
  timer_of :: "module \<Rightarrow> TimerNotify"
  daemon :: Daemon
  shared_time :: int
  enabled :: bool               \<comment> \<open>\<open>g_enable_\<close>\<close>
  timer_queue :: "'k Timer"
  exit_stack :: "part list"
  life_log :: "life list"

text \<open>What is outside. \<open>me_junk\<close> is what the numbers of the configuration hold before they are set.\<close>

record ('d, 'j, 'p, 'k) main_env =
  me_env :: "('d, 'j) env"
  me_parsers :: parsers
  me_ws :: ws_env
  me_web :: web_env
  me_config :: "('p, 'j) config_env"
  me_contents :: "string option"
  me_junk :: "int \<times> int \<times> int \<times> int \<times> int"
  shmget_ok :: bool
  shmat_ok :: bool
  logger_ok :: bool
  database_ok :: bool
  me_callback :: "'k \<Rightarrow> int \<Rightarrow> (unit, 'k Timer) prog"

type_synonym ('a, 'd, 'k) program = "('a, ('d, 'k) main_process) prog"

text \<open>The handles read the configuration that was loaded.\<close>

definition env_with :: "('d, 'j) env \<Rightarrow> configure \<Rightarrow> ('d, 'j) env" where
  "env_with E c = E\<lparr>layer1 := layer1_configure c, layer2 := layer2_configure c\<rparr>"

definition env_of :: "('d, 'j, 'p, 'k) main_env \<Rightarrow> ('d, 'k) main_process \<Rightarrow> ('d, 'j) env" where
  "env_of M p = env_with (me_env M) (config p)"

section \<open>The watchdog and its heartbeat\<close>

definition RegisterModule :: "module \<Rightarrow> (unit, 'd, 'k) program" where
  "RegisterModule m = change (\<lambda>p. p\<lparr>notifys := notifys p @ [m]\<rparr>)"

definition set_daemon :: "(Daemon \<Rightarrow> Daemon) \<Rightarrow> (unit, 'd, 'k) program" where
  "set_daemon f = change (\<lambda>p. p\<lparr>daemon := f (daemon p)\<rparr>)"

definition Daemon_Initialize :: "('d, 'j, 'p, 'k) main_env \<Rightarrow> (bool, 'd, 'k) program" where
  "Daemon_Initialize M =
     andThen (RegisterModule DaemonModule) (\<lambda>_.
     if \<not> shmget_ok M then ret True
     else
       andThen (set_daemon (\<lambda>d. d\<lparr>shm_attached := True\<rparr>)) (\<lambda>_.
       if \<not> shmat_ok M then ret False
       else andThen (set_daemon (\<lambda>d. d\<lparr>shm_shared := True\<rparr>)) (\<lambda>_. ret True)))"

definition Daemon_Exit :: "(bool, 'd, 'k) program" where
  "Daemon_Exit =
     andThen (read_state (\<lambda>p. shm_attached (daemon p))) (\<lambda>attached.
     if attached then ret True else fault Uninitialised)"

definition Daemon_OnTimer :: "int \<Rightarrow> (unit, 'd, 'k) program" where
  "Daemon_OnTimer current_time =
     andThen (read_state daemon) (\<lambda>d.
     if current_time - last_write_time d > 500000 then
       andThen (if shm_shared d then change (\<lambda>p. p\<lparr>shared_time := current_time\<rparr>) else ret ()) (\<lambda>_.
       set_daemon (\<lambda>d. d\<lparr>last_write_time := current_time\<rparr>))
     else ret ())"

section \<open>The main loop\<close>

definition main_clock :: "('d, 'j, 'p, 'k) main_env \<Rightarrow> (int, 'd, 'k) program" where
  "main_clock M = on_handles (HighResolution (me_env M))"

definition module_timer :: "('d, 'j, 'p, 'k) main_env \<Rightarrow> module \<Rightarrow> int \<Rightarrow> (unit, 'd, 'k) program" where
  "module_timer M m current_time =
     (case m of
        DaemonModule \<Rightarrow> Daemon_OnTimer current_time
      | HandleModule \<Rightarrow> andThen (read_state (env_of M)) (\<lambda>E. on_handles (react E (me_parsers M) (Tick current_time))))"

definition run_module :: "('d, 'j, 'p, 'k) main_env \<Rightarrow> module \<Rightarrow> (unit, 'd, 'k) program" where
  "run_module M item =
     andThen (main_clock M) (\<lambda>now.
     andThen (read_state (\<lambda>p. timer_of p item)) (\<lambda>t.
     andThen (TimerWrapper (module_timer M item) (main_clock M) now t) (\<lambda>t'.
     change (\<lambda>p. p\<lparr>timer_of := (timer_of p)(item := t')\<rparr>))))"

text \<open>One turn of \<open>RunLoop\<close>. A timer that took too long and expired logs change nothing here.\<close>

definition loop_turn :: "('d, 'j, 'p, 'k) main_env \<Rightarrow> (unit, 'd, 'k) program" where
  "loop_turn M =
     andThen (main_clock M) (\<lambda>current_time.
     andThen (read_state notifys) (\<lambda>items.
     andThen (in_turn (map (run_module M) items)) (\<lambda>_.
     andThen (in_part timer_queue (\<lambda>t p. p\<lparr>timer_queue := t\<rparr>) (OnTimer (me_callback M) current_time)) (\<lambda>_. ret ()))))"

section \<open>Start and stop\<close>

primrec all_of :: "(bool, 's) prog list \<Rightarrow> (bool, 's) prog" where
  "all_of [] = ret True"
| "all_of (m # ms) = andThen m (\<lambda>ok. if ok then all_of ms else ret False)"

text \<open>A part that was started is put on the stack of the parts to be stopped.\<close>

definition stage :: "part \<Rightarrow> (bool, 'd, 'k) program \<Rightarrow> (bool, 'd, 'k) program" where
  "stage x init =
     andThen (read_state enabled) (\<lambda>go.
     if \<not> go then ret False
     else
       andThen init (\<lambda>ok.
       if ok then
         andThen (change (\<lambda>p. p\<lparr>exit_stack := x # exit_stack p, life_log := life_log p @ [Started x]\<rparr>)) (\<lambda>_. ret True)
       else ret False))"

definition load_config :: "('d, 'j, 'p, 'k) main_env \<Rightarrow> (bool, 'd, 'k) program" where
  "load_config M = in_part config (\<lambda>c p. p\<lparr>config := c\<rparr>) (ConfigureBase_Load (me_config M) (me_contents M))"

definition start_handles :: "('d, 'j, 'p, 'k) main_env \<Rightarrow> (bool, 'd, 'k) program" where
  "start_handles M =
     andThen (read_state (env_of M)) (\<lambda>E.
     andThen (on_handles (Manager_Initialize E)) (\<lambda>ok.
     if ok then andThen (RegisterModule HandleModule) (\<lambda>_. ret True) else ret False))"

definition start_web :: "('d, 'j, 'p, 'k) main_env \<Rightarrow> (bool, 'd, 'k) program" where
  "start_web M =
     andThen (read_state (\<lambda>p. (env_of M p, webserver_configure (config p)))) (\<lambda>(E, c).
     WebServer_Initialize E (me_ws M) (me_web M) c)"

definition main_init :: "('d, 'j, 'p, 'k) main_env \<Rightarrow> (bool, 'd, 'k) program" where
  "main_init M = all_of
     [stage DaemonPart (Daemon_Initialize M),
      load_config M,
      stage LoggerPart (ret (logger_ok M)),
      stage DatabasePart (ret (database_ok M)),
      stage HandlesPart (start_handles M),
      stage WebPart (start_web M)]"

definition exit_of :: "part \<Rightarrow> (bool, 'd, 'k) program" where
  "exit_of x =
     (case x of
        DaemonPart \<Rightarrow> Daemon_Exit
      | WebPart \<Rightarrow> WebServer_Exit
      | _ \<Rightarrow> ret True)"

primrec stop_parts :: "part list \<Rightarrow> (unit, 'd, 'k) program" where
  "stop_parts [] = ret ()"
| "stop_parts (x # xs) =
     andThen (exit_of x) (\<lambda>_.
     andThen (change (\<lambda>p. p\<lparr>exit_stack := xs, life_log := life_log p @ [Stopped x]\<rparr>)) (\<lambda>_. stop_parts xs))"

definition object_exit :: "(unit, 'd, 'k) program" where
  "object_exit = andThen (read_state exit_stack) stop_parts"

text \<open>A new process: everything but the database and the shared memory is new.\<close>

definition new_process :: "('d, 'j, 'p, 'k) main_env \<Rightarrow> ('d, 'k) main_process \<Rightarrow> ('d, 'k) main_process" where
  "new_process M p = p\<lparr>
     handles := fresh_process (handles p),
     clients := (\<lambda>_. \<lparr>wc_connected = False, ping_in_flight = False, wc_url = [], wc_last_receive_time = None\<rparr>),
     ws_log := [],
     web_server := WebServer_new,
     config := (case me_junk M of (f1, g1, f2, g2, i2) \<Rightarrow>
       \<lparr>logger_configure = LoggerConfigure_new, layer1_configure = Layer1Configure_new f1 g1,
        layer2_configure = Layer2Configure_new f2 g2 i2, webserver_configure = WebServerConfigure_new,
        pub_to_address = Map.empty\<rparr>),
     notifys := [],
     timer_of := (\<lambda>m. case m of DaemonModule \<Rightarrow> new_TimerNotify ''Daemon'' 0 | HandleModule \<Rightarrow> HandleManager_timer),
     daemon := \<lparr>last_write_time = 0, shm_shared = False, shm_attached = False\<rparr>,
     enabled := True,
     timer_queue := new_Timer,
     exit_stack := [],
     life_log := []\<rparr>"

section \<open>What can happen\<close>

datatype action = Socket ws_event | Request web_request | Turn

fun act :: "('d, 'j, 'p, 'k) main_env \<Rightarrow> action \<Rightarrow> (unit, 'd, 'k) program" where
  "act M (Socket ev) = andThen (read_state (env_of M)) (\<lambda>E. ws_react E (me_parsers M) (me_ws M) ev)"
| "act M (Request rq) = andThen (read_state (env_of M)) (\<lambda>E. andThen (serve E (me_web M) rq) (\<lambda>_. ret ()))"
| "act M Turn = andThen (read_state enabled) (\<lambda>go. if go then loop_turn M else ret ())"

text \<open>A process dies of a fault or is killed between two actions; another one is then started.\<close>

inductive lives :: "('d, 'j, 'p, 'k) main_env \<Rightarrow> ('d, 'k) main_process \<Rightarrow> ('d, 'k) main_process \<Rightarrow> bool" for M q where
  born: "main_init M (new_process M q) = Done True p \<Longrightarrow> lives M q p"
| acts: "lives M q p \<Longrightarrow> act M a p = Done () p' \<Longrightarrow> lives M q p'"
| signal: "lives M q p \<Longrightarrow> lives M q (p\<lparr>enabled := False\<rparr>)"
| killed: "lives M q p \<Longrightarrow> main_init M (new_process M p) = Done True p' \<Longrightarrow> lives M q p'"
| died: "lives M q p \<Longrightarrow> act M a p = Fault f q' \<Longrightarrow> main_init M (new_process M q') = Done True p' \<Longrightarrow> lives M q p'"

end
