(* ===== verification/Main_Facts.thy ===== *)
theory Main_Facts
  imports Main_Program Sample
begin

text \<open>
  What holds of every process of the agent: the three invariants of its parts, together, along every action,
  over crashes and restarts; and the order in which its parts are stopped.
\<close>

section \<open>Frames\<close>

interpretation configs: web_frame "\<lambda>p :: ('d, 'k) main_process. config p = c" for c
  by unfold_locales simp_all

interpretation stacks: web_frame "\<lambda>p :: ('d, 'k) main_process. exit_stack p = xs \<and> life_log p = l" for xs l
  by unfold_locales simp_all

interpretation daemons: web_frame "\<lambda>p :: ('d, 'k) main_process. daemon p = d" for d
  by unfold_locales simp_all

interpretation logs: web_frame "\<lambda>p :: ('d, 'k) main_process. life_log p = l" for l
  by unfold_locales simp_all

lemma hoare_conj: "hoare F P m Q \<Longrightarrow> hoare F P' m Q' \<Longrightarrow> hoare F (\<lambda>s. P s \<and> P' s) m (\<lambda>a s. Q a s \<and> Q' a s)"
  by (fastforce simp: hoare_def split: outcome.splits)


lemma coherent_env_with [simp]: "coherent (env_with E c) = coherent E"
  by (rule ext) (simp add: coherent_def entry_ok_def env_with_def)

lemma external_ok_env_with [simp]: "external_ok (env_with E c) = external_ok E"
  by (simp add: external_ok_def protobuf_ok_def plain_env_def env_with_def)

lemma stored_ok_env_with [simp]: "stored_ok (env_with E c) = stored_ok E"
  by (rule ext) (simp add: stored_ok_def env_with_def)

section \<open>Actions\<close>

lemma keeps_main_clock: "(\<And>p w. J (p\<lparr>handles := w\<rparr>) = J p) \<Longrightarrow> keeps J (main_clock M)"
  by (simp add: keeps_def main_clock_def on_handles_def in_part_def split: outcome.split)

text \<open>What one turn of the loop keeps, given what the timers of the two modules keep.\<close>

lemma keeps_loop_turn:
  assumes "keeps J (main_clock M)" and "\<And>m now. keeps J (module_timer M m now)"
    and "\<And>p t. J (p\<lparr>timer_of := t\<rparr>) = J p" and "\<And>p t. J (p\<lparr>timer_queue := t\<rparr>) = J p"
  shows "keeps J (loop_turn M)"
proof -
  have "keeps J (run_module M m)" for m
    unfolding run_module_def TimerWrapper_def Let_def by (intro keeps_intros keeps_change assms) (simp add: assms)
  moreover have "keeps J (in_part timer_queue (\<lambda>t p. p\<lparr>timer_queue := t\<rparr>) m)" for m :: "('x, 'b Timer) prog"
    by (simp add: keeps_def in_part_def assms split: outcome.split)
  ultimately show ?thesis
    unfolding loop_turn_def by (intro keeps_intros keeps_in_turn assms) auto
qed

lemma keeps_coherent_Tick:
  assumes "external_ok (me_env M)" and "parsers_ok (me_parsers M)"
  shows "keeps (\<lambda>p. coherent (me_env M) (handles p)) (module_timer M m now)"
proof -
  have tick: "keeps (\<lambda>p. coherent (me_env M) (handles p)) (on_handles (react (env_with (me_env M) c) (me_parsers M) ev))" for c ev
    using keeps_react [of "env_with (me_env M) c" "me_parsers M" ev] assms by (intro keeps_on_handles) simp
  show ?thesis
    by (cases m) (auto simp: module_timer_def Daemon_OnTimer_def set_daemon_def env_of_def simp del: react.simps
        intro!: keeps_intros keeps_change tick keeps_read_andThen)
qed

lemma keeps_coherent_act:
  assumes "external_ok (me_env M)" and "parsers_ok (me_parsers M)"
  shows "keeps (\<lambda>p. coherent (me_env M) (handles p)) (act M a)"
proof (cases a)
  case (Socket ev)
  have "keeps (\<lambda>p. coherent (me_env M) (handles p)) (ws_react (env_with (me_env M) c) (me_parsers M) (me_ws M) ev)" for c
    using keeps_react [of "env_with (me_env M) c" "me_parsers M"] assms
    by (intro keeps_ws_handles keeps_coherent_requests) simp
  then show ?thesis unfolding Socket act.simps env_of_def by (intro keeps_read_andThen) 
next
  case (Request rq)
  show ?thesis unfolding Request act.simps env_of_def by (intro keeps_read_andThen keeps_intros keeps_coherent_serve)
next
  case Turn
  show ?thesis unfolding Turn act.simps
    by (intro keeps_intros keeps_loop_turn keeps_coherent_Tick assms)
      (simp_all add: main_clock_def keeps_on_handles keeps_coherent_requests)
qed

lemma keeps_turn_frame:
  assumes "web_frame J" and "\<And>p d. J (p\<lparr>daemon := d\<rparr>) = J p" and "\<And>p t. J (p\<lparr>shared_time := t\<rparr>) = J p"
    and "\<And>p t. J (p\<lparr>timer_of := t\<rparr>) = J p" and "\<And>p t. J (p\<lparr>timer_queue := t\<rparr>) = J p"
  shows "keeps J (loop_turn M)"
proof (rule keeps_loop_turn)
  have handled: "keeps J (on_handles m)" for m
    by (rule host_frame.frame_handles [OF web_frame.axioms(1) [OF assms(1)]])
  then show "keeps J (main_clock M)" by (simp add: main_clock_def)
  show "keeps J (module_timer M m now)" for m now
    by (cases m) (auto simp: module_timer_def Daemon_OnTimer_def set_daemon_def assms intro!: keeps_intros keeps_change handled)
qed (simp_all add: assms)

lemma clients_ok_frame [simp]:
  "clients_ok E S (p\<lparr>daemon := d\<rparr>) = clients_ok E S p" "clients_ok E S (p\<lparr>shared_time := t\<rparr>) = clients_ok E S p"
  "clients_ok E S (p\<lparr>timer_of := ts\<rparr>) = clients_ok E S p" "clients_ok E S (p\<lparr>timer_queue := q\<rparr>) = clients_ok E S p"
  "clients_ok E S (p\<lparr>enabled := b\<rparr>) = clients_ok E S p" "clients_ok E S (p\<lparr>notifys := ms\<rparr>) = clients_ok E S p"
  "clients_ok E S (p\<lparr>exit_stack := xs\<rparr>) = clients_ok E S p" "clients_ok E S (p\<lparr>life_log := l\<rparr>) = clients_ok E S p"
  for p :: "('d, 'k) main_process"
  by (simp_all add: clients_ok_def)

lemma keeps_clients_turn: "keeps (clients_ok E S) (loop_turn M)"
proof (rule keeps_loop_turn)
  show "keeps (clients_ok E S) (module_timer M m now)" for m now
    by (cases m) (auto simp: module_timer_def Daemon_OnTimer_def set_daemon_def intro!: keeps_intros keeps_change keeps_ok_handles)
qed (simp_all add: main_clock_def keeps_ok_handles)

definition configured :: "('d, 'j, 'p, 'k) main_env \<Rightarrow> configure \<Rightarrow> ('d, 'k) main_process \<Rightarrow> bool" where
  "configured M c p \<longleftrightarrow> clients_ok (env_with (me_env M) c) (me_ws M) p \<and> config p = c"

lemma configured_act: "hoare UNIV (configured M c) (act M a) (\<lambda>_. configured M c)"
proof -
  let ?E = "env_with (me_env M) c"
  have both: "hoare UNIV (configured M c) m (\<lambda>_. configured M c)"
    if "hoare UNIV (clients_ok ?E (me_ws M)) m (\<lambda>_. clients_ok ?E (me_ws M))" "keeps (\<lambda>p. config p = c) m" for m
    unfolding configured_def using hoare_conj [OF that(1) keeps_hoare [OF that(2)]] .
  have read: "hoare UNIV (configured M c) (andThen (read_state (env_of M)) k) (\<lambda>_. configured M c)"
    if "hoare UNIV (configured M c) (k ?E) (\<lambda>_. configured M c)" for k :: "_ \<Rightarrow> (unit, 'a, 'b) program"
    using that by (auto simp: hoare_def prog_simps env_of_def configured_def)
  show ?thesis
  proof (cases a)
    case (Socket ev)
    show ?thesis unfolding Socket act.simps by (intro read both ws_react_ok configs.frame_clients)
  next
    case (Request rq)
    show ?thesis unfolding Request act.simps
      by (intro read both keeps_hoare keeps_intros keeps_clients_serve configs.frame_serve)
  next
    case Turn
    have "keeps (\<lambda>p. config p = c) (loop_turn M)"
      by (rule keeps_turn_frame) (unfold_locales, simp_all)
    then show ?thesis unfolding Turn act.simps
      by (intro both keeps_hoare keeps_intros keeps_clients_turn)
  qed
qed

section \<open>Starting\<close>

definition unstarted :: "('d, 'j, 'p, 'k) main_env \<Rightarrow> ('d, 'k) main_process \<Rightarrow> bool" where
  "unstarted M p \<longleftrightarrow> tables (handles p) = (\<lambda>_. []) \<and> stored_ok (me_env M) (db (handles p)) \<and>
     (\<forall>l. \<not> wc_connected (clients p l))"

definition process_ok :: "('d, 'j, 'p, 'k) main_env \<Rightarrow> ('d, 'k) main_process \<Rightarrow> bool" where
  "process_ok M p \<longleftrightarrow> coherent (me_env M) (handles p) \<and> configured M (config p) p \<and> usable_config (me_config M) (config p)"

lemma hoare_all_of:
  "hoare F P m (\<lambda>ok s. ok \<longrightarrow> R s) \<Longrightarrow> hoare F R (all_of ms) (\<lambda>ok s. ok \<longrightarrow> Q s) \<Longrightarrow>
   hoare F P (all_of (m # ms)) (\<lambda>ok s. ok \<longrightarrow> Q s)"
  by (fastforce simp: hoare_def prog_simps split: outcome.splits)

lemma hoare_all_of_Nil: "hoare F P (all_of []) (\<lambda>ok s. ok \<longrightarrow> P s)"
  by (simp add: hoare_ret)

lemma hoare_stage:
  "hoare F P init (\<lambda>ok p. ok \<longrightarrow> R p) \<Longrightarrow> (\<And>p xs l. R (p\<lparr>exit_stack := xs, life_log := l\<rparr>) = R p) \<Longrightarrow>
   hoare F P (stage x init) (\<lambda>ok p. ok \<longrightarrow> R p)"
  by (fastforce simp: hoare_def stage_def prog_simps split: outcome.splits)

lemma start_daemon: "keeps (unstarted M) (Daemon_Initialize M)" "keeps (\<lambda>p. pub_to_address (config p) = Map.empty) (Daemon_Initialize M)"
  unfolding Daemon_Initialize_def RegisterModule_def set_daemon_def
  by (intro keeps_intros keeps_change; simp add: unstarted_def)+

lemma start_config:
  "hoare UNIV (\<lambda>p. unstarted M p \<and> pub_to_address (config p) = Map.empty) (load_config M)
     (\<lambda>ok p. ok \<longrightarrow> unstarted M p \<and> usable_config (me_config M) (config p))"
  by (auto simp: hoare_def load_config_def in_part_def unstarted_def split: outcome.split
      dest: accepted_usable)

lemma start_manager:
  assumes "external_ok (me_env M)"
  shows "hoare UNIV (\<lambda>p. unstarted M p \<and> usable_config (me_config M) (config p)) (start_handles M)
     (\<lambda>ok p. ok \<longrightarrow> process_ok M p)"
proof -
  have "coherent (me_env M) w'" if "unstarted M p" "Manager_Initialize (env_of M p) (handles p) = Done True w'" for p w'
  proof -
    have "fresh_process (handles p) = handles p" using that(1) by (simp add: unstarted_def fresh_process_def)
    then show ?thesis
      using Manager_Initialize_recovers(1) [of "env_of M p" "handles p" w'] that assms by (simp add: env_of_def unstarted_def)
  qed
  then show ?thesis
    by (fastforce simp: hoare_def start_handles_def on_handles_def in_part_def RegisterModule_def prog_simps process_ok_def
        configured_def unstarted_def clients_ok_def split: outcome.splits)
qed

lemma start_server:
  assumes "external_ok (me_env M)" and "parsers_ok (me_parsers M)"
  shows "hoare UNIV (process_ok M) (start_web M) (\<lambda>ok p. ok \<longrightarrow> process_ok M p)"
proof -
  have "hoare UNIV (\<lambda>p :: ('a, 'd) main_process. coherent (me_env M) (handles p) \<and> clients_ok (env_with (me_env M) c) (me_ws M) p \<and> config p = c)
      (WebServer_Initialize (env_with (me_env M) c) (me_ws M) (me_web M) wc)
      (\<lambda>_ p. coherent (me_env M) (handles p) \<and> clients_ok (env_with (me_env M) c) (me_ws M) p \<and> config p = c)" for c wc
  proof (rule hoare_conj [OF keeps_hoare [OF keeps_coherent_start] hoare_conj [OF WebServer_Initialize_ok keeps_hoare]])
    show "keeps (coherent (me_env M)) (react (env_with (me_env M) c) (me_parsers M) ev)" for ev
      using keeps_react [of "env_with (me_env M) c" "me_parsers M"] assms by simp
  qed (rule configs.frame_serve)
  note init = this
  show ?thesis
    unfolding hoare_def
  proof (intro allI impI)
    fix p assume p: "process_ok M p"
    have run: "start_web M p = WebServer_Initialize (env_of M p) (me_ws M) (me_web M) (webserver_configure (config p)) p"
      by (simp add: start_web_def prog_simps)
    show "case start_web M p of Done ok p' \<Rightarrow> ok \<longrightarrow> process_ok M p' | Fault f s \<Rightarrow> f \<in> UNIV"
      using init [of "config p" "webserver_configure (config p)", unfolded hoare_def, rule_format, of p] p
      by (simp add: run env_of_def process_ok_def configured_def split: outcome.splits)
  qed
qed

lemma main_init_ok:
  assumes "external_ok (me_env M)" and "parsers_ok (me_parsers M)" and "stored_ok (me_env M) (db (handles q))"
    and "main_init M (new_process M q) = Done True p"
  shows "process_ok M p"
proof -
  let ?b = "\<lambda>p. unstarted M p \<and> pub_to_address (config p) = Map.empty"
  let ?u = "\<lambda>p. unstarted M p \<and> usable_config (me_config M) (config p)"
  have frames: "unstarted M (p\<lparr>exit_stack := xs, life_log := l\<rparr>) = unstarted M p"
    "process_ok M (p\<lparr>exit_stack := xs, life_log := l\<rparr>) = process_ok M p" for p xs l
    by (simp_all add: unstarted_def process_ok_def configured_def)
  have s1: "hoare UNIV ?b (stage DaemonPart (Daemon_Initialize M)) (\<lambda>ok p. ok \<longrightarrow> ?b p)"
    by (rule hoare_stage, rule hoare_post [OF hoare_conj [OF keeps_hoare [OF start_daemon(1)] keeps_hoare [OF start_daemon(2)]]])
      (simp_all add: frames)
  have s3: "hoare UNIV ?u (stage x (ret b)) (\<lambda>ok p. ok \<longrightarrow> ?u p)" for x b
    by (rule hoare_stage) (simp_all add: hoare_ret frames)
  have s5: "hoare UNIV ?u (stage HandlesPart (start_handles M)) (\<lambda>ok p. ok \<longrightarrow> process_ok M p)"
    by (rule hoare_stage [OF start_manager [OF assms(1)]]) (simp add: frames)
  have s6: "hoare UNIV (process_ok M) (stage WebPart (start_web M)) (\<lambda>ok p. ok \<longrightarrow> process_ok M p)"
    by (rule hoare_stage [OF start_server [OF assms(1,2)]]) (simp add: frames)
  have "hoare UNIV ?b (main_init M) (\<lambda>ok p. ok \<longrightarrow> process_ok M p)"
    unfolding main_init_def
    by (rule hoare_all_of [OF s1 hoare_all_of [OF start_config hoare_all_of [OF s3 hoare_all_of [OF s3
        hoare_all_of [OF s5 hoare_all_of [OF s6 hoare_all_of_Nil]]]]]])
  from hoare_Done [OF this _ assms(4)] assms(3) show ?thesis
    by (simp add: new_process_def unstarted_def fresh_process_def split: prod.split)
qed

lemma lives_ok:
  assumes "external_ok (me_env M)" and "parsers_ok (me_parsers M)" and "stored_ok (me_env M) (db (handles q))"
    and "lives M q p"
  shows "process_ok M p"
  using assms(4)
proof (induction rule: lives.induct)
  case (born p)
  then show ?case using main_init_ok [OF assms(1-3)] by blast
next
  case (acts p a p')
  have "coherent (me_env M) (handles p')"
    using keeps_Done [OF keeps_coherent_act [OF assms(1,2)] _ acts(2)] acts(3) by (simp add: process_ok_def)
  moreover have "configured M (config p) p'"
    using hoare_Done [OF configured_act _ acts(2)] acts(3) by (simp add: process_ok_def)
  ultimately show ?case using acts(3) by (simp add: process_ok_def configured_def)
next
  case (signal p)
  then show ?case by (simp add: process_ok_def configured_def)
next
  case (killed p p')
  then show ?case using main_init_ok [OF assms(1,2)] coherent_stored by (auto simp: process_ok_def)
next
  case (died p a f q' p')
  have "coherent (me_env M) (handles q')"
    using keeps_Fault [OF keeps_coherent_act [OF assms(1,2)] _ died(2)] died(4) by (simp add: process_ok_def)
  then show ?case using main_init_ok [OF assms(1,2) _ died(3)] coherent_stored by blast
qed

section \<open>A small process\<close>

definition sample_main :: "((string, string) smap, answer, nat, unit) main_env" where
  "sample_main = \<lparr>me_env = rich_env, me_parsers = sample_parsers,
     me_ws = \<lparr>we_WsMessage = wm_data, we_parse = (\<lambda>_. None), we_TlogSubscribeRequest = tr_address, we_created = (\<lambda>_ _. True)\<rparr>,
     me_web = \<lparr>core_count = 4, endpoint_throws = False, serve_throws = False, thread_starts = (\<lambda>_. True),
       send_throws = (\<lambda>_ _. None), to_fast_string = (\<lambda>_. ''json'')\<rparr>,
     me_config = sample_config_env, me_contents = Some ''config'', me_junk = (0, 0, 0, 0, 0),
     shmget_ok = True, shmat_ok = True, logger_ok = True, database_ok = True, me_callback = (\<lambda>_ _. ret ())\<rparr>"

definition no_process :: "((string, string) smap, unit) main_process" where
  "no_process = \<lparr>handles = empty_world, clients = (\<lambda>_. \<lparr>wc_connected = False, ping_in_flight = False, wc_url = [],
       wc_last_receive_time = None\<rparr>), ws_log = [], web_server = WebServer_new, config = blank_configure, notifys = [],
     timer_of = (\<lambda>_. HandleManager_timer), daemon = \<lparr>last_write_time = 0, shm_shared = False, shm_attached = False\<rparr>,
     shared_time = 0, enabled = True, timer_queue = new_Timer, exit_stack = [], life_log = []\<rparr>"

lemma rich_handles:
  assumes "cfg_fee_limit (layer1_configure c) = 20000" "cfg_gas_price (layer1_configure c) = 3"
    "cfg_fee_limit (layer2_configure c) = 20000" "cfg_gas_price (layer2_configure c) = 3" and "db w = []"
  shows "\<exists>w'. Manager_Initialize (env_with rich_env c) w = Done True w'"
proof -
  have loads: "load_table (env_with rich_env c) t stamped w = Done () w" if "db w = []" for t stamped w
    using that by (simp add: load_table_def GetAllValueByPrefix_def Storage_GetAllValueByPrefix_def GetAllByIterator_def
        env_with_def rich_env_def sample_env_def sample_rocks_def tidy_def prog_simps)
  have balance: "GetBalance (env_with rich_env c) url a w = Done (Some 9000000) (log_io (HttpGet url (''/getAccountBase?address='' @ a)) w)" for url a w
    by (simp add: GetBalance_def makeGetRequest_def jget_def jint64_def jmember_def env_with_def rich_env_def sample_env_def
        sample_json_def fits64_def prog_simps)
  show ?thesis
    using assms(1-4) by (simp add: Manager_Initialize_def CheckLayer1Balance_def CheckLayer2Balance_def min_balance_def env_with_def fits64_def
        balance [unfolded env_with_def] A_Initialize_def B_Initialize_def prog_simps loads [unfolded env_with_def] assms(5))
qed

lemma sample_web_starts: "\<exists>p'. start_web sample_main p = Done True p' \<and> daemon p' = daemon p"
  by (simp add: start_web_def WebServer_Initialize_def ws_Initialize_def ws_init_def ws_set_def StartClient_def ws_connect_def ws_run_def
      ws_do_def sample_main_def prog_simps)

lemma sample_main_starts: "\<exists>p. main_init sample_main (new_process sample_main no_process) = Done True p \<and> shm_attached (daemon p)"
proof -
  obtain c where c: "ConfigureBase_Load sample_config_env (Some ''config'') blank_configure = Done True c"
    "cfg_fee_limit (layer1_configure c) = 20000" "cfg_gas_price (layer1_configure c) = 3"
    "cfg_fee_limit (layer2_configure c) = 20000" "cfg_gas_price (layer2_configure c) = 3" using sample_config_run by blast
  have config: "load_config sample_main p = Done True (p\<lparr>config := c\<rparr>)" if "config p = blank_configure" for p
    using c(1) that by (simp add: load_config_def in_part_def sample_main_def)
  have daemon: "Daemon_Initialize sample_main p = Done True (p\<lparr>notifys := notifys p @ [DaemonModule],
      daemon := daemon p\<lparr>shm_attached := True, shm_shared := True\<rparr>\<rparr>)" for p
    by (simp add: Daemon_Initialize_def RegisterModule_def set_daemon_def sample_main_def prog_simps)
  obtain w where w: "Manager_Initialize (env_with rich_env c) (fresh_process empty_world) = Done True w"
    using rich_handles [OF c(2-5), of "fresh_process empty_world"] by (auto simp: fresh_process_def empty_world_def)
  have hd: "start_handles sample_main p = Done True (p\<lparr>handles := w, notifys := notifys p @ [HandleModule]\<rparr>)"
    if "config p = c" "handles p = fresh_process empty_world" for p
    using that w by (simp add: start_handles_def env_of_def on_handles_def in_part_def RegisterModule_def prog_simps sample_main_def)
  have new: "config (new_process sample_main no_process) = blank_configure" "enabled (new_process sample_main no_process)"
    "handles (new_process sample_main no_process) = fresh_process empty_world"
    by (simp_all add: new_process_def sample_main_def blank_configure_def no_process_def)
  define after where "after p = (SOME p'. start_web sample_main p = Done True p' \<and> daemon p' = daemon p)" for p
  have web: "start_web sample_main p = Done True (after p)" "daemon (after p) = daemon p" for p
    using someI_ex [OF sample_web_starts [of p]] by (simp_all add: after_def)
  have "logger_ok sample_main" "database_ok sample_main" by (simp_all add: sample_main_def)
  then show ?thesis
    by (simp add: main_init_def stage_def prog_simps daemon config hd new web)
qed



section \<open>Stopping\<close>

definition parts_in_order :: "part list" where
  "parts_in_order = [DaemonPart, LoggerPart, DatabasePart, HandlesPart, WebPart]"

text \<open>The stack holds the first \<open>n\<close> parts, the last one started on top.\<close>

definition started :: "nat \<Rightarrow> ('d, 'k) main_process \<Rightarrow> bool" where
  "started n p \<longleftrightarrow> exit_stack p = rev (take n parts_in_order) \<and> life_log p = map Started (take n parts_in_order)"

definition started_some :: "('d, 'k) main_process \<Rightarrow> bool" where
  "started_some p \<longleftrightarrow> (\<exists>n. started n p)"

lemma keeps_started:
  "keeps (started n) (Daemon_Initialize M)" "keeps (started n) (load_config M)" "keeps (started n) (start_handles M)"
  "keeps (started n) (start_web M)"
proof -
  show "keeps (started n) (Daemon_Initialize M)"
    unfolding Daemon_Initialize_def RegisterModule_def set_daemon_def
    by (intro keeps_intros keeps_change; simp add: started_def)
  show "keeps (started n) (load_config M)"
    by (simp add: keeps_def load_config_def in_part_def started_def split: outcome.split)
  show "keeps (started n) (start_handles M)"
    unfolding start_handles_def RegisterModule_def started_def
    by (intro keeps_intros keeps_change stacks.frame_handles) simp
  show "keeps (started n) (start_web M)"
    unfolding start_web_def started_def case_prod_beta by (intro keeps_intros stacks.frame_serve)
qed

lemma started_stage:
  assumes "keeps (started n) init" and "n < 5" and "x = parts_in_order ! n"
  shows "hoare UNIV (started n) (stage x init) (\<lambda>ok p. if ok then started (Suc n) p else started n p)"
proof -
  have "take (Suc n) parts_in_order = take n parts_in_order @ [x]"
    using assms(2,3) take_Suc_conv_app_nth [of n parts_in_order] by (simp add: parts_in_order_def)
  note next_part = this
  show ?thesis
    unfolding hoare_def
  proof (intro allI impI)
    fix p :: "('a, 'b) main_process" assume "started n p"
    then have "started n (state_of (init p))" by (rule keepsD [OF assms(1)])
    then show "case stage x init p of Done ok p' \<Rightarrow> if ok then started (Suc n) p' else started n p' | Fault f s \<Rightarrow> f \<in> UNIV"
      using \<open>started n p\<close> by (cases "init p") (simp_all add: stage_def started_def prog_simps next_part)
  qed
qed

lemma hoare_all_of_flag:
  assumes "hoare F P m (\<lambda>ok s. if ok then R s else S s)" and "hoare F R (all_of ms) (\<lambda>ok s. if ok then Q s else S s)"
  shows "hoare F P (all_of (m # ms)) (\<lambda>ok s. if ok then Q s else S s)"
  using assms by (fastforce simp: hoare_def prog_simps split: outcome.splits if_splits)

lemma main_init_started:
  "hoare UNIV (started 0) (main_init M) (\<lambda>ok p. if ok then started 5 p else started_some p)"
proof -
  have step: "hoare UNIV (started n) (stage (parts_in_order ! n) init) (\<lambda>ok p. if ok then started m p else started_some p)"
    if "keeps (started n) init" "n < 5" "m = Suc n" for n m init
    unfolding that(3) using started_stage [OF that(1,2) refl] by (rule hoare_post) (auto simp: started_some_def)
  have load: "hoare UNIV (started n) (load_config M) (\<lambda>ok p. if ok then started n p else started_some p)" for n
    using keeps_hoare [OF keeps_started(2)] by (rule hoare_post) (auto simp: started_some_def)
  have nth: "parts_in_order ! 0 = DaemonPart" "parts_in_order ! 1 = LoggerPart" "parts_in_order ! 2 = DatabasePart"
    "parts_in_order ! 3 = HandlesPart" "parts_in_order ! 4 = WebPart" by (simp_all add: parts_in_order_def)
  note s = step [of 0 _ 1, unfolded nth] step [of 1 _ 2, unfolded nth] step [of 2 _ 3, unfolded nth] step [of 3 _ 4, unfolded nth]
    step [of 4 _ 5, unfolded nth]
  show ?thesis
    unfolding main_init_def
    by (rule hoare_all_of_flag [OF s(1) hoare_all_of_flag [OF load hoare_all_of_flag [OF s(2) hoare_all_of_flag [OF s(3)
        hoare_all_of_flag [OF s(4) hoare_all_of_flag [OF s(5)]]]]]])
      (auto simp: keeps_started keeps_ret intro!: hoare_ret)
qed

lemma started_act: "keeps (started n) (act M a)"
proof (cases a)
  case (Socket ev)
  show ?thesis unfolding Socket act.simps started_def by (intro keeps_intros stacks.frame_clients)
next
  case (Request rq)
  show ?thesis unfolding Request act.simps started_def by (intro keeps_intros stacks.frame_serve)
next
  case Turn
  have "keeps (started n) (loop_turn M)"
    unfolding started_def by (rule keeps_turn_frame) (unfold_locales, simp_all)
  then show ?thesis unfolding Turn act.simps by (intro keeps_intros)
qed

lemma new_started: "started 0 (new_process M q)"
  by (simp add: started_def new_process_def split: prod.split)

lemma init_started: "main_init M (new_process M q) = Done ok p \<Longrightarrow> if ok then started 5 p else started_some p"
  by (rule hoare_Done [OF main_init_started new_started])

lemma lives_started: "lives M q p \<Longrightarrow> started 5 p"
proof (induction rule: lives.induct)
  case (acts p a p')
  then show ?case using keeps_Done [OF started_act] by blast
qed (auto dest!: init_started simp: started_def)

lemma keeps_log_exit: "keeps (\<lambda>q. life_log q = l) (exit_of x)"
  by (cases x) (auto simp: exit_of_def Daemon_Exit_def intro!: keeps_intros logs.frame_serve)

lemma stop_parts_log:
  "stop_parts xs p = Done () p' \<Longrightarrow> life_log p' = life_log p @ map Stopped xs \<and> (exit_stack p = xs \<longrightarrow> exit_stack p' = [])"
proof (induction xs arbitrary: p)
  case (Cons x xs)
  then obtain q b where q: "exit_of x p = Done b q"
    "stop_parts xs (q\<lparr>exit_stack := xs, life_log := life_log q @ [Stopped x]\<rparr>) = Done () p'"
    by (auto simp: run_simps change_app)
  have "life_log q = life_log p" using keeps_Done [OF keeps_log_exit _ q(1)] by blast
  with Cons.IH [OF q(2)] show ?case by simp
qed (simp add: ret_def)


lemma object_exit_run:
  assumes "exit_stack p = rev parts_in_order" and "shm_attached (daemon p)"
  shows "\<exists>p'. object_exit p = Done () p'"
proof -
  obtain b q where q: "WebServer_Exit p = Done b q" by (simp add: WebServer_Exit_def ws_Exit_def ws_close_def ws_do_def prog_simps)
  moreover have "daemon q = daemon p" using keeps_Done [OF daemons.frame_serve(3) _ q] by blast
  ultimately show ?thesis
    using assms by (simp add: object_exit_def parts_in_order_def exit_of_def Daemon_Exit_def prog_simps)
qed


section \<open>The heartbeat\<close>

definition beating :: "('d, 'k) main_process \<Rightarrow> bool" where
  "beating p \<longleftrightarrow> shm_shared (daemon p) \<and> shared_time p = last_write_time (daemon p)"

interpretation beats: web_frame "\<lambda>p :: ('d, 'k) main_process. beating p \<and> t \<le> shared_time p" for t
  by unfold_locales (simp_all add: beating_def)

text \<open>The heartbeat never goes back.\<close>

lemma keeps_beat_timer: "keeps (\<lambda>p. beating p \<and> t \<le> shared_time p) (module_timer M m now)"
proof (cases m)
  case DaemonModule
  show ?thesis
    by (auto simp: DaemonModule keeps_def module_timer_def Daemon_OnTimer_def set_daemon_def beating_def prog_simps)
next
  case HandleModule
  show ?thesis unfolding HandleModule module_timer_def module.case by (intro keeps_intros beats.frame_handles)
qed

lemma keeps_beat_turn: "keeps (\<lambda>p. beating p \<and> t \<le> shared_time p) (loop_turn M)"
  by (rule keeps_loop_turn) (simp_all add: main_clock_def beats.frame_handles keeps_beat_timer, simp_all add: beating_def)

lemma keeps_beat_act: "keeps (\<lambda>p. beating p \<and> t \<le> shared_time p) (act M a)"
proof (cases a)
  case (Socket ev)
  show ?thesis unfolding Socket act.simps by (intro keeps_intros beats.frame_clients)
next
  case (Request rq)
  show ?thesis unfolding Request act.simps by (intro keeps_intros beats.frame_serve)
next
  case Turn
  show ?thesis unfolding Turn act.simps by (intro keeps_intros keeps_beat_turn)
qed

inductive runs :: "('d, 'j, 'p, 'k) main_env \<Rightarrow> ('d, 'k) main_process \<Rightarrow> ('d, 'k) main_process \<Rightarrow> bool" for M where
  still: "runs M p p"
| acted: "runs M p q \<Longrightarrow> act M a q = Done () r \<Longrightarrow> runs M p r"
| signalled: "runs M p q \<Longrightarrow> runs M p (q\<lparr>enabled := False\<rparr>)"

lemma runs_beat: "runs M p q \<Longrightarrow> beating p \<Longrightarrow> beating q \<and> shared_time p \<le> shared_time q"
proof (induction rule: runs.induct)
  case (acted p q a r)
  then show ?case using keeps_Done [OF keeps_beat_act [of "shared_time p"] _ acted(2)] by blast
qed (simp_all add: beating_def)

text \<open>The reading of the clock that the first timer of a turn gets.\<close>

definition second_reading :: "('d, 'j, 'p, 'k) main_env \<Rightarrow> ('d, 'k) main_process \<Rightarrow> int" where
  "second_reading M p = high_resolution (me_env M) (trace (handles p) @ [ClockRead])"

lemma turn_beats:
  assumes "act M Turn p = Done () p'" and "enabled p" and "notifys p = DaemonModule # ms" and "beating p"
    and "last_check_time (timer_of p DaemonModule) + check_interval (timer_of p DaemonModule) < second_reading M p"
    and "shared_time p + 500000 < second_reading M p"
  shows "shared_time p < shared_time p'"
proof -
  let ?now = "second_reading M p"
  let ?rest = "andThen (in_turn (map (run_module M) ms)) (\<lambda>_. andThen (in_part timer_queue (\<lambda>t p. p\<lparr>timer_queue := t\<rparr>)
      (OnTimer (me_callback M) (high_resolution (me_env M) (trace (handles p))))) (\<lambda>_. ret ()))"
  let ?p0 = "p\<lparr>handles := log_io ClockRead (handles p)\<rparr>"
  have "act M Turn p = andThen (run_module M DaemonModule) (\<lambda>_. ?rest) ?p0"
    using assms(2,3) by (simp add: loop_turn_def main_clock_def on_handles_def in_part_def HighResolution_def prog_simps split: outcome.split)
  moreover have "case run_module M DaemonModule ?p0 of Done _ q \<Rightarrow> beating q \<and> shared_time q = ?now | Fault f q \<Rightarrow> False"
    using assms(4-6)
    by (simp add: run_module_def main_clock_def on_handles_def in_part_def HighResolution_def prog_simps
        TimerWrapper_def module_timer_def Daemon_OnTimer_def set_daemon_def beating_def second_reading_def)
  ultimately obtain q where q: "beating q" "shared_time q = ?now" and rest: "?rest q = Done () p'"
    using assms(1) by (auto simp: andThen_app [of "run_module M DaemonModule"] split: outcome.splits)
  have "keeps (\<lambda>p. beating p \<and> ?now \<le> shared_time p) (run_module M m)" for m
    unfolding run_module_def TimerWrapper_def Let_def main_clock_def
    by (intro keeps_intros keeps_change keeps_beat_timer beats.frame_handles) (simp add: beating_def)
  then have "keeps (\<lambda>p. beating p \<and> ?now \<le> shared_time p) ?rest"
    by (intro keeps_intros keeps_in_turn) (auto simp: keeps_def in_part_def beating_def split: outcome.split)
  from keeps_Done [OF this _ rest] q assms(6) show ?thesis by simp
qed

text \<open>The check of the watchdog: whether it runs its command, and what it remembers.\<close>

definition watchdog_check :: "int \<Rightarrow> int \<Rightarrow> bool \<times> int" where
  "watchdog_check last_time shared = (last_time = shared, shared)"

text \<open>C40: The watchdog does not restart an agent that is beating when its main loop makes at least one turn between
  two of its checks, half a second after the last beat or later, whatever else the agent does in between.\<close>

theorem live_agent_is_not_restarted:
  assumes "beating p" and "runs M p p1" and "act M Turn p1 = Done () p2" and "runs M p2 p'"
    and "enabled p1" and "notifys p1 = DaemonModule # ms"
    and "last_check_time (timer_of p1 DaemonModule) + check_interval (timer_of p1 DaemonModule) < second_reading M p1"
    and "shared_time p + 500000 < second_reading M p1"
  shows "fst (watchdog_check (snd (watchdog_check last_time (shared_time p))) (shared_time p')) = False"
proof -
  have p1: "beating p1" "shared_time p \<le> shared_time p1" using runs_beat [OF assms(2,1)] by simp_all
  have p2: "beating p2" "shared_time p1 \<le> shared_time p2"
    using keeps_Done [OF keeps_beat_act [of "shared_time p1"] _ assms(3)] p1(1) by simp_all
  have "shared_time p < shared_time p2"
    using turn_beats [OF assms(3,5,6) p1(1) assms(7)] assms(8) p1(2) p2(2) by fastforce
  with runs_beat [OF assms(4) p2(1)] show ?thesis by (simp add: watchdog_check_def)
qed

definition beat_main :: "((string, string) smap, answer, nat, unit) main_env" where
  "beat_main = sample_main\<lparr>me_env := rich_env\<lparr>high_resolution := (\<lambda>_. 2000000)\<rparr>\<rparr>"

definition beating_process :: "((string, string) smap, unit) main_process" where
  "beating_process = no_process\<lparr>notifys := [DaemonModule], shared_time := 7,
     daemon := \<lparr>last_write_time = 7, shm_shared = True, shm_attached = True\<rparr>, timer_of := (\<lambda>_. new_TimerNotify ''Daemon'' 0)\<rparr>"

theorem live_agent_is_not_restarted_witness:
  "\<exists>p'. runs beat_main beating_process p' \<and> fst (watchdog_check (snd (watchdog_check 0 7)) (shared_time p')) = False"
proof -
  let ?p = beating_process
  have p: "beating ?p" "enabled ?p" "notifys ?p = DaemonModule # []" "shared_time ?p = 7"
    "last_check_time (timer_of ?p DaemonModule) + check_interval (timer_of ?p DaemonModule) < second_reading beat_main ?p"
    "shared_time ?p + 500000 < second_reading beat_main ?p"
    by (simp_all add: beating_def beating_process_def no_process_def second_reading_def beat_main_def new_TimerNotify_def)
  obtain p' where p': "act beat_main Turn ?p = Done () p'"
    using p(1-4)
    by (simp add: loop_turn_def run_module_def main_clock_def on_handles_def in_part_def HighResolution_def prog_simps
        TimerWrapper_def module_timer_def Daemon_OnTimer_def set_daemon_def beat_main_def beating_process_def no_process_def
        new_TimerNotify_def OnTimer_def new_Timer_def add64_def fits64_def CheckExpire_def Let_def)
  from live_agent_is_not_restarted [OF p(1) runs.still p' runs.still p(2,3,5,6), of 0] p(4)
  show ?thesis using runs.acted [OF runs.still p'] by auto
qed

end
