(* ===== verification/Spec2Isabelle.thy ===== *)
theory Spec2Isabelle
  imports Sample Md5 Crc Text Network_Check Main_Facts
begin

text \<open>
  A cross-chain agent.
\<close>




text \<open>C4: A timer run that completes has not taken a single transaction out of any table: a run that
  finds a resolved transaction and clears it never completes, because the loop then goes on from an
  iterator of the element it erased.\<close>

theorem timer_run_completes_only_without_clearing:
  assumes "external_ok E" and "coherent E w" and "Manager_OnTimer E now w = Done () w'"
  shows "pending w t \<subseteq> pending w' t"
  by (rule cleanD(2) [OF clean_OnTimer [OF assms(1)] assms(2,3)])


theorem timer_run_completes_only_without_clearing_witness:
  "\<exists>w'. Manager_OnTimer chain_env 9 (one_entry L2_start_tx_info_map sample_msg None) = Done () w' \<and>
     pending (one_entry L2_start_tx_info_map sample_msg None) L2_start_tx_info_map \<subseteq> pending w' L2_start_tx_info_map"
proof -
  let ?w = "one_entry L2_start_tx_info_map sample_msg None"
  have co: "coherent chain_env ?w" by (rule chain_coherent) simp
  have "value_of (Manager_OnTimer chain_env 9 ?w) = Some ()" by code_simp
  then obtain w' where "Manager_OnTimer chain_env 9 ?w = Done () w'"
    by (cases "Manager_OnTimer chain_env 9 ?w") simp_all
  then show ?thesis using timer_run_completes_only_without_clearing [OF chain_env_ok co] by blast
qed

text \<open>C5: No step of a timer run or of a block confirmation is lost to the bound of the model: the
  loops over the tables end.\<close>

theorem table_loops_end:
  assumes "external_ok E" and "coherent E w"
  shows "Manager_OnTimer E now w \<noteq> Fault OutOfFuel w' \<and> B_HandleConfirmSeqEvent E n w \<noteq> Fault OutOfFuel w'"
  using cleanD(3) [OF clean_OnTimer [OF assms(1)] assms(2)]
    for_each_result(1) [where body = "B_HandleConfirmSeqEvent_body E n",
      OF keeps_or_erases_bodies(4) [OF assms(1)] assms(2)]
  by (simp add: B_HandleConfirmSeqEvent_def run_simps)

theorem table_loops_end_witness:
  "Manager_OnTimer chain_env 9 (one_entry L2_start_tx_info_map sample_msg None) \<noteq> Fault OutOfFuel empty_world"
  using table_loops_end [OF chain_env_ok chain_coherent] by simp

text \<open>C6: A transaction that waits on layer 2 for its confirmation is never lost: whatever a block
  confirmation or the start timeout does, and wherever it stops, the transaction still waits, or it
  has been sent to layer 1, or a refusal has been sent to layer 2.\<close>

theorem started_transaction_not_lost:
  assumes "external_ok E" and "coherent E w" and "txid \<in> pending w L2_start_tx_info_map"
    and "w' = state_of (B_HandleConfirmSeqEvent E n w) \<or> w' = state_of (B_StartTxTimeOut E w)"
  shows "txid \<in> pending w' L2_start_tx_info_map \<or> txid \<in> pending w' L2_send_tx_info_map \<or>
    txid \<in> pending w' L2_send_ack_info_map"
proof -
  have "handed E L2_start_tx_info_map start_targets {txid} w"
    using assms(2,3) by (simp add: handed_def)
  then have "handed E L2_start_tx_info_map start_targets {txid} w'"
    using assms(4) keepsD [OF handed_start_loops(1) [OF assms(1)]] keepsD [OF handed_start_loops(2) [OF assms(1)]]
    by blast
  then show ?thesis by (auto simp: handed_def start_targets_def)
qed

theorem started_transaction_not_lost_witness:
  "''id1'' \<notin> pending (state_of (B_HandleConfirmSeqEvent chain_env 3
       (one_entry L2_start_tx_info_map sample_msg None))) L2_start_tx_info_map \<and>
   ''id1'' \<in> pending (state_of (B_HandleConfirmSeqEvent chain_env 3
       (one_entry L2_start_tx_info_map sample_msg None))) L2_send_tx_info_map"
proof -
  let ?w = "one_entry L2_start_tx_info_map sample_msg None"
  let ?v = "state_of (B_HandleConfirmSeqEvent chain_env 3 ?w)"
  have "''id1'' \<in> pending ?w L2_start_tx_info_map" by code_simp
  moreover have "''id1'' \<notin> pending ?v L2_start_tx_info_map" by code_simp
  moreover have "''id1'' \<notin> pending ?v L2_send_ack_info_map" by code_simp
  ultimately show ?thesis
    using started_transaction_not_lost [OF chain_env_ok chain_coherent, of L2_start_tx_info_map None "''id1''" ?v 3]
    by simp
qed

text \<open>C7: Forwarding the first confirmed transaction of the table ends the confirmation handler in
  undefined behaviour: the transaction is sent and moved to the next table, in memory and in the
  database, and the loop then uses an iterator of the element it has erased.\<close>

theorem forwarding_invalidates_the_loop:
  assumes "external_ok E" and "coherent E w" and "tables w L2_start_tx_info_map = (k, e) # rest"
    and "pb_parse E (cross_tx_info e) = (True, m)" and "confirmseq m \<le> n"
    and "\<not> timeout m < high_resolution E (trace w)"
    and "B_SendTxToLayer1 E m (log_io ClockRead w) = Done True w1"
  shows "\<exists>w'. B_HandleConfirmSeqEvent E n w = Fault IteratorInvalid w' \<and>
    k \<notin> pending w' L2_start_tx_info_map \<and> k \<in> pending w' L2_send_tx_info_map \<and>
    rk_map (rocks E) (db w') (dbkey L2_start_tx_info_map k) = None"
proof -
  have e: "entry_ok E L2_start_tx_info_map k e" using coherent_entry [OF assms(2)] assms(3) by simp
  have m: "crosstxid m = k" "plain_info m" "plain k"
    using entry_ok_message [OF assms(1) e] entry_ok_plain [OF e] assms(4) by simp_all
  have "coherent E (log_io ClockRead w)" using assms(2) trace_free_coherent by (simp add: trace_free_def coherent_def)
  then have co1: "coherent E w1" using keeps_Done [OF keeps_B_Send(1) [OF assms(1) m(2)] _ assms(7)] by blast
  have sent: "k \<in> pending w1 L2_send_tx_info_map"
    using adds_sends(4) [of m E] assms(7) m(1) by (auto simp: adds_def)
  obtain w2 where w2: "B_ClearStartTxInfo E k w1 = Done True w2"
    "pending w2 = (pending w1)(L2_start_tx_info_map := pending w1 L2_start_tx_info_map - {k})"
    using drops_clears(4) [of k E] coherent_sorted [OF co1] unfolding drops_def by blast
  have co2: "coherent E w2" using keeps_Done [OF keeps_B_Clear(1) [OF assms(1) m(3)] co1 w2(1)] .
  have "B_HandleConfirmSeqEvent_body E n k e w = Done () w2"
    using assms(4-7) w2(1) m(1) by (simp add: B_HandleConfirmSeqEvent_body_def prog_simps HighResolution_def)
  then have "B_HandleConfirmSeqEvent E n w = Fault IteratorInvalid w2"
    using for_each_erased [where body = "B_HandleConfirmSeqEvent_body E n", OF assms(3)] w2(2)
    by (simp add: B_HandleConfirmSeqEvent_def prog_simps)
  then show ?thesis using w2(2) sent coherent_mirror [OF co2 m(3), of L2_start_tx_info_map]
    by (auto simp: pending_def fun_upd_def fun_eq_iff split: if_splits)
qed

theorem forwarding_invalidates_the_loop_witness:
  "\<exists>w'. B_HandleConfirmSeqEvent chain_env 3 (one_entry L2_start_tx_info_map sample_msg None) =
     Fault IteratorInvalid w' \<and> ''id1'' \<in> pending w' L2_send_tx_info_map"
proof -
  let ?w = "one_entry L2_start_tx_info_map sample_msg None"
  let ?e = "(make_CrossTx sample_serialize sample_msg)\<lparr>send_ack_timeout := None\<rparr>"
  have co: "coherent chain_env ?w" by (rule chain_coherent) simp
  have tab: "tables ?w L2_start_tx_info_map = (''id1'', ?e) # []"
    by (simp add: one_entry_def sample_msg_def new_CrossTxInfo_def)
  have parse: "pb_parse chain_env (cross_tx_info ?e) = (True, sample_msg)"
    using sample_round_trip [OF sample_msg_plain] by (simp add: chain_env_def sample_env_def)
  have time: "confirmseq sample_msg \<le> 3" "\<not> timeout sample_msg < high_resolution chain_env (trace ?w)" by code_simp+
  have "value_of (B_SendTxToLayer1 chain_env sample_msg (log_io ClockRead ?w)) = Some True" by code_simp
  then obtain w1 where "B_SendTxToLayer1 chain_env sample_msg (log_io ClockRead ?w) = Done True w1"
    by (cases "B_SendTxToLayer1 chain_env sample_msg (log_io ClockRead ?w)") simp_all
  from forwarding_invalidates_the_loop [OF chain_env_ok co tab parse time this] show ?thesis by blast
qed

text \<open>C8: A confirmation that reaches none of the waiting transactions changes nothing: no
  request is made, and tables and database stay as they are.\<close>

theorem unconfirmed_transactions_wait:
  assumes "coherent E w"
    and "\<forall>k e. map_of (tables w L2_start_tx_info_map) k = Some e \<longrightarrow> n < confirmseq (snd (pb_parse E (cross_tx_info e)))"
  shows "\<exists>w'. B_HandleConfirmSeqEvent E n w = Done True w' \<and> db w' = db w \<and> tables w' = tables w \<and>
    trace w' = trace w @ replicate (length (tables w L2_start_tx_info_map)) ClockRead"
proof -
  have sorted: "sorted_map (tables w L2_start_tx_info_map)" using coherent_sorted [OF assms(1)] .
  have body: "B_HandleConfirmSeqEvent_body E n k e v = Done () (log_io ClockRead v)"
    if "(k, e) \<in> set (tables w L2_start_tx_info_map)" for k e v
  proof -
    have "map_of (tables w L2_start_tx_info_map) k = Some e" using map_of_sorted [OF sorted] that by simp
    with assms(2) have "\<not> confirmseq (snd (pb_parse E (cross_tx_info e))) \<le> n" by fastforce
    then show ?thesis by (simp add: B_HandleConfirmSeqEvent_body_def prog_simps HighResolution_def)
  qed
  obtain w' where "for_each L2_start_tx_info_map (B_HandleConfirmSeqEvent_body E n) w = Done () w'"
    "db w' = db w" "tables w' = tables w"
    "trace w' = trace w @ replicate (length (tables w L2_start_tx_info_map)) ClockRead"
    using for_each_quiet [OF sorted, where body = "B_HandleConfirmSeqEvent_body E n"] body by blast
  then show ?thesis by (simp add: B_HandleConfirmSeqEvent_def prog_simps)
qed

theorem unconfirmed_transactions_wait_witness:
  "\<exists>w'. B_HandleConfirmSeqEvent chain_env 2 (one_entry L2_start_tx_info_map sample_msg None) = Done True w' \<and>
     trace w' = [ClockRead]"
proof -
  let ?w = "one_entry L2_start_tx_info_map sample_msg None"
  have "\<forall>k e. map_of (tables ?w L2_start_tx_info_map) k = Some e \<longrightarrow>
      2 < confirmseq (snd (pb_parse chain_env (cross_tx_info e)))"
    using sample_round_trip [OF sample_msg_plain]
    by (simp add: one_entry_def chain_env_def sample_env_def) (simp add: sample_msg_def)
  from unconfirmed_transactions_wait [OF chain_coherent this]
  show ?thesis by (auto simp: one_entry_def)
qed











text \<open>C14: What is sent to a chain is one request: the serialised transaction from the agent to the
  cross-chain contract, valid for 200 blocks, with a signature over exactly those bytes. Without
  a block height nothing is sent.\<close>

theorem submission_is_signed_transaction:
  assumes "nonce fresh = 0"
  shows "submissions (trace (state_of (send_transaction E cfg fresh input amt w))) = submissions (trace w) @
    (case GetLayerSeq E (http_endpoint cfg) w of
       Done (Some n) w1 \<Rightarrow>
         if fits64 (n + 200) then
           [(http_endpoint cfg, signed_request E (private_key cfg) (pb_transaction E
              (fresh\<lparr>operations := operations fresh @
                  [\<lparr>dest_address = cross_contract cfg, pay_input = input, pay_amount = amt\<rparr>],
                nonce := system_millis E (trace w1), max_ledger_seq := n + 200\<rparr>)))]
         else []
     | _ \<Rightarrow> [])"
proof (cases "\<exists>n w1. GetLayerSeq E (http_endpoint cfg) w = Done (Some n) w1 \<and> fits64 (n + 200)")
  case True
  then obtain n w1 where "GetLayerSeq E (http_endpoint cfg) w = Done (Some n) w1" "fits64 (n + 200)" by blast
  with send_transaction_request [OF this assms, of input amt] show ?thesis
    by (simp add: AddTransactionOperation_def)
next
  case False
  with send_transaction_no_request [OF False] show ?thesis
    by (auto split: outcome.splits option.splits)
qed

theorem submission_is_signed_transaction_witness:
  "submissions (trace (state_of (send_transaction chain_env (layer1 chain_env) (Layer1Transaction_new chain_env) ''in'' 3 empty_world))) =
   [(''http1'', ''json'')]"
proof -
  have "nonce (Layer1Transaction_new chain_env) = 0" by (simp add: Layer1Transaction_new_def new_Transaction_def)
  note submission_is_signed_transaction [OF this, of chain_env "layer1 chain_env" "''in''" 3 empty_world]
  moreover have "\<exists>w1. GetLayerSeq chain_env ''http1'' empty_world = Done (Some 7) w1"
    by (rule value_of_Done) code_simp
  moreover have "http_endpoint (layer1 chain_env) = ''http1''" "json chain_env = sample_json chain_answers"
    by (simp_all add: chain_env_def sample_env_def sample_layer1_def)
  ultimately show ?thesis
    by (auto simp: fits64_def signed_request_def sample_json_def empty_world_def submissions_def)
qed

text \<open>C15: The agent starts only with enough money: start-up succeeds only if both chains (layer 2
  unless its gas price is zero) reported a balance of at least a hundred times fee limit times
  gas price, computed without overflow.\<close>

theorem start_needs_balance:
  assumes "Manager_Initialize E w = Done True w'"
  shows "(\<exists>v v' b. GetBalance E (http_endpoint (layer1 E)) (agent_address (layer1 E)) v = Done (Some b) v' \<and>
      100 * cfg_fee_limit (layer1 E) * cfg_gas_price (layer1 E) \<le> b \<and>
      fits64 (100 * cfg_fee_limit (layer1 E) * cfg_gas_price (layer1 E))) \<and>
    (cfg_gas_price (layer2 E) = 0 \<or>
     (\<exists>v v' b. GetBalance E (http_endpoint (layer2 E)) (agent_address (layer2 E)) v = Done (Some b) v' \<and>
      100 * cfg_fee_limit (layer2 E) * cfg_gas_price (layer2 E) \<le> b \<and>
      fits64 (100 * cfg_fee_limit (layer2 E) * cfg_gas_price (layer2 E))))"
proof -
  from assms obtain w1 w2 where check2: "CheckLayer2Balance E w = Done True w1"
    and check1: "CheckLayer1Balance E w1 = Done True w2"
    unfolding Manager_Initialize_def by (auto simp: run_simps split: if_splits)
  have "\<exists>v v' b. GetBalance E (http_endpoint (layer1 E)) (agent_address (layer1 E)) v = Done (Some b) v' \<and>
      100 * cfg_fee_limit (layer1 E) * cfg_gas_price (layer1 E) \<le> b \<and>
      fits64 (100 * cfg_fee_limit (layer1 E) * cfg_gas_price (layer1 E))"
    using check1 unfolding CheckLayer1Balance_def
    by (auto simp: run_simps min_balance_def fault_def Let_def not_less split: if_splits option.splits)
  moreover have "cfg_gas_price (layer2 E) = 0 \<or>
     (\<exists>v v' b. GetBalance E (http_endpoint (layer2 E)) (agent_address (layer2 E)) v = Done (Some b) v' \<and>
      100 * cfg_fee_limit (layer2 E) * cfg_gas_price (layer2 E) \<le> b \<and>
      fits64 (100 * cfg_fee_limit (layer2 E) * cfg_gas_price (layer2 E)))"
    using check2 unfolding CheckLayer2Balance_def
    by (auto simp: run_simps min_balance_def fault_def Let_def not_less split: if_splits option.splits)
  ultimately show ?thesis by blast
qed

theorem start_needs_balance_witness:
  "\<exists>v v' b. GetBalance rich_env ''http1'' ''agent1'' v = Done (Some b) v' \<and> 2000000 \<le> b"
proof -
  have "value_of (Manager_Initialize rich_env empty_world) = Some True" by code_simp
  from value_of_Done [OF this] obtain w' where "Manager_Initialize rich_env empty_world = Done True w'" ..
  from start_needs_balance [OF this] show ?thesis
    by (auto simp: rich_env_def sample_env_def sample_layer1_def)
qed

text \<open>C17: What a contract answers about a transaction is read back exactly: printing the fields the way
  the contracts do and parsing the two texts gives the transaction again, on both handles. No
  field may contain a comma, and the destination may not be empty.\<close>

theorem contract_answer_is_read_back:
  assumes "comma_free a" "comma_free b" "comma_free (crosstxid m)" "comma_free (srcbid m)" "comma_free (destbid m)"
    "comma_free (errordesc m)" "destbid m \<noteq> []" and "plain_info m"
  shows "A_makeCrossTxInfo new_CrossTxInfo (contract_info1 a b m) (contract_info2 m) w = Done (Some (chain_part m)) w \<and>
    B_makeCrossTxInfo new_CrossTxInfo (contract_info1 a b m) (contract_info2 m) w = Done (Some (chain_part m)) w"
  by (rule contract_read_back [OF assms])

theorem contract_answer_is_read_back_witness:
  "A_makeCrossTxInfo new_CrossTxInfo (contract_info1 ''0'' ''1'' sample_msg) (contract_info2 sample_msg) () =
     Done (Some (sample_msg\<lparr>confirmseq := 0\<rparr>)) ()"
proof -
  have "comma_free ''0''" "comma_free ''1''" "comma_free (crosstxid sample_msg)" "comma_free (srcbid sample_msg)"
    "comma_free (destbid sample_msg)" "comma_free (errordesc sample_msg)" "destbid sample_msg \<noteq> []"
    by (simp_all add: comma_free_def sample_msg_def new_CrossTxInfo_def)
  from contract_answer_is_read_back [OF this sample_msg_plain, of "()"] show ?thesis
    by (simp add: chain_part_def sample_msg_def new_CrossTxInfo_def)
qed

text \<open>The status of a transaction is always asked of the layer 2 contract, also when the question
  goes to layer 1, and a question that is not answered counts as the initial status.\<close>

theorem status_is_asked_of_layer2:
  "state_of (GetCrossTxStatus E url txid w) = log_io (status_question E url txid) w \<and>
   (unanswered E (trace w) (status_question E url txid) \<longrightarrow>
     value_of (GetCrossTxStatus E url txid w) = Some CROSS_RESULT_INIT)"
  by (rule GetCrossTxStatus_asks)

theorem status_is_asked_of_layer2_witness:
  "value_of (GetCrossTxStatus chain_env ''http1'' ''id1'' empty_world) = Some 0"
proof -
  have "unanswered chain_env (trace empty_world) (status_question chain_env ''http1'' ''id1'')"
    by (simp add: status_question_def chain_env_def sample_env_def chain_posts_def)
  with status_is_asked_of_layer2 [of chain_env "''http1''" "''id1''" empty_world] show ?thesis
    by (simp add: cross_results)
qed

text \<open>C23: A submission is accepted exactly when no result has an error code; the hash kept is that of
  the last result, and an answer without results is accepted with an empty hash.\<close>

theorem submission_accepted_without_errors:
  assumes "js_fromString (json E) response = Some j" and "js_get (json E) j ''results'' = Some res"
    and "list_all2 (result_is E) (if js_isArray (json E) res then js_elems (json E) res else []) ps"
  shows "checkTxResponse E response w =
    Done (if \<forall>p \<in> set ps. fst p = 0 then Some (last ([] # map snd ps)) else None) w"
  by (rule checkTxResponse_spec [OF assms])

theorem submission_accepted_without_errors_witness:
  "checkTxResponse chain_env ''sent'' empty_world = Done (Some ''h1'') empty_world"
proof -
  let ?r = "AObj [(''error_code'', ANum 0), (''hash'', AText ''h1'')]"
  have "js_fromString (json chain_env) ''sent'' = Some (AObj [(''results'', AList [?r])])"
    by (simp add: chain_env_def sample_env_def sample_json_def chain_answers_def)
  moreover have "js_get (json chain_env) (AObj [(''results'', AList [?r])]) ''results'' = Some (AList [?r])"
    by (simp add: chain_env_def sample_env_def sample_json_def)
  moreover have "plain ''h1''" by code_simp
  then have "result_is chain_env ?r (0, ''h1'')"
    by (simp add: result_is_def chain_env_def sample_env_def sample_json_def fits32_def)
  then have "list_all2 (result_is chain_env) (if js_isArray (json chain_env) (AList [?r])
      then js_elems (json chain_env) (AList [?r]) else []) [(0, ''h1'')]"
    by (simp add: chain_env_def sample_env_def sample_json_def)
  ultimately show ?thesis using submission_accepted_without_errors by fastforce
qed

end
